(* ===== verification/Prelude.thy ===== *)
theory Prelude
  imports Main "HOL-Library.Word" "HOL-Library.Sublist"
begin

text \<open>
  Shared vocabulary of the development. A Rust \<^verbatim>\<open>Result<T, E>\<close> is a sum \<open>'e + 't\<close> with
  \<open>Err\<close> on the left; a byte slice is a list of 8-bit words; a \<^verbatim>\<open>u16\<close>, \<^verbatim>\<open>u32\<close> or \<^verbatim>\<open>u64\<close>
  is a word of that width, with Rust's checked and saturating operations written out; a
  \<^verbatim>\<open>usize\<close> that only counts elements of a list is a \<open>nat\<close>; a Rust \<^verbatim>\<open>str\<close> is the list of
  its UTF-8 bytes as Isabelle characters. A fixed array \<^verbatim>\<open>[u8; N]\<close> is a byte list whose
  length is a well-formedness condition.
\<close>

unbundle bit_operations_syntax

named_theorems result_simps \<open>equations that evaluate Result combinators\<close>
named_theorems wire_simps \<open>lengths and cancellation of wire encodings\<close>

type_synonym u8 = "8 word"
type_synonym u16 = "16 word"
type_synonym u32 = "32 word"
type_synonym u64 = "64 word"
type_synonym bytes = "u8 list"

section \<open>Results\<close>

abbreviation Ok :: "'a \<Rightarrow> 'e + 'a" where
  "Ok \<equiv> Inr"

abbreviation Err :: "'e \<Rightarrow> 'e + 'a" where
  "Err \<equiv> Inl"

definition and_then :: "'e + 'a \<Rightarrow> ('a \<Rightarrow> 'e + 'b) \<Rightarrow> 'e + 'b" where
  "and_then r f = (case r of Inl e \<Rightarrow> Inl e | Inr x \<Rightarrow> f x)"

definition map_err :: "'e + 'a \<Rightarrow> 'f \<Rightarrow> 'f + 'a" where
  "map_err r e = (case r of Inl _ \<Rightarrow> Inl e | Inr x \<Rightarrow> Inr x)"

definition ok_or :: "'a option \<Rightarrow> 'e \<Rightarrow> 'e + 'a" where
  "ok_or m e = (case m of None \<Rightarrow> Inl e | Some x \<Rightarrow> Inr x)"

definition ensure :: "bool \<Rightarrow> 'e \<Rightarrow> 'e + unit" where
  "ensure c e = (if c then Inr () else Inl e)"

definition is_ok :: "'e + 'a \<Rightarrow> bool" where
  "is_ok r = (case r of Inl _ \<Rightarrow> False | Inr _ \<Rightarrow> True)"

lemma and_then_Ok [simp, result_simps]: "and_then (Ok x) f = f x"
  by (simp add: and_then_def)

lemma and_then_Err [simp, result_simps]: "and_then (Err e) f = Err e"
  by (simp add: and_then_def)

lemma and_then_assoc: "and_then (and_then r f) g = and_then r (\<lambda>x. and_then (f x) g)"
  by (cases r) simp_all

lemma and_then_eq_Ok [result_simps]:
  "and_then r f = Ok y \<longleftrightarrow> (\<exists>x. r = Ok x \<and> f x = Ok y)"
  by (simp add: and_then_def split: sum.splits)

lemma and_then_eq_Err [result_simps]:
  "and_then r f = Err e \<longleftrightarrow> r = Err e \<or> (\<exists>x. r = Ok x \<and> f x = Err e)"
  by (auto simp: and_then_def split: sum.splits)

lemma map_err_simps [simp, result_simps]:
  "map_err (Ok x) e = Ok x" "map_err (Err d) e = Err e"
  by (simp_all add: map_err_def)

lemma map_err_eq_Ok [simp, result_simps]: "map_err r e = Ok x \<longleftrightarrow> r = Ok x"
  by (simp add: map_err_def split: sum.splits)

lemma ok_or_simps [simp, result_simps]:
  "ok_or (Some x) e = Ok x" "ok_or None e = Err e"
  by (simp_all add: ok_or_def)

lemma ok_or_eq_Ok [simp, result_simps]: "ok_or m e = Ok x \<longleftrightarrow> m = Some x"
  by (simp add: ok_or_def split: option.splits)

lemma ensure_eq_Ok [simp, result_simps]: "ensure c e = Ok u \<longleftrightarrow> c"
  by (simp add: ensure_def)

lemma ensure_simps [simp, result_simps]: "ensure True e = Ok ()" "ensure False e = Err e"
  by (simp_all add: ensure_def)

lemma is_ok_simps [simp, result_simps]: "is_ok (Ok x)" "\<not> is_ok (Err e)"
  by (simp_all add: is_ok_def)

lemma is_ok_iff: "is_ok r \<longleftrightarrow> (\<exists>x. r = Ok x)"
  by (simp add: is_ok_def split: sum.splits)

section \<open>Machine integers\<close>

definition checked_add :: "'a::len word \<Rightarrow> 'a word \<Rightarrow> 'a word option" where
  "checked_add a b = (if unat a + unat b < 2 ^ LENGTH('a) then Some (a + b) else None)"

definition checked_mul :: "'a::len word \<Rightarrow> 'a word \<Rightarrow> 'a word option" where
  "checked_mul a b = (if unat a * unat b < 2 ^ LENGTH('a) then Some (a * b) else None)"

definition checked_sub :: "'a::len word \<Rightarrow> 'a word \<Rightarrow> 'a word option" where
  "checked_sub a b = (if b \<le> a then Some (a - b) else None)"

definition saturating_add :: "'a::len word \<Rightarrow> 'a word \<Rightarrow> 'a word" where
  "saturating_add a b = (if unat a + unat b < 2 ^ LENGTH('a) then a + b else -1)"

definition saturating_mul :: "'a::len word \<Rightarrow> 'a word \<Rightarrow> 'a word" where
  "saturating_mul a b = (if unat a * unat b < 2 ^ LENGTH('a) then a * b else -1)"

definition saturating_sub :: "'a::len word \<Rightarrow> 'a word \<Rightarrow> 'a word" where
  "saturating_sub a b = (if b \<le> a then a - b else 0)"

definition abs_diff :: "'a::len word \<Rightarrow> 'a word \<Rightarrow> 'a word" where
  "abs_diff a b = (if a \<le> b then b - a else a - b)"

lemma unat_lt2p: "unat w < 2 ^ LENGTH('a)" for w :: "'a::len word"
  by (rule unsigned_less)

lemma unat_add_fits:
  "unat a + unat b < 2 ^ LENGTH('a) \<Longrightarrow> unat (a + b) = unat a + unat (b :: 'a::len word)"
  by (simp add: unat_word_ariths)

lemma checked_add_Some:
  "checked_add a b = Some c \<longleftrightarrow> unat c = unat a + unat (b :: 'a::len word)"
proof
  assume "checked_add a b = Some c"
  then show "unat c = unat a + unat b"
    by (auto simp: checked_add_def unat_add_fits split: if_splits)
next
  assume c: "unat c = unat a + unat b"
  then have lt: "unat a + unat b < 2 ^ LENGTH('a)"
    using unat_lt2p [of c] by simp
  then have "unat (a + b) = unat c" by (simp add: unat_add_fits c)
  then have "a + b = c" by (simp add: word_unat_eq_iff)
  with lt show "checked_add a b = Some c" by (simp add: checked_add_def)
qed

lemma checked_mul_Some:
  "checked_mul a b = Some c \<Longrightarrow> unat c = unat a * unat (b :: 'a::len word)"
  by (auto simp: checked_mul_def unat_word_ariths split: if_splits)

lemma checked_sub_Some:
  "checked_sub a b = Some c \<longleftrightarrow> unat a = unat b + unat (c :: 'a::len word)"
proof
  assume "checked_sub a b = Some c"
  then show "unat a = unat b + unat c"
    by (auto simp: checked_sub_def unat_sub word_le_nat_alt split: if_splits)
next
  assume a: "unat a = unat b + unat c"
  then have le: "b \<le> a" by (simp add: word_le_nat_alt)
  then have "unat (a - b) = unat c" using a by (simp add: unat_sub)
  with le show "checked_sub a b = Some c"
    by (simp add: checked_sub_def word_unat_eq_iff)
qed

lemma unat_saturating_add:
  "unat (saturating_add a b) = min (unat a + unat b) (2 ^ LENGTH('a) - 1)"
  for a b :: "'a::len word"
proof (cases "unat a + unat b < 2 ^ LENGTH('a)")
  case True
  then show ?thesis by (simp add: saturating_add_def unat_add_fits)
next
  case False
  then show ?thesis by (simp add: saturating_add_def unsigned_minus_1_eq_mask mask_eq_exp_minus_1)
qed

lemma unat_saturating_sub:
  "unat (saturating_sub a b) = unat a - unat (b :: 'a::len word)"
  by (simp add: saturating_sub_def unat_sub word_le_nat_alt)

lemma unat_abs_diff:
  "unat (abs_diff a b) = (unat a - unat b) + (unat b - unat (a :: 'a::len word))"
  by (auto simp: abs_diff_def unat_sub word_le_nat_alt)

section \<open>Bits, most significant first\<close>

definition bits_msb :: "nat \<Rightarrow> 'a::len word \<Rightarrow> bool list" where
  "bits_msb k w = map (bit w) (rev [0..<k])"

lemma length_bits_msb [simp]: "length (bits_msb k w) = k"
  by (simp add: bits_msb_def)

lemma bits_msb_add:
  "bits_msb (j + k) w = map (\<lambda>i. bit w (k + i)) (rev [0..<j]) @ bits_msb k w"
proof -
  have "[0..<k + j] = [0..<k] @ map (\<lambda>i. i + k) [0..<j]"
    using upt_add_eq_append [of 0 k j] by (simp add: map_add_upt add.commute)
  then show ?thesis by (simp add: bits_msb_def rev_map add.commute comp_def)
qed

lemma bits_msb_inj:
  assumes "bits_msb (LENGTH('a)) v = bits_msb (LENGTH('a)) w"
  shows "v = (w :: 'a::len word)"
proof (rule bit_word_eqI)
  fix n assume "n < LENGTH('a)"
  with assms show "bit v n = bit w n"
    by (auto simp: bits_msb_def)
qed

lemma unat_drop_bit: "unat (drop_bit k (w :: 'a::len word)) = drop_bit k (unat w)"
  using unat_lt2p [of w] by (simp add: unsigned_drop_bit_eq take_bit_nat_eq_self)

lemma lowest_bit: "(w AND 1 = 1) \<longleftrightarrow> odd (unat (w :: 'a::len word))"
proof -
  have "odd (unat w) \<longleftrightarrow> bit w 0" by (simp flip: bit_0 add: bit_unsigned_iff)
  then show ?thesis by (simp add: and_one_eq mod2_eq_if bit_0)
qed

lemma map_eq_upt_iff: "map f xs = map g [0..<length xs] \<longleftrightarrow> (\<forall>i < length xs. f (xs ! i) = g i)"
  by (subst list_eq_iff_nth_eq) simp

lemma filter_upt_single: "e < n \<Longrightarrow> filter (\<lambda>i. i = e) [0..<n] = [e]"
  by (induction n) (auto simp: less_Suc_eq filter_empty_conv)

section \<open>Byte order\<close>

primrec le_bytes :: "nat \<Rightarrow> nat \<Rightarrow> bytes" where
  "le_bytes 0 n = []"
| "le_bytes (Suc k) n = word_of_nat (n mod 256) # le_bytes k (n div 256)"

lemma le_bytes_numeral [simp]:
  "le_bytes (numeral k) n = word_of_nat (n mod 256) # le_bytes (pred_numeral k) (n div 256)"
  by (simp only: numeral_eq_Suc [of k] le_bytes.simps)

primrec le_val :: "bytes \<Rightarrow> nat" where
  "le_val [] = 0"
| "le_val (b # bs) = unat b + 256 * le_val bs"

lemma length_le_bytes [simp]: "length (le_bytes k n) = k"
  by (induction k arbitrary: n) simp_all

lemma le_val_bound: "le_val bs < 256 ^ length bs"
proof (induction bs)
  case (Cons b bs)
  have "unat b < 256" using unat_lt2p [of b] by simp
  with Cons show ?case by simp
qed simp

lemma le_val_le_bytes: "le_val (le_bytes k n) = n mod 256 ^ k"
proof (induction k arbitrary: n)
  case (Suc k)
  have "unat (word_of_nat (n mod 256) :: u8) = n mod 256"
    by (simp add: unat_of_nat take_bit_eq_mod)
  then show ?case using Suc by (simp add: mod_mult2_eq)
qed simp

lemma le_bytes_le_val: "le_bytes (length bs) (le_val bs) = bs"
proof (induction bs)
  case (Cons b bs)
  have b: "unat b < 256" using unat_lt2p [of b] by simp
  then have "(unat b + 256 * le_val bs) mod 256 = unat b"
    and "(unat b + 256 * le_val bs) div 256 = le_val bs" by simp_all
  with Cons show ?case by simp
qed simp

lemma le_bytes_inj: "m < 256 ^ k \<Longrightarrow> n < 256 ^ k \<Longrightarrow> le_bytes k m = le_bytes k n \<Longrightarrow> m = n"
  by (metis le_val_le_bytes mod_less)

definition u16_le :: "u16 \<Rightarrow> bytes" where "u16_le w = le_bytes 2 (unat w)"
definition u32_le :: "u32 \<Rightarrow> bytes" where "u32_le w = le_bytes 4 (unat w)"
definition u64_le :: "u64 \<Rightarrow> bytes" where "u64_le w = le_bytes 8 (unat w)"
definition u32_be :: "u32 \<Rightarrow> bytes" where "u32_be w = rev (le_bytes 4 (unat w))"
definition u64_be :: "u64 \<Rightarrow> bytes" where "u64_be w = rev (le_bytes 8 (unat w))"
definition u32_from_le :: "bytes \<Rightarrow> u32" where "u32_from_le bs = word_of_nat (le_val bs)"
definition u64_from_le :: "bytes \<Rightarrow> u64" where "u64_from_le bs = word_of_nat (le_val bs)"
definition u32_from_be :: "bytes \<Rightarrow> u32" where "u32_from_be bs = word_of_nat (le_val (rev bs))"
definition u64_from_be :: "bytes \<Rightarrow> u64" where "u64_from_be bs = word_of_nat (le_val (rev bs))"

lemmas word_bytes_defs = u16_le_def u32_le_def u64_le_def u32_be_def u64_be_def
  u32_from_le_def u64_from_le_def u32_from_be_def u64_from_be_def

lemma length_word_bytes [simp, wire_simps]:
  "length (u16_le a) = 2" "length (u32_le b) = 4" "length (u64_le c) = 8"
  "length (u32_be b) = 4" "length (u64_be c) = 8"
  by (simp_all add: u16_le_def u32_le_def u64_le_def u32_be_def u64_be_def del: le_bytes_numeral)

lemma from_to_bytes [simp, wire_simps]:
  "u32_from_le (u32_le b) = b" "u64_from_le (u64_le c) = c"
  "u32_from_be (u32_be b) = b" "u64_from_be (u64_be c) = c"
proof -
  have "unat b < 256 ^ 4" "unat c < 256 ^ 8"
    using unat_lt2p [of b] unat_lt2p [of c] by simp_all
  then show "u32_from_le (u32_le b) = b" "u64_from_le (u64_le c) = c"
    "u32_from_be (u32_be b) = b" "u64_from_be (u64_be c) = c"
    unfolding word_bytes_defs by (simp_all add: le_val_le_bytes del: le_bytes_numeral)
qed

lemma to_from_bytes:
  "length bs = 4 \<Longrightarrow> u32_le (u32_from_le bs) = bs"
  "length bs = 8 \<Longrightarrow> u64_le (u64_from_le bs) = bs"
  "length bs = 4 \<Longrightarrow> u32_be (u32_from_be bs) = bs"
  "length bs = 8 \<Longrightarrow> u64_be (u64_from_be bs) = bs"
proof -
  have *: "unat (word_of_nat (le_val cs) :: u32) = le_val cs" if "length cs = 4" for cs
    using le_val_bound [of cs] that by (simp add: unat_of_nat take_bit_eq_mod)
  have **: "unat (word_of_nat (le_val cs) :: u64) = le_val cs" if "length cs = 8" for cs
    using le_val_bound [of cs] that by (simp add: unat_of_nat take_bit_eq_mod)
  have L: "le_bytes 4 (le_val cs) = cs" if "length cs = 4" for cs
    using le_bytes_le_val [of cs] that by (simp del: le_bytes_numeral)
  have M: "le_bytes 8 (le_val cs) = cs" if "length cs = 8" for cs
    using le_bytes_le_val [of cs] that by (simp del: le_bytes_numeral)
  show "length bs = 4 \<Longrightarrow> u32_le (u32_from_le bs) = bs"
    by (simp add: u32_le_def u32_from_le_def * L del: le_bytes_numeral)
  show "length bs = 8 \<Longrightarrow> u64_le (u64_from_le bs) = bs"
    by (simp add: u64_le_def u64_from_le_def ** M del: le_bytes_numeral)
  show "length bs = 4 \<Longrightarrow> u32_be (u32_from_be bs) = bs"
    using * [of "rev bs"] L [of "rev bs"]
    by (simp add: u32_be_def u32_from_be_def del: le_bytes_numeral)
  show "length bs = 8 \<Longrightarrow> u64_be (u64_from_be bs) = bs"
    using ** [of "rev bs"] M [of "rev bs"]
    by (simp add: u64_be_def u64_from_be_def del: le_bytes_numeral)
qed

lemma word_bytes_inject [simp, wire_simps]:
  "u32_le a = u32_le b \<longleftrightarrow> a = b" "u64_le c = u64_le d \<longleftrightarrow> c = d"
  "u32_be a = u32_be b \<longleftrightarrow> a = b" "u64_be c = u64_be d \<longleftrightarrow> c = d"
  by (metis from_to_bytes)+

lemma u16_le_inject [simp, wire_simps]: "u16_le a = u16_le b \<longleftrightarrow> a = b"
proof
  assume "u16_le a = u16_le b"
  moreover have "unat a < 256 ^ 2" "unat b < 256 ^ 2"
    using unat_lt2p [of a] unat_lt2p [of b] by simp_all
  ultimately have "unat a = unat b"
    unfolding u16_le_def by (metis le_bytes_inj)
  then show "a = b" by (simp add: word_unat_eq_iff)
qed simp

section \<open>Strings\<close>

definition as_bytes :: "string \<Rightarrow> bytes" where
  "as_bytes s = map of_char s"

lemma length_as_bytes [simp, wire_simps]: "length (as_bytes s) = length s"
  by (simp add: as_bytes_def)

lemma unat_of_char_u8: "unat (of_char c :: u8) = of_char c"
proof -
  have "unat (word_of_nat (of_char c) :: u8) = of_char c mod 256"
    by (simp only: unat_of_nat) simp
  then show ?thesis by (simp add: of_nat_of_char)
qed

lemma of_char_u8_inject: "(of_char c :: u8) = of_char d \<longleftrightarrow> c = d"
  by (metis unat_of_char_u8 of_char_eq_iff)

lemma as_bytes_inject [simp, wire_simps]: "as_bytes s = as_bytes t \<longleftrightarrow> s = t"
proof -
  have "inj (of_char :: char \<Rightarrow> u8)" by (simp add: inj_def of_char_u8_inject)
  then show ?thesis by (simp add: as_bytes_def inj_map_eq_map)
qed

lemma as_bytes_append [simp]: "as_bytes (s @ t) = as_bytes s @ as_bytes t"
  by (simp add: as_bytes_def)

abbreviation code :: "char \<Rightarrow> nat" where
  "code \<equiv> of_char"

definition is_ascii :: "char \<Rightarrow> bool" where
  "is_ascii c \<longleftrightarrow> code c < 128"

definition is_ascii_digit :: "char \<Rightarrow> bool" where
  "is_ascii_digit c \<longleftrightarrow> 48 \<le> code c \<and> code c \<le> 57"

definition is_ascii_upper :: "char \<Rightarrow> bool" where
  "is_ascii_upper c \<longleftrightarrow> 65 \<le> code c \<and> code c \<le> 90"

definition is_ascii_lower :: "char \<Rightarrow> bool" where
  "is_ascii_lower c \<longleftrightarrow> 97 \<le> code c \<and> code c \<le> 122"

definition is_ascii_alphanumeric :: "char \<Rightarrow> bool" where
  "is_ascii_alphanumeric c \<longleftrightarrow> is_ascii_digit c \<or> is_ascii_upper c \<or> is_ascii_lower c"

definition is_ascii_control :: "char \<Rightarrow> bool" where
  "is_ascii_control c \<longleftrightarrow> code c < 32 \<or> code c = 127"

definition is_ascii_whitespace :: "char \<Rightarrow> bool" where
  "is_ascii_whitespace c \<longleftrightarrow> code c \<in> {9, 10, 12, 13, 32}"

definition to_ascii_lower :: "char \<Rightarrow> char" where
  "to_ascii_lower c = (if is_ascii_upper c then char_of (code c + 32) else c)"

definition to_ascii_lowercase :: "string \<Rightarrow> string" where
  "to_ascii_lowercase s = map to_ascii_lower s"

definition eq_ignore_ascii_case :: "string \<Rightarrow> string \<Rightarrow> bool" where
  "eq_ignore_ascii_case s t \<longleftrightarrow> to_ascii_lowercase s = to_ascii_lowercase t"

lemmas ascii_defs = is_ascii_def is_ascii_digit_def is_ascii_upper_def is_ascii_lower_def
  is_ascii_alphanumeric_def

lemma code_to_ascii_lower:
  "code (to_ascii_lower c) = (if is_ascii_upper c then code c + 32 else code c)"
  by (simp add: to_ascii_lower_def is_ascii_upper_def of_char_of)

lemma to_ascii_lower_idem [simp]: "to_ascii_lower (to_ascii_lower c) = to_ascii_lower c"
proof -
  have "\<not> is_ascii_upper (to_ascii_lower c)"
    by (auto simp: is_ascii_upper_def code_to_ascii_lower)
  then show ?thesis by (simp add: to_ascii_lower_def [of "to_ascii_lower c"])
qed

lemma to_ascii_lowercase_idem [simp]:
  "to_ascii_lowercase (to_ascii_lowercase s) = to_ascii_lowercase s"
  by (simp add: to_ascii_lowercase_def)

lemma length_to_ascii_lowercase [simp]: "length (to_ascii_lowercase s) = length s"
  by (simp add: to_ascii_lowercase_def)

lemma to_ascii_lowercase_Nil [simp]: "to_ascii_lowercase s = [] \<longleftrightarrow> s = []"
  by (simp add: to_ascii_lowercase_def)

lemma alphanumeric_lower [simp]:
  "is_ascii_alphanumeric (to_ascii_lower c) = is_ascii_alphanumeric c"
  by (auto simp: ascii_defs code_to_ascii_lower)

text \<open>
  A character no case folding touches: lowering never creates or removes one that is not a
  letter.
\<close>

lemma to_ascii_lower_fixed:
  assumes "\<not> is_ascii_upper d" "\<not> is_ascii_lower d"
  shows "to_ascii_lower c = d \<longleftrightarrow> c = d"
proof
  assume l: "to_ascii_lower c = d"
  have "\<not> is_ascii_upper c"
    using l assms(2) code_to_ascii_lower [of c] by (auto simp: ascii_defs)
  with l show "c = d" by (simp add: to_ascii_lower_def)
next
  assume "c = d"
  with assms show "to_ascii_lower c = d" by (simp add: to_ascii_lower_def)
qed

primrec split_on :: "char \<Rightarrow> string \<Rightarrow> string list" where
  "split_on d [] = [[]]"
| "split_on d (c # cs) =
     (if c = d then [] # split_on d cs
      else (case split_on d cs of [] \<Rightarrow> [[c]] | x # xs \<Rightarrow> (c # x) # xs))"

definition split_once :: "char \<Rightarrow> string \<Rightarrow> (string \<times> string) option" where
  "split_once d s =
     (if d \<in> set s
      then Some (takeWhile (\<lambda>c. c \<noteq> d) s, tl (dropWhile (\<lambda>c. c \<noteq> d) s))
      else None)"

definition strip_prefix :: "string \<Rightarrow> string \<Rightarrow> string option" where
  "strip_prefix p s = (if prefix p s then Some (drop (length p) s) else None)"

definition strip_suffix :: "string \<Rightarrow> string \<Rightarrow> string option" where
  "strip_suffix p s = (if suffix p s then Some (take (length s - length p) s) else None)"

definition starts_with :: "(char \<Rightarrow> bool) \<Rightarrow> string \<Rightarrow> bool" where
  "starts_with P s \<longleftrightarrow> s \<noteq> [] \<and> P (hd s)"

definition ends_with :: "(char \<Rightarrow> bool) \<Rightarrow> string \<Rightarrow> bool" where
  "ends_with P s \<longleftrightarrow> s \<noteq> [] \<and> P (last s)"

lemma split_on_nonempty [simp]: "split_on d s \<noteq> []"
  by (induction s) (auto split: list.splits)

lemma split_on_no_sep: "x \<in> set (split_on d s) \<Longrightarrow> d \<notin> set x"
proof (induction s arbitrary: x)
  case (Cons c cs)
  then show ?case by (cases "split_on d cs") (auto split: if_splits)
qed simp

lemma split_on_not_in: "d \<notin> set s \<Longrightarrow> split_on d s = [s]"
  by (induction s) auto

lemma split_on_append:
  "d \<notin> set s \<Longrightarrow> split_on d (s @ d # t) = s # split_on d t"
  by (induction s) auto

lemma strip_prefix_append [simp]: "strip_prefix p (p @ s) = Some s"
  by (simp add: strip_prefix_def)

lemma strip_prefix_Some: "strip_prefix p s = Some t \<longleftrightarrow> s = p @ t"
  by (auto simp: strip_prefix_def prefix_def)

end
