(* ===== verification/Codec.thy ===== *)
theory Codec
  imports Prelude
begin

text \<open>
  The two interfaces the wire formats of the program share.

  A \<open>prefix_code\<close> is an encoder whose output can be followed by anything without becoming
  ambiguous: it is what a field of a signed preimage must be for the signature to bind the
  field. A \<open>fixed_code\<close> (every encoding has the same length) is one. A \<open>codec\<close> pairs a
  fallible encoder with a strict decoder: encoding then decoding gives the value back, and the
  decoder accepts only the canonical encoding.
\<close>

section \<open>Prefix codes\<close>

locale prefix_code =
  fixes wf :: "'a \<Rightarrow> bool" and enc :: "'a \<Rightarrow> bytes"
  assumes enc_cancel: "wf x \<Longrightarrow> wf y \<Longrightarrow> enc x @ r = enc y @ s \<Longrightarrow> x = y \<and> r = s"
begin

lemma enc_append_eq: "wf x \<Longrightarrow> wf y \<Longrightarrow> (enc x @ r = enc y @ s) = (x = y \<and> r = s)"
  using enc_cancel by blast

lemma enc_inject: "wf x \<Longrightarrow> wf y \<Longrightarrow> (enc x = enc y) = (x = y)"
  using enc_cancel [of x y "[]" "[]"] by auto

lemma enc_list_cancel:
  assumes "list_all wf xs" "list_all wf ys" "length xs = length ys"
    and "concat (map enc xs) @ r = concat (map enc ys) @ s"
  shows "xs = ys \<and> r = s"
  using assms(3,1,2,4)
proof (induction xs ys rule: list_induct2)
  case (Cons x xs y ys)
  then have "enc x @ (concat (map enc xs) @ r) = enc y @ (concat (map enc ys) @ s)"
    by simp
  with Cons.prems have "x = y" "concat (map enc xs) @ r = concat (map enc ys) @ s"
    using enc_cancel by auto
  with Cons show ?case by simp
qed simp

end

locale fixed_code =
  fixes n :: nat and wf :: "'a \<Rightarrow> bool" and enc :: "'a \<Rightarrow> bytes"
  assumes enc_len: "wf x \<Longrightarrow> length (enc x) = n"
    and enc_inj: "wf x \<Longrightarrow> wf y \<Longrightarrow> enc x = enc y \<Longrightarrow> x = y"

sublocale fixed_code \<subseteq> prefix_code wf enc
proof
  fix x y r s
  assume "wf x" "wf y" "enc x @ r = enc y @ s"
  then show "x = y \<and> r = s" using enc_len enc_inj by simp
qed

text \<open>The integer encodings and raw arrays of fixed length.\<close>

interpretation u32le: fixed_code 4 "\<lambda>_. True" u32_le
  by unfold_locales simp_all

interpretation u64le: fixed_code 8 "\<lambda>_. True" u64_le
  by unfold_locales simp_all

interpretation u32be: fixed_code 4 "\<lambda>_. True" u32_be
  by unfold_locales simp_all

interpretation u64be: fixed_code 8 "\<lambda>_. True" u64_be
  by unfold_locales simp_all

interpretation array32: fixed_code 32 "\<lambda>b. length b = 32" "\<lambda>b. b"
  by unfold_locales simp_all

text \<open>
  A field preceded by its length, little-endian or big-endian: \<^verbatim>\<open>(x.len() as u32)\<close> truncates,
  so the code is unambiguous only for fields shorter than \<open>2 ^ 32\<close> bytes.
\<close>

definition lp32_le :: "bytes \<Rightarrow> bytes" where
  "lp32_le b = u32_le (word_of_nat (length b)) @ b"

definition lp32_be :: "bytes \<Rightarrow> bytes" where
  "lp32_be b = u32_be (word_of_nat (length b)) @ b"

definition fits_u32 :: "'a list \<Rightarrow> bool" where
  "fits_u32 b \<longleftrightarrow> length b < 2 ^ 32"

lemma word_of_nat_len_inj:
  assumes "m < 2 ^ 32" "n < 2 ^ 32"
  shows "(word_of_nat m :: u32) = word_of_nat n \<longleftrightarrow> m = n"
proof -
  have "unat (word_of_nat m :: u32) = m" "unat (word_of_nat n :: u32) = n"
    using assms by (simp_all add: unat_of_nat take_bit_eq_mod)
  then show ?thesis by metis
qed

interpretation lp32le: prefix_code fits_u32 lp32_le
proof
  fix x y r s
  assume wf: "fits_u32 (x :: bytes)" "fits_u32 y" and eq: "lp32_le x @ r = lp32_le y @ s"
  from eq have len: "(word_of_nat (length x) :: u32) = word_of_nat (length y)"
    and rest: "x @ r = y @ s" by (simp_all add: lp32_le_def)
  from len wf have "length x = length y"
    by (simp add: fits_u32_def word_of_nat_len_inj)
  with rest show "x = y \<and> r = s" by simp
qed

interpretation lp32be: prefix_code fits_u32 lp32_be
proof
  fix x y r s
  assume wf: "fits_u32 (x :: bytes)" "fits_u32 y" and eq: "lp32_be x @ r = lp32_be y @ s"
  from eq have len: "(word_of_nat (length x) :: u32) = word_of_nat (length y)"
    and rest: "x @ r = y @ s" by (simp_all add: lp32_be_def)
  from len wf have "length x = length y"
    by (simp add: fits_u32_def word_of_nat_len_inj)
  with rest show "x = y \<and> r = s" by simp
qed

section \<open>Strict codecs\<close>

locale codec =
  fixes wf :: "'a \<Rightarrow> bool" and enc :: "'a \<Rightarrow> 'e + 'w" and dec :: "'w \<Rightarrow> 'd + 'a"
  assumes enc_dec: "wf x \<Longrightarrow> \<exists>w. enc x = Ok w \<and> dec w = Ok x"
    and dec_enc: "dec w = Ok x \<Longrightarrow> wf x \<and> enc x = Ok w"
begin

lemma dec_inj: "dec v = Ok x \<Longrightarrow> dec w = Ok x \<Longrightarrow> v = w"
  by (metis dec_enc sum.inject(2))

lemma enc_inj_on: "wf x \<Longrightarrow> wf y \<Longrightarrow> enc x = enc y \<Longrightarrow> x = y"
  using enc_dec by (metis sum.inject(2))

lemma dec_iff: "dec w = Ok x \<longleftrightarrow> wf x \<and> enc x = Ok w"
  by (metis enc_dec dec_enc sum.inject(2))

end

end
