(* ===== verification/Core_Error.thy ===== *)
theory Core_Error
  imports Codec
begin

text \<open>
  \<^verbatim>\<open>pigeonpost-core/src/error.rs\<close>: every way a core operation can fail. The static messages of
  the source are kept as strings, so that two failing branches stay distinguishable.
\<close>

datatype error =
    MalformedAddress string
  | InvalidBase32
  | InvalidKey
  | BadSignature
  | DecryptionFailed
  | MalformedEnvelope string
  | SenderMismatch
  | SuccessorMismatch
  | StaleSequence
  | InsufficientWork
  | TooLarge
  | StaleTimestamp

end
