(* ===== verification/Base32.thy ===== *)
theory Base32
  imports Core_Error
begin

text \<open>
  \<^verbatim>\<open>pigeonpost-core/src/b32.rs\<close>: Crockford base32, lowercase, without padding. The encoder and
  the decoder keep a 16-bit buffer whose high bits are never cleared, as the source does; the
  proofs follow the bits still pending in it.
\<close>

definition ALPHABET :: string where
  "ALPHABET = ''0123456789abcdefghjkmnpqrstvwxyz''"

text \<open>The inner \<^verbatim>\<open>while bits >= 5\<close> loop: emits the five-bit groups that are complete.\<close>

function emit :: "u16 \<Rightarrow> nat \<Rightarrow> u16 list \<times> nat" where
  "emit buffer bits =
     (if 5 \<le> bits
      then let index = (drop_bit (bits - 5) buffer) AND 31;
               (rest, left) = emit buffer (bits - 5)
           in (index # rest, left)
      else ([], bits))"
  by pat_completeness auto
termination
  by (relation "measure snd") auto

declare emit.simps [simp del]

fun encode_loop :: "u16 \<Rightarrow> nat \<Rightarrow> bytes \<Rightarrow> u16 list" where
  "encode_loop buffer bits [] =
     (if 0 < bits then [(push_bit (5 - bits) buffer) AND 31] else [])"
| "encode_loop buffer bits (byte # rest) =
     (let buffer' = (push_bit 8 buffer) OR ucast byte;
          (out, left) = emit buffer' (bits + 8)
      in out @ encode_loop buffer' left rest)"

definition encode :: "bytes \<Rightarrow> string" where
  "encode input = map (\<lambda>index. ALPHABET ! unat index) (encode_loop 0 0 input)"

definition decode_char :: "char \<Rightarrow> error + u8" where
  "decode_char ch =
     (let lower = to_ascii_lower ch; n = code lower in
      if lower = CHR ''0'' \<or> lower = CHR ''o'' then Ok 0
      else if lower = CHR ''1'' \<or> lower = CHR ''i'' \<or> lower = CHR ''l'' then Ok 1
      else if 50 \<le> n \<and> n \<le> 57 then Ok (word_of_nat (n - 48))
      else if 97 \<le> n \<and> n \<le> 104 then Ok (word_of_nat (n - 97 + 10))
      else if lower = CHR ''j'' \<or> lower = CHR ''k'' then Ok (word_of_nat (n - 97 + 9))
      else if lower = CHR ''m'' \<or> lower = CHR ''n'' then Ok (word_of_nat (n - 97 + 8))
      else if 112 \<le> n \<and> n \<le> 116 then Ok (word_of_nat (n - 97 + 7))
      else if 118 \<le> n \<and> n \<le> 122 then Ok (word_of_nat (n - 97 + 6))
      else Err InvalidBase32)"

fun decode_loop :: "u16 \<Rightarrow> nat \<Rightarrow> string \<Rightarrow> error + bytes" where
  "decode_loop buffer bits [] = Ok []"
| "decode_loop buffer bits (ch # rest) =
     and_then (decode_char ch) (\<lambda>value.
       let buffer' = (push_bit 5 buffer) OR ucast value; bits' = bits + 5 in
       if 8 \<le> bits'
       then and_then (decode_loop buffer' (bits' - 8) rest) (\<lambda>out.
              Ok (ucast (drop_bit (bits' - 8) buffer' AND 255) # out))
       else decode_loop buffer' bits' rest)"

definition decode :: "string \<Rightarrow> error + bytes" where
  "decode input = decode_loop 0 0 input"

section \<open>The bits an encoding carries\<close>

abbreviation bits5 :: "u16 list \<Rightarrow> bool list" where
  "bits5 vs \<equiv> concat (map (bits_msb 5) vs)"

abbreviation bits8 :: "bytes \<Rightarrow> bool list" where
  "bits8 bs \<equiv> concat (map (bits_msb 8) bs)"

text \<open>Shifting a byte (or a five-bit value) in appends its bits to the pending ones.\<close>

lemma bits_msb_shift_in:
  fixes v :: "'a::len word" and buffer :: u16
  assumes "k \<le> LENGTH('a)" "bits + k \<le> 16" "\<And>i. k \<le> i \<Longrightarrow> \<not> bit v i"
  shows "bits_msb (bits + k) ((push_bit k buffer) OR ucast v) = bits_msb bits buffer @ bits_msb k v"
proof -
  have hi: "bit ((push_bit k buffer) OR ucast v) (k + i) = bit buffer i" if "i < bits" for i
    using assms that by (auto simp: bit_simps)
  have lo: "bit ((push_bit k buffer) OR ucast v) i = bit v i" if "i < k" for i
    using assms that by (auto simp: bit_simps)
  have "map (\<lambda>i. bit ((push_bit k buffer) OR ucast v) (k + i)) (rev [0..<bits])
      = map (bit buffer) (rev [0..<bits])"
    by (rule map_cong) (use hi in auto)
  moreover have "bits_msb k ((push_bit k buffer) OR ucast v) = bits_msb k v"
    unfolding bits_msb_def by (rule map_cong) (use lo in auto)
  ultimately show ?thesis by (simp only: bits_msb_add bits_msb_def [of bits buffer])
qed

lemma bits_msb_extract:
  fixes buffer :: u16
  assumes "k + bits \<le> 16" "v = (drop_bit bits buffer) AND (mask k)"
  shows "bits_msb (k + bits) buffer = bits_msb k v @ bits_msb bits buffer"
proof -
  have "map (\<lambda>i. bit buffer (bits + i)) (rev [0..<k]) = bits_msb k v"
    unfolding bits_msb_def by (rule map_cong) (use assms in \<open>auto simp: bit_simps\<close>)
  then show ?thesis by (simp add: bits_msb_add)
qed

lemma mask5: "(31 :: u16) = mask 5" and mask8: "(255 :: u16) = mask 8"
  by (simp_all add: mask_eq_exp_minus_1)

lemma and31_less: "(x AND 31) < (32 :: u16)"
proof -
  have "unat (take_bit 5 x) = take_bit 5 (unat x)" by (simp only: unsigned_take_bit_eq)
  then have "unat (take_bit 5 x) < 32" by (simp only: take_bit_eq_mod) simp
  then have "take_bit 5 x < 32" by (simp add: word_less_nat_alt)
  then show ?thesis by (simp add: mask5 take_bit_eq_mask)
qed

lemma emit_bits:
  assumes "bits \<le> 16" "emit buffer bits = (out, left)"
  shows "bits_msb bits buffer = bits5 out @ bits_msb left buffer \<and> left < 5 \<and> left \<le> bits
    \<and> (\<forall>v \<in> set out. v < 32)"
  using assms
proof (induction buffer bits arbitrary: out rule: emit.induct)
  case (1 buffer bits)
  show ?case
  proof (cases "5 \<le> bits")
    case False
    with "1.prems" show ?thesis by (auto simp: emit.simps [of buffer bits])
  next
    case True
    obtain rest where e: "emit buffer (bits - 5) = (rest, left)"
      and out: "out = ((drop_bit (bits - 5) buffer) AND 31) # rest"
      using "1.prems" True by (auto simp: emit.simps [of buffer bits] Let_def split: prod.splits)
    have IH: "bits_msb (bits - 5) buffer = bits5 rest @ bits_msb left buffer \<and> left < 5
        \<and> left \<le> bits - 5 \<and> (\<forall>v \<in> set rest. v < 32)"
      using "1.IH" [OF True refl _ ] e "1.prems" True by auto
    have "bits_msb (5 + (bits - 5)) buffer
        = bits_msb 5 ((drop_bit (bits - 5) buffer) AND 31) @ bits_msb (bits - 5) buffer"
      by (rule bits_msb_extract) (use True "1.prems" in \<open>simp_all add: mask5\<close>)
    then show ?thesis using IH True by (simp add: out and31_less)
  qed
qed

lemma encode_loop_bits:
  assumes "bits < 5"
  shows "\<exists>p < 5. bits5 (encode_loop buffer bits bs) = bits_msb bits buffer @ bits8 bs @ replicate p False
    \<and> (\<forall>v \<in> set (encode_loop buffer bits bs). v < 32)"
  using assms
proof (induction buffer bits bs rule: encode_loop.induct)
  case (1 buffer bits)
  show ?case
  proof (cases "0 < bits")
    case False
    then show ?thesis by (intro exI [of _ 0]) (simp add: bits_msb_def)
  next
    case True
    define v where "v = (push_bit (5 - bits) buffer) AND 31"
    have "bits_msb 5 v = bits_msb bits buffer @ replicate (5 - bits) False"
    proof -
      have "bits_msb (bits + (5 - bits)) v
          = map (\<lambda>i. bit v ((5 - bits) + i)) (rev [0..<bits]) @ bits_msb (5 - bits) v"
        by (rule bits_msb_add)
      moreover have "map (\<lambda>i. bit v ((5 - bits) + i)) (rev [0..<bits]) = bits_msb bits buffer"
        unfolding bits_msb_def
        by (rule map_cong) (use 1 True in \<open>auto simp: v_def mask5 bit_simps\<close>)
      moreover have "bits_msb (5 - bits) v = replicate (5 - bits) False"
      proof -
        have "map (bit v) (rev [0..<5 - bits]) = map (\<lambda>_. False) (rev [0..<5 - bits])"
          by (rule map_cong) (auto simp: v_def bit_simps)
        then show ?thesis by (simp add: bits_msb_def map_replicate_const)
      qed
      ultimately show ?thesis using 1 by simp
    qed
    moreover have "v < 32"
      by (simp add: v_def and31_less)
    ultimately show ?thesis using True 1 by (intro exI [of _ "5 - bits"]) (simp add: v_def)
  qed
next
  case (2 buffer bits byte rest)
  define b where "b = (push_bit 8 buffer) OR ucast byte"
  obtain out left where e: "emit b (bits + 8) = (out, left)" by fastforce
  have b: "bits_msb (bits + 8) b = bits_msb bits buffer @ bits_msb 8 byte"
    unfolding b_def by (rule bits_msb_shift_in) (use "2.prems" in \<open>auto dest: bit_imp_le_length\<close>)
  have em: "bits_msb (bits + 8) b = bits5 out @ bits_msb left b \<and> left < 5 \<and> left \<le> bits + 8
      \<and> (\<forall>v \<in> set out. v < 32)"
    by (rule emit_bits [OF _ e]) (use "2.prems" in simp)
  from em "2.IH" [OF b_def e [symmetric] refl]
  obtain p where p: "p < 5"
    "bits5 (encode_loop b left rest) = bits_msb left b @ bits8 rest @ replicate p False"
    "\<forall>v \<in> set (encode_loop b left rest). v < 32" by auto
  have "bits5 (encode_loop buffer bits (byte # rest))
      = bits_msb bits buffer @ bits8 (byte # rest) @ replicate p False"
    using p em b by (simp add: e b_def [symmetric] Let_def)
  moreover have "\<forall>v \<in> set (encode_loop buffer bits (byte # rest)). v < 32"
    using p em by (auto simp: e b_def [symmetric] Let_def)
  ultimately show ?case using p(1) by blast
qed

lemma map_decode_char: "map decode_char ALPHABET = map (\<lambda>i. Ok (word_of_nat i)) [0..<32]"
  by (simp add: ALPHABET_def decode_char_def to_ascii_lower_def is_ascii_upper_def upt_conv_Cons)

lemma length_ALPHABET [simp]: "length ALPHABET = 32"
  by (simp add: ALPHABET_def)

lemma alphabet_index:
  assumes "v < (32 :: u16)"
  shows "decode_char (ALPHABET ! unat v) = Ok (ucast v)"
proof -
  have v: "unat v < 32" using assms by (simp add: word_less_nat_alt)
  have "decode_char (ALPHABET ! unat v) = map decode_char ALPHABET ! unat v"
    using v by simp
  also have "\<dots> = Ok (word_of_nat (unat v))"
    using v by (simp add: map_decode_char)
  finally show ?thesis by simp
qed

lemma decode_loop_bits:
  assumes "bits < 8" "\<forall>v \<in> set vs. v < (32 :: u16)"
  shows "\<exists>out rest. decode_loop buffer bits (map (\<lambda>v. ALPHABET ! unat v) vs) = Ok out
    \<and> bits_msb bits buffer @ bits5 vs = bits8 out @ rest \<and> length rest < 8"
  using assms
proof (induction vs arbitrary: buffer bits)
  case Nil
  then show ?case by simp
next
  case (Cons v vs)
  define b where "b = (push_bit 5 buffer) OR ucast (ucast v :: u8)"
  have v32: "v < 32" using Cons.prems by simp
  then have hi: "\<not> bit v i" if "5 \<le> i" for i
  proof -
    have "take_bit 5 (unat v) = unat v"
      using v32 by (simp add: word_less_nat_alt take_bit_nat_eq_self)
    then have "take_bit 5 v = v" by (simp add: word_unat_eq_iff unsigned_take_bit_eq)
    then show ?thesis using that by (metis bit_take_bit_iff not_le)
  qed
  have bv: "bits_msb 5 (ucast v :: u8) = bits_msb 5 v"
    unfolding bits_msb_def by (rule map_cong) (auto simp: bit_simps)
  have b: "bits_msb (bits + 5) b = bits_msb bits buffer @ bits_msb 5 v"
    unfolding b_def bv [symmetric]
    by (rule bits_msb_shift_in) (use Cons.prems hi in \<open>auto simp: bit_simps\<close>)
  show ?case
  proof (cases "8 \<le> bits + 5")
    case False
    then obtain out rest where "decode_loop b (bits + 5) (map (\<lambda>v. ALPHABET ! unat v) vs) = Ok out"
      "bits_msb (bits + 5) b @ bits5 vs = bits8 out @ rest" "length rest < 8"
      using Cons.IH [of "bits + 5" b] Cons.prems by auto
    then show ?thesis using False b
      by (auto simp: alphabet_index [OF v32] b_def [symmetric] Let_def)
  next
    case True
    define w where "w = (drop_bit (bits + 5 - 8) b) AND 255"
    have lt: "bits + 5 - 8 < 8" using Cons.prems by simp
    obtain out rest where IH: "decode_loop b (bits + 5 - 8) (map (\<lambda>v. ALPHABET ! unat v) vs) = Ok out"
      "bits_msb (bits + 5 - 8) b @ bits5 vs = bits8 out @ rest" "length rest < 8"
      using Cons.IH [OF lt, of b] Cons.prems by auto
    have "bits_msb (8 + (bits + 5 - 8)) b = bits_msb 8 w @ bits_msb (bits + 5 - 8) b"
      by (rule bits_msb_extract) (use True Cons.prems in \<open>simp_all add: w_def mask8\<close>)
    moreover have "bits_msb 8 (ucast w :: u8) = bits_msb 8 w"
      unfolding bits_msb_def by (rule map_cong) (auto simp: bit_simps)
    ultimately have "bits_msb bits buffer @ bits_msb 5 v = bits_msb 8 (ucast w :: u8) @ bits_msb (bits + 5 - 8) b"
      using b True by (simp add: add.commute)
    then have "bits_msb bits buffer @ bits5 (v # vs) = bits8 (ucast w # out) @ rest"
      using IH(2) by (metis append.assoc concat.simps(2) list.simps(9))
    moreover have "decode_loop buffer bits (map (\<lambda>v. ALPHABET ! unat v) (v # vs)) = Ok (ucast w # out)"
      using True IH(1) unfolding w_def b_def by (simp add: alphabet_index [OF v32] Let_def)
    ultimately show ?thesis using IH(3) by blast
  qed
qed

lemma length_concat_bits [simp]: "length (concat (map (bits_msb k) ws)) = k * length ws"
  by (induction ws) simp_all

lemma bits8_inject: "length bs = length cs \<Longrightarrow> bits8 bs = bits8 cs \<Longrightarrow> bs = cs"
proof (induction bs cs rule: list_induct2)
  case (Cons b bs c cs)
  then have "bits_msb 8 b = bits_msb 8 c" by simp
  then have "b = c" using bits_msb_inj [of b c] by simp
  with Cons show ?case by simp
qed simp

lemma decode_encode: "decode (encode bs) = Ok bs"
proof -
  define vs where "vs = encode_loop 0 0 bs"
  obtain p where p: "p < 5" "bits5 vs = bits8 bs @ replicate p False" "\<forall>v \<in> set vs. v < 32"
    using encode_loop_bits [of 0 0 bs] by (auto simp: vs_def bits_msb_def)
  obtain out rest where d: "decode_loop 0 0 (map (\<lambda>v. ALPHABET ! unat v) vs) = Ok out"
    "bits5 vs = bits8 out @ rest" "length rest < 8"
    using decode_loop_bits [of 0 vs 0] p(3) by (auto simp: bits_msb_def)
  from p(2) d(2) have eq: "bits8 out @ rest = bits8 bs @ replicate p False" by simp
  then have "length (bits8 out @ rest) = length (bits8 bs @ replicate p False)" by (rule arg_cong)
  then have "8 * length out + length rest = 8 * length bs + p" by simp
  with p(1) d(3) have len: "length out = length bs" by arith
  with eq have "bits8 out = bits8 bs" by simp
  with len have "out = bs" by (rule bits8_inject)
  with d(1) show ?thesis by (simp add: decode_def encode_def vs_def)
qed

lemma length_encode: "length (encode bs) = (8 * length bs + 4) div 5"
proof -
  obtain p where "p < 5" "bits5 (encode_loop 0 0 bs) = bits8 bs @ replicate p False"
    using encode_loop_bits [of 0 0 bs] by (auto simp: bits_msb_def)
  then have "5 * length (encode_loop 0 0 bs) = 8 * length bs + p" "p < 5"
    by (metis length_append length_concat_bits length_replicate)+
  then show ?thesis by (simp add: encode_def)
qed

lemma encode_alphabet: "set (encode bs) \<subseteq> set ALPHABET"
proof -
  have "\<forall>v \<in> set (encode_loop 0 0 bs). v < 32"
    using encode_loop_bits [of 0 0 bs] by auto
  then show ?thesis
    by (auto simp: encode_def word_less_nat_alt intro!: nth_mem)
qed

text \<open>Every byte string survives \<^verbatim>\<open>encode\<close> followed by \<^verbatim>\<open>decode\<close>; the text is exactly the rounded-up
  number of five-bit groups long and uses only letters of the alphabet.\<close>

theorem base32_round_trip:
  "decode (encode bs) = Ok bs \<and> length (encode bs) = (8 * length bs + 4) div 5
    \<and> set (encode bs) \<subseteq> set ALPHABET"
  by (simp add: decode_encode length_encode encode_alphabet)

end
