(* ===== verification/Keys.thy ===== *)
theory Keys
  imports Core_Error
begin

text \<open>
  \<^verbatim>\<open>pigeonpost-core/src/keys.rs\<close>: identities, agreement keys and successor commitments.

  The primitives come from third-party crates (\<^verbatim>\<open>sha2\<close>, \<^verbatim>\<open>hmac\<close>, \<^verbatim>\<open>hkdf\<close>, \<^verbatim>\<open>ed25519-dalek\<close>,
  \<^verbatim>\<open>curve25519-dalek\<close>, \<^verbatim>\<open>chacha20poly1305\<close>), so they are the fields of a record that every
  definition using them takes as an argument. What the code relies on is stated as named
  predicates on that record, one per documented contract; none of them says anything about
  messages the program builds.
\<close>

record crypto =
  sha256 :: "bytes \<Rightarrow> bytes"
  sha512 :: "bytes \<Rightarrow> bytes"
  hmac_sha256 :: "bytes \<Rightarrow> bytes \<Rightarrow> bytes"
  hkdf_sha256 :: "bytes option \<Rightarrow> bytes \<Rightarrow> bytes \<Rightarrow> bytes"
  aead_encrypt :: "bytes \<Rightarrow> bytes \<Rightarrow> bytes \<Rightarrow> bytes \<Rightarrow> bytes option"
  aead_decrypt :: "bytes \<Rightarrow> bytes \<Rightarrow> bytes \<Rightarrow> bytes \<Rightarrow> bytes option"
  ed_public :: "bytes \<Rightarrow> bytes"
  ed_sign :: "bytes \<Rightarrow> bytes \<Rightarrow> bytes"
  ed_decodes :: "bytes \<Rightarrow> bool"
  ed_is_weak :: "bytes \<Rightarrow> bool"
  ed_verify_strict :: "bytes \<Rightarrow> bytes \<Rightarrow> bytes \<Rightarrow> bool"
  ed_to_montgomery :: "bytes \<Rightarrow> bytes"
  x25519_mul :: "bytes \<Rightarrow> bytes \<Rightarrow> bytes"

abbreviation zeros :: "nat \<Rightarrow> bytes" where
  "zeros n \<equiv> replicate n 0"

section \<open>Operations\<close>

definition commitment_for_key :: "crypto \<Rightarrow> bytes \<Rightarrow> bytes" where
  "commitment_for_key C pubkey = sha256 C pubkey"

definition commitment_accepts :: "crypto \<Rightarrow> bytes \<Rightarrow> bytes \<Rightarrow> bool" where
  "commitment_accepts C commitment candidate \<longleftrightarrow> sha256 C candidate = commitment"

record identity =
  seed :: bytes

definition from_seed :: "bytes \<Rightarrow> identity" where
  "from_seed s = \<lparr>seed = s\<rparr>"

definition to_seed :: "identity \<Rightarrow> bytes" where
  "to_seed i = seed i"

definition verifying_key :: "crypto \<Rightarrow> identity \<Rightarrow> bytes" where
  "verifying_key C i = ed_public C (seed i)"

definition sign :: "crypto \<Rightarrow> identity \<Rightarrow> bytes \<Rightarrow> bytes" where
  "sign C i message = ed_sign C (seed i) message"

definition agreement_scalar :: "crypto \<Rightarrow> identity \<Rightarrow> bytes" where
  "agreement_scalar C i =
     (let clamped = take 32 (sha512 C (seed i));
          clamped = clamped[0 := (clamped ! 0) AND 248];
          clamped = clamped[31 := (clamped ! 31) AND 127]
      in clamped[31 := (clamped ! 31) OR 64])"

definition agree :: "crypto \<Rightarrow> identity \<Rightarrow> bytes \<Rightarrow> error + bytes" where
  "agree C i peer =
     (let shared = x25519_mul C (agreement_scalar C i) (ed_to_montgomery C peer)
      in if shared = zeros 32 then Err InvalidKey else Ok shared)"

definition x25519_public :: "crypto \<Rightarrow> identity \<Rightarrow> bytes" where
  "x25519_public C i = ed_to_montgomery C (verifying_key C i)"

definition x25519_agree :: "crypto \<Rightarrow> identity \<Rightarrow> bytes \<Rightarrow> error + bytes" where
  "x25519_agree C i peer =
     (let shared = x25519_mul C (agreement_scalar C i) peer
      in if shared = zeros 32 then Err InvalidKey else Ok shared)"

definition verifying_key_from_bytes :: "crypto \<Rightarrow> bytes \<Rightarrow> error + bytes" where
  "verifying_key_from_bytes C b =
     (if \<not> ed_decodes C b then Err InvalidKey
      else if ed_is_weak C b then Err InvalidKey
      else Ok b)"

definition verify :: "crypto \<Rightarrow> bytes \<Rightarrow> bytes \<Rightarrow> bytes \<Rightarrow> error + unit" where
  "verify C pubkey message signature =
     (if ed_verify_strict C pubkey message signature then Ok () else Err BadSignature)"

section \<open>Contracts of the primitives\<close>

definition hash_contract :: "crypto \<Rightarrow> bool" where
  "hash_contract C \<longleftrightarrow> (\<forall>m. length (sha256 C m) = 32)"

definition signature_contract :: "crypto \<Rightarrow> bool" where
  "signature_contract C \<longleftrightarrow>
     (\<forall>s. length s = 32 \<longrightarrow>
        length (ed_public C s) = 32 \<and> ed_decodes C (ed_public C s) \<and> \<not> ed_is_weak C (ed_public C s)
        \<and> (\<forall>m. length (ed_sign C s m) = 64 \<and> ed_verify_strict C (ed_public C s) m (ed_sign C s m)))"

definition agreement_contract :: "crypto \<Rightarrow> bool" where
  "agreement_contract C \<longleftrightarrow>
     (\<forall>a b. length (seed a) = 32 \<longrightarrow> length (seed b) = 32 \<longrightarrow>
        x25519_mul C (agreement_scalar C a) (ed_to_montgomery C (verifying_key C b))
          = x25519_mul C (agreement_scalar C b) (ed_to_montgomery C (verifying_key C a))
        \<and> x25519_mul C (agreement_scalar C a) (ed_to_montgomery C (verifying_key C b)) \<noteq> zeros 32)"

definition aead_contract :: "crypto \<Rightarrow> bool" where
  "aead_contract C \<longleftrightarrow>
     (\<forall>k n aad m. \<exists>c. aead_encrypt C k n aad m = Some c \<and> aead_decrypt C k n aad c = Some m
        \<and> length c = length m + 16)"

lemma sha256_length: "hash_contract C \<Longrightarrow> length (sha256 C m) = 32"
  by (simp add: hash_contract_def)

lemma signature_contractD:
  assumes "signature_contract C" "length (seed i) = 32"
  shows "length (verifying_key C i) = 32"
    and "verifying_key_from_bytes C (verifying_key C i) = Ok (verifying_key C i)"
    and "length (sign C i m) = 64"
    and "verify C (verifying_key C i) m (sign C i m) = Ok ()"
  using assms
  by (simp_all add: signature_contract_def verifying_key_def verifying_key_from_bytes_def
      sign_def verify_def)

lemma verifying_key_from_bytes_Ok:
  "verifying_key_from_bytes C b = Ok k \<longleftrightarrow> k = b \<and> ed_decodes C b \<and> \<not> ed_is_weak C b"
  by (auto simp: verifying_key_from_bytes_def)

lemma verify_Ok: "verify C k m s = Ok u \<longleftrightarrow> ed_verify_strict C k m s"
  by (simp add: verify_def)

lemma agree_symmetric:
  assumes "agreement_contract C" "length (seed a) = 32" "length (seed b) = 32"
  shows "\<exists>k. agree C a (verifying_key C b) = Ok k \<and> agree C b (verifying_key C a) = Ok k"
  using assms by (auto simp: agreement_contract_def agree_def Let_def)

section \<open>A concrete instance\<close>

text \<open>
  An executable instance of the primitives that meets every contract, used to evaluate the theorems
  on concrete inputs. It offers no security; it only shows that the contracts can hold together.
\<close>

definition toy_hash :: "bytes \<Rightarrow> bytes" where
  "toy_hash m = zeros 31 @ [foldl (\<lambda>h b. 3 * h + b + 1) 7 m]"

definition toy_clamp :: "bytes \<Rightarrow> bytes" where
  "toy_clamp k =
     (let c = take 32 (k @ zeros 32);
          c = c[0 := (c ! 0) AND 248];
          c = c[31 := (c ! 31) AND 127]
      in c[31 := (c ! 31) OR 64])"

definition toy :: crypto where
  "toy = \<lparr>
     sha256 = toy_hash,
     sha512 = (\<lambda>m. m @ zeros 64),
     hmac_sha256 = (\<lambda>k m. toy_hash (k @ m)),
     hkdf_sha256 = (\<lambda>salt ikm info. toy_hash (case_option [] id salt @ ikm @ info)),
     aead_encrypt = (\<lambda>k n aad m. Some (m @ drop 16 (toy_hash (k @ n @ aad @ m)))),
     aead_decrypt = (\<lambda>k n aad c.
       let m = take (length c - 16) c
       in if 16 \<le> length c \<and> drop (length c - 16) c = drop 16 (toy_hash (k @ n @ aad @ m))
          then Some m else None),
     ed_public = (\<lambda>s. s),
     ed_sign = (\<lambda>s m. s @ toy_hash m),
     ed_decodes = (\<lambda>k. length k = 32),
     ed_is_weak = (\<lambda>k. False),
     ed_verify_strict = (\<lambda>k m s. s = k @ toy_hash m),
     ed_to_montgomery = toy_clamp,
     x25519_mul = (\<lambda>a b. map2 (OR) a b)\<rparr>"

lemma length_toy_hash [simp]: "length (toy_hash m) = 32"
  by (simp add: toy_hash_def)

lemma toy_contracts [simp]:
  "hash_contract toy" "signature_contract toy" "aead_contract toy"
  by (simp_all add: hash_contract_def signature_contract_def aead_contract_def toy_def)

lemma toy_verifying_key [simp]: "verifying_key toy (from_seed s) = s" "seed (from_seed s) = s"
  by (simp_all add: verifying_key_def from_seed_def toy_def)

lemma toy_agreement_contract [simp]: "agreement_contract toy"
proof -
  have "agreement_scalar toy i = toy_clamp (seed i)" if "length (seed i) = 32" for i
    using that by (simp add: agreement_scalar_def toy_clamp_def toy_def Let_def)
  moreover have "map2 (OR) (toy_clamp a) (toy_clamp b) = map2 (OR) (toy_clamp b) (toy_clamp a)" for a b :: bytes
    by (rule nth_equalityI) (simp_all add: or.commute)
  moreover have "map2 (OR) (toy_clamp a) (toy_clamp b) \<noteq> zeros 32" for a b :: bytes
  proof
    assume "map2 (OR) (toy_clamp a) (toy_clamp b) = zeros 32"
    then have "map2 (OR) (toy_clamp a) (toy_clamp b) ! 31 = 0" by simp
    then have "toy_clamp a ! 31 OR toy_clamp b ! 31 = 0" by (simp add: toy_clamp_def Let_def)
    then have "bit (toy_clamp a ! 31 OR toy_clamp b ! 31) 6 = bit (0::u8) 6" by (rule arg_cong)
    moreover have "bit (64::u8) 6" by simp
    ultimately show False by (simp add: toy_clamp_def Let_def bit_or_iff)
  qed
  ultimately show ?thesis
    by (simp add: agreement_contract_def verifying_key_def) (simp add: toy_def)
qed

end
