(* ===== verification/Hex.thy ===== *)
theory Hex
  imports Core_Error
begin

text \<open>
  Hexadecimal text. Two decoders live in the code and they differ: \<^verbatim>\<open>envelope.rs\<close> has its own
  \<^verbatim>\<open>nibble\<close>, which takes lowercase digits only, while \<^verbatim>\<open>Token::from_hex\<close> hands each pair to
  \<^verbatim>\<open>u8::from_str_radix\<close>, which also takes uppercase digits and a leading plus sign.
\<close>

definition HEX :: string where
  "HEX = ''0123456789abcdef''"

definition hex_byte :: "u8 \<Rightarrow> string" where
  "hex_byte b = [HEX ! unat (drop_bit 4 b), HEX ! unat (b AND 15)]"

definition to_hex :: "bytes \<Rightarrow> string" where
  "to_hex bs = concat (map hex_byte bs)"

text \<open>\<^verbatim>\<open>char::to_digit(16)\<close> and \<^verbatim>\<open>u8::from_str_radix(s, 16)\<close> on a two-character string.\<close>

definition to_digit16 :: "char \<Rightarrow> nat option" where
  "to_digit16 c =
     (let n = code c in
      if 48 \<le> n \<and> n \<le> 57 then Some (n - 48)
      else if 97 \<le> n \<and> n \<le> 102 then Some (n - 87)
      else if 65 \<le> n \<and> n \<le> 70 then Some (n - 55)
      else None)"

definition from_str_radix16_pair :: "char \<Rightarrow> char \<Rightarrow> u8 option" where
  "from_str_radix16_pair c d =
     (if c = CHR ''+'' then map_option word_of_nat (to_digit16 d)
      else case (to_digit16 c, to_digit16 d) of
          (Some h, Some l) \<Rightarrow> Some (word_of_nat (16 * h + l))
        | _ \<Rightarrow> None)"

fun from_hex_pairs :: "string \<Rightarrow> bytes option" where
  "from_hex_pairs [] = Some []"
| "from_hex_pairs [c] = None"
| "from_hex_pairs (c # d # rest) =
     (case from_str_radix16_pair c d of
        None \<Rightarrow> None
      | Some b \<Rightarrow> map_option (Cons b) (from_hex_pairs rest))"

text \<open>\<^verbatim>\<open>compact_bytes::nibble\<close> of \<^verbatim>\<open>envelope.rs\<close>, and the loop over pairs that uses it.\<close>

definition nibble :: "char \<Rightarrow> u8 option" where
  "nibble c =
     (let n = code c in
      if 48 \<le> n \<and> n \<le> 57 then Some (word_of_nat (n - 48))
      else if 97 \<le> n \<and> n \<le> 102 then Some (word_of_nat (n - 97 + 10))
      else None)"

fun decode_nibbles :: "string \<Rightarrow> bytes option" where
  "decode_nibbles [] = Some []"
| "decode_nibbles [c] = None"
| "decode_nibbles (c # d # rest) =
     (case (nibble c, nibble d) of
        (Some high, Some low) \<Rightarrow>
          map_option (Cons ((push_bit 4 high) OR low)) (decode_nibbles rest)
      | _ \<Rightarrow> None)"

section \<open>Round trips\<close>

lemma map_nibble_HEX: "map nibble HEX = map (\<lambda>i. Some (word_of_nat i)) [0..<16]"
  by (simp add: HEX_def nibble_def Let_def upt_conv_Cons)

lemma map_to_digit_HEX: "map to_digit16 HEX = map Some [0..<16]"
  by (simp add: HEX_def to_digit16_def Let_def upt_conv_Cons)

lemma length_HEX [simp]: "length HEX = 16"
  by (simp add: HEX_def)

lemma nibble_HEX: "i < 16 \<Longrightarrow> nibble (HEX ! i) = Some (word_of_nat i)"
  using arg_cong [OF map_nibble_HEX, of "\<lambda>xs. xs ! i"] by simp

lemma to_digit_HEX: "i < 16 \<Longrightarrow> to_digit16 (HEX ! i) = Some i"
  using arg_cong [OF map_to_digit_HEX, of "\<lambda>xs. xs ! i"] by simp

lemma HEX_not_plus: "i < 16 \<Longrightarrow> HEX ! i \<noteq> CHR ''+''"
proof -
  assume "i < 16"
  then have "HEX ! i \<in> set HEX" by simp
  then show ?thesis by (auto simp: HEX_def)
qed

lemma unat_low4: "unat (b AND 15) = unat (b :: u8) mod 16"
proof -
  have "b AND 15 = take_bit 4 b" by (simp add: take_bit_eq_mask mask_eq_exp_minus_1)
  then have "unat (b AND 15) = take_bit 4 (unat b)" by (simp add: unsigned_take_bit_eq)
  then show ?thesis by (simp add: take_bit_eq_mod)
qed

lemma unat_high4: "unat (drop_bit 4 b) = unat (b :: u8) div 16"
proof -
  have "unat (drop_bit 4 b) = drop_bit 4 (unat b)"
    using unat_lt2p [of b] by (simp add: unsigned_drop_bit_eq take_bit_nat_eq_self)
  then show ?thesis by (simp add: drop_bit_eq_div)
qed

lemma nibble_bounds: "unat (b AND 15) < 16" "unat (drop_bit 4 b) < 16" for b :: u8
  using unat_lt2p [of b] by (simp_all add: unat_low4 unat_high4)

lemma length_to_hex [simp]: "length (to_hex bs) = 2 * length bs"
  by (induction bs) (simp_all add: to_hex_def hex_byte_def)

lemma from_hex_pairs_to_hex: "from_hex_pairs (to_hex bs) = Some bs"
proof (induction bs)
  case (Cons b bs)
  have "16 * (unat b div 16) + unat b mod 16 = unat b" by simp
  then show ?case using Cons nibble_bounds [of b]
    by (simp add: to_hex_def hex_byte_def from_str_radix16_pair_def to_digit_HEX HEX_not_plus
        unat_low4 unat_high4)
qed (simp add: to_hex_def)

lemma nibble_join: "(push_bit 4 (drop_bit 4 b)) OR (b AND 15) = (b :: u8)"
proof -
  have "b AND 15 = take_bit 4 b" by (simp add: take_bit_eq_mask mask_eq_exp_minus_1)
  then show ?thesis by (intro bit_word_eqI) (auto simp: bit_simps)
qed

lemma decode_nibbles_to_hex: "decode_nibbles (to_hex bs) = Some bs"
proof (induction bs)
  case (Cons b bs)
  then show ?case using nibble_bounds [of b] nibble_join [of b]
    by (simp add: to_hex_def hex_byte_def nibble_HEX)
qed (simp add: to_hex_def)

end
