(* ===== verification/Network.thy ===== *)
theory Network
  imports Core_Error
begin

text \<open>
  \<^verbatim>\<open>pigeonpost-core/src/network.rs\<close>: which addresses an untrusted name resolution may lead to, and
  which URL hosts are a literal loopback. The standard library's address parser
  (\<^verbatim>\<open>str::parse::<IpAddr>\<close>) is written out, because the code depends on exactly what it accepts.
\<close>

datatype ip_addr = V4 u8 u8 u8 u8 | V6 "u16 list"

section \<open>The standard library's address parser\<close>

definition to_digit :: "nat \<Rightarrow> char \<Rightarrow> nat option" where
  "to_digit radix c =
     (let n = code c;
          d = (if 48 \<le> n \<and> n \<le> 57 then n - 48
               else if 97 \<le> n \<and> n \<le> 122 then n - 87
               else if 65 \<le> n \<and> n \<le> 90 then n - 55
               else 36)
      in if d < radix then Some d else None)"

fun read_digits :: "nat \<Rightarrow> string \<Rightarrow> nat list \<times> string" where
  "read_digits radix [] = ([], [])"
| "read_digits radix (c # cs) =
     (case to_digit radix c of
        None \<Rightarrow> ([], c # cs)
      | Some d \<Rightarrow> (let (ds, rest) = read_digits radix cs in (d # ds, rest)))"

definition read_number :: "nat \<Rightarrow> nat \<Rightarrow> bool \<Rightarrow> nat \<Rightarrow> string \<Rightarrow> (nat \<times> string) option" where
  "read_number radix max_digits allow_zero_prefix bound s =
     (let (ds, rest) = read_digits radix s;
          result = foldl (\<lambda>acc d. acc * radix + d) 0 ds
      in if max_digits < length ds then None
         else if ds = [] then None
         else if \<not> allow_zero_prefix \<and> hd ds = 0 \<and> 1 < length ds then None
         else if bound \<le> result then None
         else Some (result, rest))"

definition read_given_char :: "char \<Rightarrow> string \<Rightarrow> string option" where
  "read_given_char c s = (case s of [] \<Rightarrow> None | d # rest \<Rightarrow> if c = d then Some rest else None)"

definition read_separator ::
  "char \<Rightarrow> nat \<Rightarrow> (string \<Rightarrow> ('a \<times> string) option) \<Rightarrow> string \<Rightarrow> ('a \<times> string) option" where
  "read_separator sep index inner s =
     (if 0 < index
      then (case read_given_char sep s of None \<Rightarrow> None | Some rest \<Rightarrow> inner rest)
      else inner s)"

fun read_octets :: "nat \<Rightarrow> nat \<Rightarrow> string \<Rightarrow> (nat list \<times> string) option" where
  "read_octets 0 i s = Some ([], s)"
| "read_octets (Suc n) i s =
     (case read_separator (CHR ''.'') i (read_number 10 3 False 256) s of
        None \<Rightarrow> None
      | Some (x, rest) \<Rightarrow>
          (case read_octets n (Suc i) rest of
             None \<Rightarrow> None
           | Some (xs, rest') \<Rightarrow> Some (x # xs, rest')))"

definition read_ipv4_addr :: "string \<Rightarrow> (nat list \<times> string) option" where
  "read_ipv4_addr s = read_octets 4 0 s"

fun read_groups :: "nat \<Rightarrow> nat \<Rightarrow> string \<Rightarrow> nat list \<times> bool \<times> string" where
  "read_groups 0 i s = ([], False, s)"
| "read_groups (Suc remaining) i s =
     (case (if 0 < remaining then read_separator (CHR '':'') i read_ipv4_addr s else None) of
        Some (octets, rest) \<Rightarrow>
          ([256 * (octets ! 0) + octets ! 1, 256 * (octets ! 2) + octets ! 3], True, rest)
      | None \<Rightarrow>
          (case read_separator (CHR '':'') i (read_number 16 4 True 65536) s of
             None \<Rightarrow> ([], False, s)
           | Some (g, rest) \<Rightarrow>
               (let (gs, v4, rest') = read_groups remaining (Suc i) rest in (g # gs, v4, rest'))))"

definition read_ipv6_addr :: "string \<Rightarrow> (nat list \<times> string) option" where
  "read_ipv6_addr s =
     (let (head, head_ipv4, rest) = read_groups 8 0 s in
      if length head = 8 then Some (head, rest)
      else if head_ipv4 then None
      else case read_given_char (CHR '':'') rest of
          None \<Rightarrow> None
        | Some rest1 \<Rightarrow>
            (case read_given_char (CHR '':'') rest1 of
               None \<Rightarrow> None
             | Some rest2 \<Rightarrow>
                 (let (tail, _, rest3) = read_groups (8 - (length head + 1)) 0 rest2
                  in Some (head @ replicate (8 - length head - length tail) 0 @ tail, rest3))))"

definition parse_ip :: "string \<Rightarrow> ip_addr option" where
  "parse_ip s =
     (case read_ipv4_addr s of
        Some (octets, rest) \<Rightarrow>
          (if rest = []
           then Some (V4 (word_of_nat (octets ! 0)) (word_of_nat (octets ! 1))
                         (word_of_nat (octets ! 2)) (word_of_nat (octets ! 3)))
           else None)
      | None \<Rightarrow>
          (case read_ipv6_addr s of
             Some (groups, rest) \<Rightarrow> (if rest = [] then Some (V6 (map word_of_nat groups)) else None)
           | None \<Rightarrow> None))"

definition is_loopback :: "ip_addr \<Rightarrow> bool" where
  "is_loopback a = (case a of V4 x _ _ _ \<Rightarrow> x = 127 | V6 s \<Rightarrow> s = [0, 0, 0, 0, 0, 0, 0, 1])"

section \<open>The classifier\<close>

definition is_public_ipv4 :: "u8 \<Rightarrow> u8 \<Rightarrow> u8 \<Rightarrow> u8 \<Rightarrow> bool" where
  "is_public_ipv4 a b c d \<longleftrightarrow>
     \<not> (a = 0
        \<or> a = 10
        \<or> a = 127
        \<or> (a = 100 \<and> 64 \<le> b \<and> b \<le> 127)
        \<or> (a = 169 \<and> b = 254)
        \<or> (a = 172 \<and> 16 \<le> b \<and> b \<le> 31)
        \<or> (a = 192 \<and> b = 0 \<and> c = 0)
        \<or> (a = 192 \<and> b = 0 \<and> c = 2)
        \<or> (a = 192 \<and> b = 88 \<and> c = 99)
        \<or> (a = 192 \<and> b = 168)
        \<or> (a = 198 \<and> (b = 18 \<or> b = 19))
        \<or> (a = 198 \<and> b = 51 \<and> c = 100)
        \<or> (a = 203 \<and> b = 0 \<and> c = 113)
        \<or> 224 \<le> a)"

definition is_public_ipv6 :: "u16 list \<Rightarrow> bool" where
  "is_public_ipv6 segments \<longleftrightarrow>
     \<not> (segments = replicate 8 0
        \<or> segments = [0, 0, 0, 0, 0, 0, 0, 1]
        \<or> (segments ! 0) AND 0xff00 = 0xff00
        \<or> (segments ! 0) AND 0xe000 \<noteq> 0x2000
        \<or> (segments ! 0 = 0x2001 \<and> segments ! 1 = 0x0000)
        \<or> (segments ! 0 = 0x2001 \<and> segments ! 1 = 0x0002)
        \<or> (segments ! 0 = 0x2001 \<and> segments ! 1 = 0x0db8)
        \<or> (segments ! 0 = 0x2001 \<and> (segments ! 1) AND 0xfff0 = 0x0010)
        \<or> (segments ! 0 = 0x2001 \<and> (segments ! 1) AND 0xfff0 = 0x0020)
        \<or> (segments ! 0 = 0x3fff \<and> (segments ! 1) AND 0xf000 = 0)
        \<or> (segments ! 0 = 0x2002
            \<and> \<not> is_public_ipv4 (ucast (drop_bit 8 (segments ! 1))) (ucast (segments ! 1))
                               (ucast (drop_bit 8 (segments ! 2))) (ucast (segments ! 2))))"

definition to_ipv4_mapped :: "u16 list \<Rightarrow> (u8 \<times> u8 \<times> u8 \<times> u8) option" where
  "to_ipv4_mapped s =
     (if take 6 s = [0, 0, 0, 0, 0, 0xffff]
      then Some (ucast (drop_bit 8 (s ! 6)), ucast (s ! 6), ucast (drop_bit 8 (s ! 7)), ucast (s ! 7))
      else None)"

definition is_public_network_address :: "ip_addr \<Rightarrow> bool" where
  "is_public_network_address address =
     (case address of
        V4 a b c d \<Rightarrow> is_public_ipv4 a b c d
      | V6 s \<Rightarrow> (case to_ipv4_mapped s of
                  None \<Rightarrow> is_public_ipv6 s
                | Some (a, b, c, d) \<Rightarrow> is_public_ipv4 a b c d))"

definition is_numeric_loopback_host :: "string \<Rightarrow> bool" where
  "is_numeric_loopback_host host =
     (let candidate = (case strip_prefix ''['' host of
                         None \<Rightarrow> host
                       | Some value \<Rightarrow> (case strip_suffix '']'' value of None \<Rightarrow> host | Some v \<Rightarrow> v))
      in case parse_ip candidate of None \<Rightarrow> False | Some address \<Rightarrow> is_loopback address)"

definition trim_end_char :: "char \<Rightarrow> string \<Rightarrow> string" where
  "trim_end_char c s = rev (dropWhile (\<lambda>x. x = c) (rev s))"

text \<open>\<^verbatim>\<open>rsplit_once\<close>: the text before and after the last occurrence of a character.\<close>

definition rsplit_once :: "char \<Rightarrow> string \<Rightarrow> (string \<times> string) option" where
  "rsplit_once d s = map_option (\<lambda>(a, b). (rev b, rev a)) (split_once d (rev s))"

definition is_localhost_name :: "string \<Rightarrow> bool" where
  "is_localhost_name host =
     (let candidate = trim_end_char (CHR ''.'') host in
      eq_ignore_ascii_case candidate ''localhost''
      \<or> (case rsplit_once (CHR ''.'') candidate of
           None \<Rightarrow> False
         | Some (_, label) \<Rightarrow> eq_ignore_ascii_case label ''localhost''))"

definition NETWORK_ADDRESS_VECTORS :: "(string \<times> bool) list" where
  "NETWORK_ADDRESS_VECTORS =
     [(''0.0.0.0'', False), (''10.0.0.1'', False), (''100.64.0.1'', False),
      (''127.0.0.1'', False), (''169.254.169.254'', False), (''172.16.0.1'', False),
      (''192.0.0.1'', False), (''192.0.2.1'', False), (''192.88.99.1'', False),
      (''192.168.0.1'', False), (''198.18.0.1'', False), (''198.51.100.1'', False),
      (''203.0.113.1'', False), (''224.0.0.1'', False), (''240.0.0.1'', False),
      (''255.255.255.255'', False), (''8.8.8.8'', True), (''93.184.216.34'', True),
      (''::'', False), (''::1'', False), (''::ffff:127.0.0.1'', False),
      (''::ffff:8.8.8.8'', True), (''64:ff9b::808:808'', False), (''100::1'', False),
      (''2001::1'', False), (''2001:2::1'', False), (''2001:db8::1'', False),
      (''2001:10::1'', False), (''2001:20::1'', False), (''2002:0a00:0001::1'', False),
      (''2002:0808:0808::1'', True), (''3fff::1'', False), (''4000::1'', False),
      (''5f00::1'', False), (''fc00::1'', False), (''fe80::1'', False), (''fec0::1'', False),
      (''2001:4860:4860::8888'', True), (''2606:4700:4700::1111'', True)]"


section \<open>The published vectors\<close>

text \<open>Rewrite rules that run the address parser on a literal.\<close>

lemmas read_octets_numeral =
  read_octets.simps(2) [where n = "pred_numeral k" for k, folded numeral_eq_Suc]

lemmas read_groups_numeral =
  read_groups.simps(2) [where remaining = "pred_numeral k" for k, folded numeral_eq_Suc]

lemma replicate_pred_numeral: "replicate (numeral k) x = x # replicate (pred_numeral k) x"
  by (simp add: numeral_eq_Suc)

lemmas parse_ip_eval =
  parse_ip_def read_ipv4_addr_def read_ipv6_addr_def read_separator_def read_number_def
  to_digit_def read_given_char_def Let_def read_octets_numeral read_groups_numeral
  replicate_pred_numeral

lemmas classifier_eval =
  is_public_network_address_def is_public_ipv4_def is_public_ipv6_def to_ipv4_mapped_def

section \<open>Reference: address blocks\<close>

text \<open>
  The reference reads an address as its bits, most significant first, and a block as a prefix of
  them; the two tables are the blocks the comments of the source name.
\<close>

definition bits4 :: "u8 \<Rightarrow> u8 \<Rightarrow> u8 \<Rightarrow> u8 \<Rightarrow> bool list" where
  "bits4 a b c d = bits_msb 8 a @ bits_msb 8 b @ bits_msb 8 c @ bits_msb 8 d"

definition bits6 :: "u16 list \<Rightarrow> bool list" where
  "bits6 segments = concat (map (bits_msb 16) segments)"

definition in_block :: "bool list \<Rightarrow> bool list \<times> nat \<Rightarrow> bool" where
  "in_block address block \<longleftrightarrow> take (snd block) address = take (snd block) (fst block)"

definition special_blocks4 :: "(bool list \<times> nat) list" where
  "special_blocks4 =
     [(bits4 0 0 0 0, 8), (bits4 10 0 0 0, 8), (bits4 127 0 0 0, 8), (bits4 100 64 0 0, 10),
      (bits4 169 254 0 0, 16), (bits4 172 16 0 0, 12), (bits4 192 0 0 0, 24),
      (bits4 192 0 2 0, 24), (bits4 192 88 99 0, 24), (bits4 192 168 0 0, 16),
      (bits4 198 18 0 0, 15), (bits4 198 51 100 0, 24), (bits4 203 0 113 0, 24),
      (bits4 224 0 0 0, 3)]"

definition special_blocks6 :: "(bool list \<times> nat) list" where
  "special_blocks6 =
     [(bits6 [0x2001, 0, 0, 0, 0, 0, 0, 0], 32), (bits6 [0x2001, 2, 0, 0, 0, 0, 0, 0], 32),
      (bits6 [0x2001, 0xdb8, 0, 0, 0, 0, 0, 0], 32), (bits6 [0x2001, 0x10, 0, 0, 0, 0, 0, 0], 28),
      (bits6 [0x2001, 0x20, 0, 0, 0, 0, 0, 0], 28), (bits6 [0x3fff, 0, 0, 0, 0, 0, 0, 0], 20)]"

definition public_bits4 :: "bool list \<Rightarrow> bool" where
  "public_bits4 bs \<longleftrightarrow> (\<forall>block \<in> set special_blocks4. \<not> in_block bs block)"

definition public_bits6 :: "bool list \<Rightarrow> bool" where
  "public_bits6 bs \<longleftrightarrow>
     (if in_block bs (bits6 [0, 0, 0, 0, 0, 0xffff, 0, 0], 96) then public_bits4 (drop 96 bs)
      else in_block bs (bits6 [0x2000, 0, 0, 0, 0, 0, 0, 0], 3)
        \<and> (\<forall>block \<in> set special_blocks6. \<not> in_block bs block)
        \<and> (in_block bs (bits6 [0x2002, 0, 0, 0, 0, 0, 0, 0], 16)
            \<longrightarrow> public_bits4 (take 32 (drop 16 bs))))"

definition public_reference :: "ip_addr \<Rightarrow> bool" where
  "public_reference address =
     (case address of V4 a b c d \<Rightarrow> public_bits4 (bits4 a b c d) | V6 s \<Rightarrow> public_bits6 (bits6 s))"

lemma take_bits_msb:
  fixes v w :: "'a::len word"
  assumes "k \<le> LENGTH('a)"
  shows "take k (bits_msb (LENGTH('a)) v) = take k (bits_msb (LENGTH('a)) w)
    \<longleftrightarrow> drop_bit (LENGTH('a) - k) v = drop_bit (LENGTH('a) - k) w"
    (is "?l \<longleftrightarrow> ?r")
proof -
  let ?n = "LENGTH('a)"
  have take: "take k (bits_msb ?n u) = map (\<lambda>i. bit u (?n - k + i)) (rev [0..<k])" for u :: "'a word"
    using bits_msb_add [of k "?n - k" u] assms by simp
  have "?l \<longleftrightarrow> (\<forall>i < k. bit v (?n - k + i) = bit w (?n - k + i))"
    by (auto simp: take)
  also have "\<dots> \<longleftrightarrow> ?r"
  proof
    assume *: "\<forall>i < k. bit v (?n - k + i) = bit w (?n - k + i)"
    show ?r
    proof (rule bit_word_eqI)
      fix i assume "i < ?n"
      show "bit (drop_bit (?n - k) v) i = bit (drop_bit (?n - k) w) i"
      proof (cases "i < k")
        case True with * show ?thesis by (simp add: bit_drop_bit_eq)
      next
        case False
        with assms have "?n \<le> ?n - k + i" by simp
        then show ?thesis by (auto simp: bit_drop_bit_eq dest!: bit_imp_le_length)
      qed
    qed
  next
    assume ?r
    then show "\<forall>i < k. bit v (?n - k + i) = bit w (?n - k + i)"
      by (metis bit_drop_bit_eq comp_apply)
  qed
  finally show ?thesis .
qed

lemma bits_msb_eq: "bits_msb (LENGTH('a)) (v :: 'a::len word) = bits_msb (LENGTH('a)) w \<longleftrightarrow> v = w"
  using bits_msb_inj by blast

lemmas octet_prefix = bits_msb_eq [where 'a = 8, simplified] take_bits_msb [where 'a = 8, simplified]

lemmas segment_prefix = bits_msb_eq [where 'a = 16, simplified] take_bits_msb [where 'a = 16, simplified]

text \<open>Prefixes of an octet or a segment as ranges and masks.\<close>

lemma octet_ranges:
  fixes b :: u8
  shows "drop_bit 6 b = 1 \<longleftrightarrow> 64 \<le> b \<and> b \<le> 127"
    and "drop_bit 4 b = 1 \<longleftrightarrow> 16 \<le> b \<and> b \<le> 31"
    and "drop_bit (Suc 0) b = 9 \<longleftrightarrow> b = 18 \<or> b = 19"
    and "drop_bit 5 b = 7 \<longleftrightarrow> 224 \<le> b"
proof -
  have "unat b < 256" using unat_lt2p [of b] by simp
  then show "drop_bit 6 b = 1 \<longleftrightarrow> 64 \<le> b \<and> b \<le> 127"
    and "drop_bit 4 b = 1 \<longleftrightarrow> 16 \<le> b \<and> b \<le> 31"
    and "drop_bit (Suc 0) b = 9 \<longleftrightarrow> b = 18 \<or> b = 19"
    and "drop_bit 5 b = 7 \<longleftrightarrow> 224 \<le> b"
    by (auto simp: word_le_nat_alt word_unat_eq_iff drop_bit_eq_div unat_div)
qed

lemma public_ipv4_blocks: "is_public_ipv4 a b c d \<longleftrightarrow> public_bits4 (bits4 a b c d)"
  by (simp add: is_public_ipv4_def public_bits4_def special_blocks4_def in_block_def bits4_def
      octet_prefix octet_ranges)

lemma segment_masks:
  fixes s :: u16
  shows "s AND 0xe000 = 0x2000 \<longleftrightarrow> drop_bit 13 s = 1"
    and "s AND 0xfff0 = 0x10 \<longleftrightarrow> drop_bit 4 s = 1"
    and "s AND 0xfff0 = 0x20 \<longleftrightarrow> drop_bit 4 s = 2"
    and "s AND 0xf000 = 0 \<longleftrightarrow> drop_bit 12 s = 0"
    and "s AND 0xff00 = 0xff00 \<longleftrightarrow> drop_bit 8 s = 0xff"
proof -
  have mask: "s AND push_bit k (mask (16 - k)) = push_bit k m \<longleftrightarrow> drop_bit k s = m"
    if "k \<le> 16" "take_bit (16 - k) m = m" for k and m :: u16
  proof -
    have "s AND push_bit k (mask (16 - k)) = push_bit k (drop_bit k s)"
      using that(1) by (auto intro!: bit_word_eqI simp: bit_simps)
    moreover have "push_bit k (drop_bit k s) = push_bit k m \<longleftrightarrow> drop_bit k s = m" (is "?l = ?r")
    proof
      assume ?l
      show ?r
      proof (rule bit_word_eqI)
        fix i assume "i < LENGTH(16)"
        show "bit (drop_bit k s) i = bit m i"
        proof (cases "i < 16 - k")
          case True
          with \<open>?l\<close> have "bit (push_bit k (drop_bit k s)) (k + i) = bit (push_bit k m) (k + i)" by simp
          moreover from True have "k + i < 16" by arith
          ultimately show ?thesis by (simp add: bit_simps)
        next
          case False
          then have "\<not> bit (take_bit (16 - k) m) i" by (simp add: bit_simps)
          with that(2) False show ?thesis by (auto simp: bit_simps dest!: bit_imp_le_length)
        qed
      qed
    qed simp
    ultimately show ?thesis by simp
  qed
  show "s AND 0xe000 = 0x2000 \<longleftrightarrow> drop_bit 13 s = 1" using mask [of 13 1] by (simp add: mask_eq_exp_minus_1)
  show "s AND 0xfff0 = 0x10 \<longleftrightarrow> drop_bit 4 s = 1" using mask [of 4 1] by (simp add: mask_eq_exp_minus_1)
  show "s AND 0xfff0 = 0x20 \<longleftrightarrow> drop_bit 4 s = 2" using mask [of 4 2] by (simp add: mask_eq_exp_minus_1)
  show "s AND 0xf000 = 0 \<longleftrightarrow> drop_bit 12 s = 0" using mask [of 12 0] by (simp add: mask_eq_exp_minus_1)
  show "s AND 0xff00 = 0xff00 \<longleftrightarrow> drop_bit 8 s = 0xff" using mask [of 8 "0xff"] by (simp add: mask_eq_exp_minus_1)
qed

lemma segment_octets:
  "bits_msb 16 (s :: u16) = bits_msb 8 (ucast (drop_bit 8 s) :: u8) @ bits_msb 8 (ucast s :: u8)"
  using bits_msb_add [of 8 8 s] by (auto simp: bits_msb_def bit_simps)

lemma embedded_bits:
  "bits4 (ucast (drop_bit 8 s)) (ucast s) (ucast (drop_bit 8 t)) (ucast t) = bits_msb 16 (s :: u16) @ bits_msb 16 (t :: u16)"
  by (simp add: bits4_def segment_octets)

text \<open>Addresses the code excludes by name that the \<^verbatim>\<open>2000::/3\<close> rule already excludes.\<close>

lemma outside_global_unicast:
  fixes s :: u16
  assumes "drop_bit 13 s = 1"
  shows "s \<noteq> 0" and "drop_bit 8 s \<noteq> 0xff"
proof -
  show "s \<noteq> 0" using assms by auto
  show "drop_bit 8 s \<noteq> 0xff"
  proof
    assume *: "drop_bit 8 s = 0xff"
    have "drop_bit 13 s = drop_bit 5 (drop_bit 8 s)" by (simp only: drop_bit_drop_bit) simp
    also have "\<dots> = 7" by (simp only: *) simp
    finally show False using assms by simp
  qed
qed

lemma list8: "length s = 8 \<Longrightarrow> \<exists>a b c d e f g h. s = [a, b, c, d, e, f, g, h]"
proof -
  assume "length s = 8"
  then have "length s = Suc (Suc (Suc (Suc (Suc (Suc (Suc (Suc 0)))))))" by simp
  then show ?thesis by (simp only: length_Suc_conv length_0_conv) blast
qed

lemma public_ipv6_blocks:
  assumes "length s = 8"
  shows "is_public_network_address (V6 s) \<longleftrightarrow> public_bits6 (bits6 s)"
proof -
  obtain s0 s1 s2 s3 s4 s5 s6 s7 where s: "s = [s0, s1, s2, s3, s4, s5, s6, s7]"
    using list8 [OF assms] by blast
  have mapped: "in_block (bits6 s) (bits6 [0, 0, 0, 0, 0, 0xffff, 0, 0], 96)
      \<longleftrightarrow> take 6 s = [0, 0, 0, 0, 0, 0xffff]"
    by (simp add: s in_block_def bits6_def segment_prefix)
  have block: "in_block (bits6 s) (bits6 [0x2000, 0, 0, 0, 0, 0, 0, 0], 3) \<longleftrightarrow> drop_bit 13 s0 = 1"
      "in_block (bits6 s) (bits6 [0x2002, 0, 0, 0, 0, 0, 0, 0], 16) \<longleftrightarrow> s0 = 0x2002"
    by (simp_all add: s in_block_def bits6_def segment_prefix)
  have blocks: "(\<forall>block \<in> set special_blocks6. \<not> in_block (bits6 s) block) \<longleftrightarrow>
      \<not> (s0 = 0x2001 \<and> s1 = 0 \<or> s0 = 0x2001 \<and> s1 = 2 \<or> s0 = 0x2001 \<and> s1 = 0xdb8
         \<or> s0 = 0x2001 \<and> drop_bit 4 s1 = 1 \<or> s0 = 0x2001 \<and> drop_bit 4 s1 = 2
         \<or> s0 = 0x3fff \<and> drop_bit 12 s1 = 0)"
    by (simp add: s special_blocks6_def in_block_def bits6_def segment_prefix)
  have emb: "take 32 (drop 16 (bits6 s)) = bits_msb 16 s1 @ bits_msb 16 s2"
      "drop 96 (bits6 s) = bits_msb 16 s6 @ bits_msb 16 s7"
    by (simp_all add: s bits6_def)
  have nths: "s ! 0 = s0" "s ! 1 = s1" "s ! 2 = s2" "s ! 6 = s6" "s ! 7 = s7"
    by (simp_all add: s)
  have low: "s = replicate 8 0 \<Longrightarrow> s0 = 0" "s = [0, 0, 0, 0, 0, 0, 0, 1] \<Longrightarrow> s0 = 0"
    using nths(1) by auto
  have ipv6: "is_public_ipv6 s \<longleftrightarrow> drop_bit 13 s0 = 1
      \<and> (\<forall>block \<in> set special_blocks6. \<not> in_block (bits6 s) block)
      \<and> (s0 = 0x2002 \<longrightarrow> public_bits4 (bits_msb 16 s1 @ bits_msb 16 s2))"
    unfolding is_public_ipv6_def nths segment_masks blocks public_ipv4_blocks embedded_bits
    using outside_global_unicast [of s0] low by blast
  show ?thesis
    by (simp add: is_public_network_address_def to_ipv4_mapped_def public_bits6_def nths
        mapped block ipv6 emb public_ipv4_blocks embedded_bits)
qed

section \<open>Loopback literals\<close>

definition ip_chars :: "char set" where
  "ip_chars = {c. to_digit 16 c \<noteq> None} \<union> {CHR ''.'', CHR '':''}"

text \<open>What a reader takes from the front of its input.\<close>

definition consumes :: "string \<Rightarrow> string \<Rightarrow> bool" where
  "consumes s rest \<longleftrightarrow> (\<exists>pre. s = pre @ rest \<and> set pre \<subseteq> ip_chars)"

lemma consumes_refl [simp]: "consumes s s"
  by (simp add: consumes_def)

lemma consumes_trans: "consumes s t \<Longrightarrow> consumes t u \<Longrightarrow> consumes s u"
proof -
  assume "consumes s t" "consumes t u"
  then obtain p q where "s = (p @ q) @ u" "set (p @ q) \<subseteq> ip_chars" by (auto simp: consumes_def)
  then show ?thesis unfolding consumes_def by blast
qed

lemma consumes_Cons: "c \<in> ip_chars \<Longrightarrow> consumes s rest \<Longrightarrow> consumes (c # s) rest"
proof -
  assume "c \<in> ip_chars" "consumes s rest"
  then obtain p where "c # s = (c # p) @ rest" "set (c # p) \<subseteq> ip_chars" by (auto simp: consumes_def)
  then show ?thesis unfolding consumes_def by blast
qed

lemma to_digit_10_16: "to_digit 10 c = Some d \<Longrightarrow> to_digit 16 c = Some d"
  by (auto simp: to_digit_def Let_def split: if_splits)

lemma read_digits_consumes:
  assumes "radix \<in> {10, 16}"
  shows "consumes s (snd (read_digits radix s))"
proof (induction s)
  case (Cons c cs)
  have "c \<in> ip_chars" if "to_digit radix c = Some d" for d
    using that assms by (auto simp: ip_chars_def dest: to_digit_10_16)
  with Cons show ?case
    by (auto split: option.splits prod.splits intro: consumes_Cons)
qed simp

lemma read_number_consumes:
  "read_number radix n z b s = Some (x, rest) \<Longrightarrow> radix \<in> {10, 16} \<Longrightarrow> consumes s rest"
  using read_digits_consumes [of radix s]
  by (auto simp: read_number_def Let_def split: prod.splits if_splits)

lemma read_given_char_consumes:
  "read_given_char c s = Some rest \<Longrightarrow> c \<in> {CHR ''.'', CHR '':''} \<Longrightarrow> consumes s rest"
  by (auto simp: read_given_char_def ip_chars_def split: list.splits if_splits intro: consumes_Cons)

lemma read_separator_consumes:
  assumes "read_separator sep i inner s = Some (x, rest)" "sep \<in> {CHR ''.'', CHR '':''}"
    and "\<And>t. inner t = Some (x, rest) \<Longrightarrow> consumes t rest"
  shows "consumes s rest"
  using assms by (auto simp: read_separator_def split: if_splits option.splits
      dest: read_given_char_consumes intro: consumes_trans)

lemma read_octets_consumes: "read_octets n i s = Some (xs, rest) \<Longrightarrow> consumes s rest"
proof (induction n i s arbitrary: xs rest rule: read_octets.induct)
  case (2 n i s)
  then show ?case
    by (auto split: option.splits prod.splits
        dest!: read_separator_consumes read_number_consumes intro: consumes_trans)
qed simp

lemma read_groups_consumes: "read_groups n i s = (gs, v4, rest) \<Longrightarrow> consumes s rest"
proof (induction n i s arbitrary: gs v4 rest rule: read_groups.induct)
  case (2 n i s)
  have v4: "consumes s r" if "read_separator (CHR '':'') i read_ipv4_addr s = Some (os, r)" for os r
    using that by (rule read_separator_consumes) (auto simp: read_ipv4_addr_def dest: read_octets_consumes)
  have num: "consumes s r"
    if "read_separator (CHR '':'') i (read_number 16 4 True 65536) s = Some (g, r)" for g r
    using that by (rule read_separator_consumes) (auto dest: read_number_consumes)
  show ?case
  proof (cases "if 0 < n then read_separator (CHR '':'') i read_ipv4_addr s else None")
    case None
    with 2 num show ?thesis
      by (auto split: option.splits prod.splits intro: consumes_trans simp: Let_def)
  next
    case (Some p)
    with 2(2) v4 show ?thesis by (cases p) (auto split: if_splits)
  qed
qed simp

lemma parse_ip_chars:
  assumes "parse_ip s = Some a"
  shows "set s \<subseteq> ip_chars"
proof -
  have all: "set s \<subseteq> ip_chars" if "consumes s []"
    using that by (auto simp: consumes_def)
  show ?thesis
  proof (cases "read_ipv4_addr s")
    case (Some p)
    with assms all show ?thesis
      by (cases p) (auto simp: parse_ip_def read_ipv4_addr_def split: if_splits dest: read_octets_consumes)
  next
    case None
    with assms obtain gs where "read_ipv6_addr s = Some (gs, [])"
      by (auto simp: parse_ip_def split: option.splits if_splits)
    then have "consumes s []"
      by (auto simp: read_ipv6_addr_def Let_def split: prod.splits if_splits option.splits
          dest!: read_groups_consumes read_given_char_consumes intro: consumes_trans)
    then show ?thesis by (rule all)
  qed
qed

lemma localhost_name_has_l:
  assumes "is_localhost_name host"
  shows "CHR ''l'' \<in> set host \<or> CHR ''L'' \<in> set host"
proof -
  have l: "CHR ''l'' \<in> set s \<or> CHR ''L'' \<in> set s" if "eq_ignore_ascii_case s ''localhost''" for s
  proof -
    from that obtain c cs where s: "s = c # cs" and "to_ascii_lower c = to_ascii_lower (CHR ''l'')"
      by (cases s) (auto simp: eq_ignore_ascii_case_def to_ascii_lowercase_def)
    then have "code (to_ascii_lower c) = code (to_ascii_lower (CHR ''l''))" by simp
    then have "code (to_ascii_lower c) = 108" by (simp add: code_to_ascii_lower ascii_defs)
    then have "code c = code (CHR ''l'') \<or> code c = code (CHR ''L'')"
      by (auto simp: code_to_ascii_lower ascii_defs split: if_splits)
    then have "c = CHR ''l'' \<or> c = CHR ''L''" by (simp only: of_char_eq_iff)
    with s show ?thesis by auto
  qed
  let ?candidate = "trim_end_char (CHR ''.'') host"
  have sub: "set ?candidate \<subseteq> set host"
    by (auto simp: trim_end_char_def dest: set_dropWhileD)
  have "set label \<subseteq> set ?candidate" if "rsplit_once (CHR ''.'') ?candidate = Some (p, label)" for p label
    using that set_takeWhileD [of _ "\<lambda>c. c \<noteq> CHR ''.''" "rev ?candidate"]
    by (auto simp: rsplit_once_def split_once_def split: if_splits)
  with assms sub l show ?thesis
    unfolding is_localhost_name_def Let_def by (fastforce split: option.splits)
qed

lemma loopback_host_chars:
  assumes "is_numeric_loopback_host host"
  shows "set host \<subseteq> ip_chars \<union> {CHR ''['', CHR '']''}"
proof -
  from assms obtain candidate a where "parse_ip candidate = Some a"
    and "candidate = host \<or> host = ''['' @ candidate @ '']''"
    by (auto simp: is_numeric_loopback_host_def Let_def strip_prefix_def strip_suffix_def prefix_def
        suffix_def split: option.splits if_splits)
  then show ?thesis using parse_ip_chars [of candidate a] by auto
qed

section \<open>Properties\<close>

text \<open>C27. The classifier agrees with the block tables: an address is accepted exactly when it lies in
  none of the special-purpose prefixes, IPv4-mapped and 6to4 addresses being judged by the IPv4
  address they carry, and every IPv6 address outside \<^verbatim>\<open>2000::/3\<close> being refused. An IPv6 address is its
  eight segments.\<close>

theorem public_address_matches_blocks:
  assumes "\<forall>s. address = V6 s \<longrightarrow> length s = 8"
  shows "is_public_network_address address \<longleftrightarrow> public_reference address"
  using assms public_ipv6_blocks
  by (auto simp: public_reference_def is_public_network_address_def public_ipv4_blocks split: ip_addr.split)

theorem public_address_matches_blocks_witness:
  "is_public_network_address (V6 [0x2002, 0x0a00, 1, 0, 0, 0, 0, 1]) = False
   \<and> public_reference (V6 [0x2002, 0x0a00, 1, 0, 0, 0, 0, 1]) = False"
  using public_address_matches_blocks [of "V6 [0x2002, 0x0a00, 1, 0, 0, 0, 0, 1]"]
  by (simp add: classifier_eval)

text \<open>Each of the 39 published conformance vectors parses as an address and is classified as its row
  says.\<close>

theorem published_vectors_classified:
  "list_all (\<lambda>(address, public). map_option is_public_network_address (parse_ip address) = Some public)
     NETWORK_ADDRESS_VECTORS"
  by (simp add: NETWORK_ADDRESS_VECTORS_def parse_ip_eval classifier_eval)

text \<open>A host taken for a numeric loopback literal is never a \<^verbatim>\<open>localhost\<close> name, in any case, with
  brackets or trailing dots: the two local-host rules cannot both apply.\<close>

theorem loopback_literal_is_no_name:
  assumes "is_numeric_loopback_host host"
  shows "\<not> is_localhost_name host"
proof
  assume "is_localhost_name host"
  with assms have "CHR ''l'' \<in> ip_chars \<union> {CHR ''['', CHR '']''} \<or> CHR ''L'' \<in> ip_chars \<union> {CHR ''['', CHR '']''}"
    using localhost_name_has_l loopback_host_chars by blast
  then show False by (simp add: ip_chars_def to_digit_def)
qed

theorem loopback_literal_is_no_name_witness:
  "is_numeric_loopback_host ''[::1]'' \<and> \<not> is_localhost_name ''[::1]''"
proof -
  have "is_numeric_loopback_host ''[::1]''"
    by (simp add: is_numeric_loopback_host_def parse_ip_eval strip_prefix_def strip_suffix_def
        suffix_def is_loopback_def)
  with loopback_literal_is_no_name [of "''[::1]''"] show ?thesis by simp
qed

end
