(* ===== verification/Merkle_Log.thy ===== *)
theory Merkle_Log
  imports Keys
begin

text \<open>
  \<^verbatim>\<open>pigeonpost-registry/src/log.rs\<close>: the RFC 6962 transparency log. The tree over the leaf hashes, its
  inclusion and consistency proofs, the two verifiers a client or a witness runs, and the compact
  frontier that recomputes the root while the log grows.

  Lengths, indices and the shifted positions of the verifiers are \<^typ>\<open>nat\<close>: they only shrink, so
  no width matters there. The frontier's \<^verbatim>\<open>size\<close> is a 64-bit word, because its bits are the
  occupancy of the peaks and its increment is guarded against wrapping.
\<close>

section \<open>Hashes and the split point\<close>

definition empty_root :: "crypto \<Rightarrow> bytes" where
  "empty_root C = sha256 C []"

definition leaf_hash :: "crypto \<Rightarrow> bytes \<Rightarrow> bytes" where
  "leaf_hash C data = sha256 C ([0] @ data)"

definition node_preimage :: "bytes \<Rightarrow> bytes \<Rightarrow> bytes" where
  "node_preimage left right = [1] @ left @ right"

definition node_hash :: "crypto \<Rightarrow> bytes \<Rightarrow> bytes \<Rightarrow> bytes" where
  "node_hash C left right = sha256 C (node_preimage left right)"

function split_loop :: "nat \<Rightarrow> nat \<Rightarrow> nat" where
  "split_loop n k = (if 0 < k \<and> 2 * k < n then split_loop n (2 * k) else k)"
  by pat_completeness auto
termination by (relation "measure (\<lambda>(n, k). n - k)") auto

declare split_loop.simps [simp del]

definition split :: "nat \<Rightarrow> nat" where
  "split n = split_loop n 1"

lemma split_loop_bounds:
  "k < n \<Longrightarrow> k = 2 ^ d \<Longrightarrow> \<exists>e. split_loop n k = 2 ^ e \<and> 2 ^ e < n \<and> n \<le> 2 * 2 ^ e"
proof (induction n k arbitrary: d rule: split_loop.induct)
  case (1 n k)
  show ?case
  proof (cases "2 * k < n")
    case True
    with 1(3) have "split_loop n k = split_loop n (2 * k)"
      by (subst split_loop.simps) simp
    with True 1(1) [of "Suc d"] 1(3) show ?thesis by simp
  next
    case False
    then have "split_loop n k = k" by (subst split_loop.simps) simp
    with False 1(2,3) show ?thesis by auto
  qed
qed

lemma split_bounds:
  assumes "1 < n"
  shows "0 < split n" "split n < n" "n \<le> 2 * split n" "\<exists>e. split n = 2 ^ e"
  using split_loop_bounds [of 1 n 0] assms by (auto simp: split_def)

lemma split_unique:
  assumes "2 ^ e < n" "n \<le> 2 * 2 ^ e"
  shows "split n = 2 ^ e"
proof -
  have "1 < n" using assms(1) by (metis le_less_trans one_le_numeral one_le_power)
  then obtain f where f: "split n = 2 ^ f" "2 ^ f < n" "n \<le> 2 * 2 ^ f"
    using split_bounds by metis
  have "(2::nat) ^ f < 2 ^ Suc e" "(2::nat) ^ e < 2 ^ Suc f" using assms f by simp_all
  then have "f < Suc e" "e < Suc f" by (simp_all only: power_strict_increasing_iff)
  then have "f = e" by simp
  with f(1) show ?thesis by simp
qed

lemma split_measure:
  "\<not> n \<le> Suc 0 \<Longrightarrow> n - split n < n" "\<not> n \<le> Suc 0 \<Longrightarrow> min n (split n) < n"
  using split_bounds [of n] by auto

lemma length_neq_01: "xs \<noteq> [] \<Longrightarrow> length xs \<noteq> Suc 0 \<Longrightarrow> Suc 0 < length xs"
  by (cases xs) auto

section \<open>The log\<close>

record merkle_log =
  leaves :: "bytes list"

function root_range :: "crypto \<Rightarrow> bytes list \<Rightarrow> bytes" where
  "root_range C ls =
     (if length ls = 0 then empty_root C
      else if length ls = 1 then ls ! 0
      else let k = split (length ls)
           in node_hash C (root_range C (take k ls)) (root_range C (drop k ls)))"
  by pat_completeness auto
termination
  by (relation "measure (\<lambda>(C, ls). length ls)") (auto simp: length_neq_01 split_bounds)

declare root_range.simps [simp del]

definition log_new :: merkle_log where
  "log_new = \<lparr>leaves = []\<rparr>"

definition log_append :: "crypto \<Rightarrow> bytes \<Rightarrow> merkle_log \<Rightarrow> merkle_log \<times> u64" where
  "log_append C data log =
     (let log' = log\<lparr>leaves := leaves log @ [leaf_hash C data]\<rparr>
      in (log', word_of_nat (length (leaves log') - 1)))"

definition root_of :: "crypto \<Rightarrow> merkle_log \<Rightarrow> nat \<Rightarrow> bytes" where
  "root_of C log n = (if n = 0 then empty_root C else root_range C (take n (leaves log)))"

definition log_root :: "crypto \<Rightarrow> merkle_log \<Rightarrow> bytes" where
  "log_root C log = root_of C log (length (leaves log))"

function path :: "crypto \<Rightarrow> bytes list \<Rightarrow> nat \<Rightarrow> bytes list" where
  "path C ls index =
     (let n = length ls in
      if n \<le> 1 then []
      else let k = split n in
        if index < k then path C (take k ls) index @ [root_range C (drop k ls)]
        else path C (drop k ls) (index - k) @ [root_range C (take k ls)])"
  by pat_completeness auto
termination
  by (relation "measure (\<lambda>(C, ls, i). length ls)") (auto simp: split_measure split_bounds)

declare path.simps [simp del]

definition inclusion_proof :: "crypto \<Rightarrow> merkle_log \<Rightarrow> u64 \<Rightarrow> u64 \<Rightarrow> bytes list option" where
  "inclusion_proof C log index sz =
     (if length (leaves log) < unat sz \<or> unat sz \<le> unat index then None
      else Some (path C (take (unat sz) (leaves log)) (unat index)))"

text \<open>
  The recursion is only called with \<^verbatim>\<open>1 <= m <= n\<close>; the model answers the remaining arguments, on
  which \<^verbatim>\<open>split\<close> would be called with \<^verbatim>\<open>n <= 1\<close>, with no proof.
\<close>

function consistency :: "crypto \<Rightarrow> bytes list \<Rightarrow> nat \<Rightarrow> bool \<Rightarrow> bytes list" where
  "consistency C ls m is_root =
     (let n = length ls in
      if m = n then (if is_root then [] else [root_range C ls])
      else if n \<le> 1 then []
      else let k = split n in
        if m \<le> k then consistency C (take k ls) m is_root @ [root_range C (drop k ls)]
        else consistency C (drop k ls) (m - k) False @ [root_range C (take k ls)])"
  by pat_completeness auto
termination
  by (relation "measure (\<lambda>(C, ls, m, b). length ls)") (auto simp: split_measure split_bounds)

declare consistency.simps [simp del]

definition consistency_proof :: "crypto \<Rightarrow> merkle_log \<Rightarrow> u64 \<Rightarrow> u64 \<Rightarrow> bytes list option" where
  "consistency_proof C log old new =
     (if unat new < unat old \<or> length (leaves log) < unat new \<or> unat old = 0 then None
      else Some (consistency C (take (unat new) (leaves log)) (unat old) True))"

section \<open>The verifiers\<close>

function shift_even :: "nat \<Rightarrow> nat \<Rightarrow> nat \<times> nat" where
  "shift_even node fin =
     (if node \<noteq> 0 \<and> even node then shift_even (node div 2) (fin div 2) else (node, fin))"
  by pat_completeness auto
termination by (relation "measure fst") auto

declare shift_even.simps [simp del]

function strip_odd :: "nat \<Rightarrow> nat \<Rightarrow> nat \<times> nat" where
  "strip_odd node fin = (if odd node then strip_odd (node div 2) (fin div 2) else (node, fin))"
  by pat_completeness auto
termination by (relation "measure fst") (auto elim: oddE)

declare strip_odd.simps [simp del]

fun inclusion_loop :: "crypto \<Rightarrow> nat \<Rightarrow> nat \<Rightarrow> bytes \<Rightarrow> bytes list \<Rightarrow> (nat \<times> bytes) option" where
  "inclusion_loop C node fin hash [] = Some (fin, hash)"
| "inclusion_loop C node fin hash (sibling # proof) =
     (if fin = 0 then None
      else if odd node \<or> node = fin then
        (let (node', fin') = shift_even node fin
         in inclusion_loop C (node' div 2) (fin' div 2) (node_hash C sibling hash) proof)
      else inclusion_loop C (node div 2) (fin div 2) (node_hash C hash sibling) proof)"

definition verify_inclusion :: "crypto \<Rightarrow> bytes \<Rightarrow> u64 \<Rightarrow> u64 \<Rightarrow> bytes list \<Rightarrow> bytes \<Rightarrow> bool" where
  "verify_inclusion C leaf index sz proof expected_root =
     (if sz \<le> index then False
      else case inclusion_loop C (unat index) (unat sz - 1) leaf proof of
          None \<Rightarrow> False
        | Some (fin, hash) \<Rightarrow> fin = 0 \<and> hash = expected_root)"

fun consistency_loop ::
  "crypto \<Rightarrow> nat \<Rightarrow> nat \<Rightarrow> bytes \<Rightarrow> bytes \<Rightarrow> bytes list \<Rightarrow> (nat \<times> bytes \<times> bytes) option" where
  "consistency_loop C node fin old_hash new_hash [] = Some (fin, old_hash, new_hash)"
| "consistency_loop C node fin old_hash new_hash (step # proof) =
     (if fin = 0 then None
      else if odd node \<or> node = fin then
        (let (node', fin') = shift_even node fin
         in consistency_loop C (node' div 2) (fin' div 2)
              (node_hash C step old_hash) (node_hash C step new_hash) proof)
      else consistency_loop C (node div 2) (fin div 2) old_hash (node_hash C new_hash step) proof)"

definition count_ones :: "u64 \<Rightarrow> nat" where
  "count_ones w = length (filter (bit w) [0..<64])"

definition is_power_of_two :: "u64 \<Rightarrow> bool" where
  "is_power_of_two w \<longleftrightarrow> count_ones w = 1"

definition verify_consistency ::
  "crypto \<Rightarrow> u64 \<Rightarrow> bytes \<Rightarrow> u64 \<Rightarrow> bytes \<Rightarrow> bytes list \<Rightarrow> bool" where
  "verify_consistency C old old_root new new_root proof =
     (if old = 0 \<or> new < old then False
      else if old = new then proof = [] \<and> old_root = new_root
      else case (if is_power_of_two old then old_root # proof else proof) of
          [] \<Rightarrow> False
        | first # rest \<Rightarrow>
            (let (node, fin) = strip_odd (unat old - 1) (unat new - 1)
             in case consistency_loop C node fin first first rest of
                  None \<Rightarrow> False
                | Some (fin', old_hash, new_hash) \<Rightarrow>
                    fin' = 0 \<and> old_hash = old_root \<and> new_hash = new_root))"


section \<open>The frontier\<close>

record frontier =
  fsize :: u64
  peaks :: "bytes option list"

definition frontier_new :: frontier where
  "frontier_new = \<lparr>fsize = 0, peaks = []\<rparr>"

definition validate :: "frontier \<Rightarrow> bool" where
  "validate F \<longleftrightarrow>
     length (peaks F) \<le> 64
     \<and> (\<forall>level < length (peaks F).
          (peaks F ! level \<noteq> None) = (drop_bit level (fsize F) AND 1 = 1))
     \<and> (length (peaks F) = 64 \<or> drop_bit (length (peaks F)) (fsize F) = 0)"

text \<open>
  The carry loop: \<^verbatim>\<open>peaks.get_mut(level)?.take()?\<close> returns early, with the peaks taken so far gone,
  when a level that should be occupied is not.
\<close>

function carry_loop ::
  "crypto \<Rightarrow> bytes option list \<Rightarrow> nat \<Rightarrow> bytes \<Rightarrow> u64 \<Rightarrow> bytes option list \<times> (nat \<times> bytes) option" where
  "carry_loop C ps level hash occupied =
     (if occupied AND 1 = 1 then
        (case (if level < length ps then ps ! level else None) of
           None \<Rightarrow> (ps, None)
         | Some left \<Rightarrow>
             carry_loop C (ps[level := None]) (level + 1) (node_hash C left hash) (drop_bit 1 occupied))
      else (ps, Some (level, hash)))"
  by pat_completeness auto
termination
proof (relation "measure (\<lambda>(C, ps, level, hash, occupied). length ps - level)", goal_cases)
  case (2 C ps level hash occupied left)
  then show ?case by (auto split: if_splits)
qed simp

declare carry_loop.simps [simp del]

definition append_hash :: "crypto \<Rightarrow> bytes \<Rightarrow> frontier \<Rightarrow> frontier \<times> u64 option" where
  "append_hash C leaf F =
     (if \<not> validate F \<or> fsize F = - 1 then (F, None)
      else case carry_loop C (peaks F) 0 leaf (fsize F) of
          (ps, None) \<Rightarrow> (F\<lparr>peaks := ps\<rparr>, None)
        | (ps, Some (level, hash)) \<Rightarrow>
            (let ps' = (if length ps \<le> level then ps @ replicate (level + 1 - length ps) None else ps)
             in (F\<lparr>peaks := ps'[level := Some hash], fsize := fsize F + 1\<rparr>, Some (fsize F))))"

definition frontier_append :: "crypto \<Rightarrow> bytes \<Rightarrow> frontier \<Rightarrow> frontier \<times> u64 option" where
  "frontier_append C data F = append_hash C (leaf_hash C data) F"

fun root_fold :: "crypto \<Rightarrow> bytes option \<Rightarrow> bytes option list \<Rightarrow> bytes option" where
  "root_fold C root [] = root"
| "root_fold C root (None # ps) = root_fold C root ps"
| "root_fold C root (Some peak # ps) =
     root_fold C (Some (case root of Some right \<Rightarrow> node_hash C peak right | None \<Rightarrow> peak)) ps"

definition frontier_root :: "crypto \<Rightarrow> frontier \<Rightarrow> bytes option" where
  "frontier_root C F =
     (if \<not> validate F then None
      else if fsize F = 0 then Some (empty_root C)
      else root_fold C None (peaks F))"

section \<open>The route of the verifiers\<close>

text \<open>
  Both loops take the same turns: \<^const>\<open>True\<close> when the proof element is the left sibling. The bottom-up
  route from the shifted positions is shown to be the top-down route through the split points, read
  backwards.
\<close>

function route :: "nat \<Rightarrow> nat \<Rightarrow> bool list" where
  "route node fin =
     (if fin = 0 then []
      else if odd node \<or> node = fin then
        (let (node', fin') = shift_even node fin in True # route (node' div 2) (fin' div 2))
      else False # route (node div 2) (fin div 2))"
  by pat_completeness auto

lemma shift_even_le: "snd (shift_even node fin) \<le> fin"
proof (induction node fin rule: shift_even.induct)
  case (1 node fin)
  then show ?case
    using div_le_dividend [of fin 2] by (subst shift_even.simps) (auto intro: order_trans)
qed

termination route
proof (relation "measure snd", goal_cases)
  case (2 node fin x node' fin')
  then have "fin' \<le> fin" using shift_even_le [of node fin] by (metis snd_conv)
  with 2 show ?case by simp
qed auto

declare route.simps [simp del]

lemma shift_even_odd: "odd node \<Longrightarrow> shift_even node fin = (node, fin)"
  by (simp add: shift_even.simps)

lemma route_0 [simp]: "route node 0 = []"
  by (simp add: route.simps)

lemma route_odd: "0 < fin \<Longrightarrow> odd node \<Longrightarrow> route node fin = True # route (node div 2) (fin div 2)"
  by (simp add: route.simps [of node] shift_even_odd)

lemma route_even:
  "0 < fin \<Longrightarrow> even node \<Longrightarrow> node \<noteq> fin \<Longrightarrow> route node fin = False # route (node div 2) (fin div 2)"
  by (simp add: route.simps [of node])

lemma route_last_even:
  assumes "even x"
  shows "route x x = route (x div 2) (x div 2)"
proof (cases "x = 0")
  case False
  with assms have pos: "0 < x div 2" by (auto elim: evenE)
  have s: "shift_even x x = shift_even (x div 2) (x div 2)"
    using assms False by (subst shift_even.simps) simp
  show ?thesis
    using False pos by (simp add: route.simps [of x x] route.simps [of "x div 2" "x div 2"] s)
qed simp

lemma route_left:
  "i < 2 ^ d \<Longrightarrow> 2 ^ d \<le> fin \<Longrightarrow> fin < 2 * 2 ^ d \<Longrightarrow> route i fin = route i (2 ^ d - 1) @ [False]"
proof (induction d arbitrary: i fin)
  case 0
  then have "i = 0" "fin = 1" by simp_all
  then show ?case by (simp add: route_even)
next
  case (Suc d)
  have half: "(2 ^ Suc d - 1) div 2 = (2::nat) ^ d - 1" by simp
  have ih: "route (i div 2) (fin div 2) = route (i div 2) (2 ^ d - 1) @ [False]"
    using Suc.prems by (intro Suc.IH) auto
  have pos: "0 < fin" "i \<noteq> fin" "0 < (2::nat) ^ Suc d - 1"
    using Suc.prems one_le_power [of "2::nat" d] unfolding power_Suc by linarith+
  show ?case
  proof (cases "odd i")
    case True
    with pos ih show ?thesis by (simp only: route_odd half append_Cons simp_thms)
  next
    case False
    have "odd ((2::nat) ^ Suc d - 1)" by simp
    with False have "i \<noteq> 2 ^ Suc d - 1" by auto
    with False pos ih show ?thesis by (simp only: route_even half append_Cons simp_thms)
  qed
qed

lemma route_right:
  "j \<le> r \<Longrightarrow> r < 2 ^ d \<Longrightarrow> route (2 ^ d + j) (2 ^ d + r) = route j r @ [True]"
proof (induction d arbitrary: j r)
  case 0
  then show ?case by (simp add: route_odd)
next
  case (Suc d)
  have half: "(2 ^ Suc d + x) div 2 = (2::nat) ^ d + x div 2" for x by simp
  have ih: "route (2 ^ d + j div 2) (2 ^ d + r div 2) = route (j div 2) (r div 2) @ [True]"
    using Suc.prems by (intro Suc.IH) auto
  consider "odd j" | "even j" "j \<noteq> r" | "even j" "j = r" by blast
  then show ?case
  proof cases
    case 1
    with Suc.prems have "0 < r" by (auto elim: oddE)
    with 1 ih show ?thesis by (simp add: route_odd half del: power_Suc)
  next
    case 2
    with Suc.prems have "0 < r" by simp
    with 2 ih show ?thesis by (simp add: route_even half del: power_Suc)
  next
    case 3
    then have "even (2 ^ Suc d + j)" by simp
    with 3 ih show ?thesis
      using route_last_even [of "2 ^ Suc d + j"] route_last_even [of j] by (simp only: half)
  qed
qed

text \<open>The top-down routes: to a leaf, and to the subtree that ends the older tree.\<close>

function dirs :: "nat \<Rightarrow> nat \<Rightarrow> bool list" where
  "dirs i n =
     (if n \<le> 1 then []
      else if i < split n then dirs i (split n) @ [False]
      else dirs (i - split n) (n - split n) @ [True])"
  by pat_completeness auto
termination by (relation "measure snd") (auto simp: split_measure split_bounds)

declare dirs.simps [simp del]

lemma split_cases:
  assumes "1 < n"
  obtains d r where "split n = 2 ^ d" "n = 2 ^ d + r" "0 < r" "r \<le> 2 ^ d"
proof -
  obtain d where d: "split n = 2 ^ d" "2 ^ d < n" "n \<le> 2 * 2 ^ d"
    using split_bounds [OF assms] by auto
  have "n = 2 ^ d + (n - 2 ^ d)" "0 < n - 2 ^ d" "n - 2 ^ d \<le> 2 ^ d" using d by auto
  with d(1) show ?thesis by (rule that)
qed

lemma route_dirs: "i < n \<Longrightarrow> route i (n - 1) = dirs i n"
proof (induction n arbitrary: i rule: less_induct)
  case (less n)
  show ?case
  proof (cases "n \<le> 1")
    case True
    with less.prems show ?thesis by (simp add: dirs.simps [of i])
  next
    case False
    then obtain d r where n: "split n = 2 ^ d" "n = 2 ^ d + r" "0 < r" "r \<le> 2 ^ d"
      using split_cases [of n] by auto
    show ?thesis
    proof (cases "i < 2 ^ d")
      case True
      have "route i (n - 1) = route i (2 ^ d - 1) @ [False]"
        using True n by (intro route_left) auto
      also have "route i (2 ^ d - 1) = dirs i (2 ^ d)"
        using True n by (intro less.IH) auto
      finally show ?thesis using True False n(1) by (simp add: dirs.simps [of i n])
    next
      case ge: False
      then obtain j where j: "i = 2 ^ d + j" using le_Suc_ex [of "2 ^ d" i] by auto
      have "route i (n - 1) = route (2 ^ d + j) (2 ^ d + (r - 1))" using j n by simp
      also have "\<dots> = route j (r - 1) @ [True]"
        using less.prems j n by (intro route_right) auto
      also have "route j (r - 1) = dirs j r"
        using less.prems j n by (intro less.IH) auto
      finally show ?thesis
        using ge False n(1,2) j by (simp add: dirs.simps [of "2 ^ d + j" "2 ^ d + r"])
    qed
  qed
qed

section \<open>Recomputing roots\<close>

text \<open>One step of a verifier hashes \<^term>\<open>hop h st\<close>; a climb is a sequence of steps.\<close>

definition hop :: "bytes \<Rightarrow> bool \<times> bytes \<Rightarrow> bytes" where
  "hop h st = (if fst st then node_preimage (snd st) h else node_preimage h (snd st))"

definition climb :: "crypto \<Rightarrow> bytes \<Rightarrow> (bool \<times> bytes) list \<Rightarrow> bytes" where
  "climb C h steps = foldl (\<lambda>h st. sha256 C (hop h st)) h steps"

definition climb_old :: "crypto \<Rightarrow> bytes \<Rightarrow> (bool \<times> bytes) list \<Rightarrow> bytes" where
  "climb_old C h steps = climb C h (filter fst steps)"

lemma climb_simps [simp]:
  "climb C h [] = h"
  "climb C h (st # steps) = climb C (sha256 C (hop h st)) steps"
  "climb C h (steps @ [st]) = sha256 C (hop (climb C h steps) st)"
  "climb_old C h [] = h"
  "climb_old C h (st # steps) = (if fst st then climb_old C (sha256 C (hop h st)) steps else climb_old C h steps)"
  "climb_old C h (steps @ [st]) = (if fst st then sha256 C (hop (climb_old C h steps) st) else climb_old C h steps)"
  by (simp_all add: climb_def climb_old_def)

text \<open>The inputs a verifier hashes, and the inputs the tree over some leaves hashes.\<close>

fun climb_inputs :: "crypto \<Rightarrow> bytes \<Rightarrow> (bool \<times> bytes) list \<Rightarrow> bytes set" where
  "climb_inputs C h [] = {}"
| "climb_inputs C h (st # steps) = insert (hop h st) (climb_inputs C (sha256 C (hop h st)) steps)"

lemma climb_inputs_snoc [simp]:
  "climb_inputs C h (steps @ [st]) = insert (hop (climb C h steps) st) (climb_inputs C h steps)"
  by (induction steps arbitrary: h) auto

function tree_inputs :: "crypto \<Rightarrow> bytes list \<Rightarrow> bytes set" where
  "tree_inputs C ls =
     (if length ls \<le> 1 then {}
      else let k = split (length ls)
           in insert (node_preimage (root_range C (take k ls)) (root_range C (drop k ls)))
                (tree_inputs C (take k ls) \<union> tree_inputs C (drop k ls)))"
  by pat_completeness auto
termination
  by (relation "measure (\<lambda>(C, ls). length ls)") (auto simp: split_measure)

declare tree_inputs.simps [simp del]

lemma root_range_1: "length ls = 1 \<Longrightarrow> root_range C ls = ls ! 0"
  by (simp add: root_range.simps)

lemma root_range_split:
  "1 < length ls \<Longrightarrow>
    root_range C ls = sha256 C (node_preimage (root_range C (take (split (length ls)) ls))
                                              (root_range C (drop (split (length ls)) ls)))"
  by (subst root_range.simps) (auto simp: node_hash_def Let_def)

lemma inclusion_loop_route:
  "inclusion_loop C node fin h proof = Some (0, h') \<longleftrightarrow>
     length proof = length (route node fin) \<and> h' = climb C h (zip (route node fin) proof)"
proof (induction C node fin h "proof" rule: inclusion_loop.induct)
  case (1 C node fin h)
  then show ?case by (auto simp: route.simps [of node fin] Let_def split: prod.splits)
next
  case (2 C node fin h s ps)
  show ?case
  proof (cases "fin = 0")
    case False
    show ?thesis
    proof (cases "odd node \<or> node = fin")
      case True
      obtain node' fin' where s: "shift_even node fin = (node', fin')" by force
      show ?thesis
        using 2(1) [OF False True s [symmetric] refl] False True s
        by (simp add: route.simps [of node fin] node_hash_def hop_def)
    next
      case step: False
      show ?thesis
        using 2(2) [OF False step] False step
        by (simp add: route.simps [of node fin] node_hash_def hop_def)
    qed
  qed simp
qed

lemma verify_inclusion_iff:
  "verify_inclusion C leaf index sz proof root \<longleftrightarrow>
     index < sz \<and> length proof = length (dirs (unat index) (unat sz))
     \<and> climb C leaf (zip (dirs (unat index) (unat sz)) proof) = root"
proof (cases "index < sz")
  case True
  then have lt: "unat index < unat sz" by (simp add: word_less_nat_alt)
  have "verify_inclusion C leaf index sz proof root \<longleftrightarrow>
      inclusion_loop C (unat index) (unat sz - 1) leaf proof = Some (0, root)"
    using True by (auto simp: verify_inclusion_def split: option.splits)
  with True show ?thesis unfolding inclusion_loop_route route_dirs [OF lt] by auto
qed (simp add: verify_inclusion_def not_less)

lemma climb_path:
  "i < length ls \<Longrightarrow> length (path C ls i) = length (dirs i (length ls))
    \<and> climb C (ls ! i) (zip (dirs i (length ls)) (path C ls i)) = root_range C ls"
proof (induction C ls i rule: path.induct)
  case (1 C ls i)
  let ?n = "length ls" let ?k = "split (length ls)"
  show ?case
  proof (cases "?n \<le> 1")
    case True
    with 1(3) have "?n = 1" "i = 0" by auto
    then show ?thesis by (simp add: path.simps [of C ls] dirs.simps [of 0] root_range_1)
  next
    case False
    then have k: "0 < ?k" "?k < ?n" and n: "1 < ?n" using split_bounds [of ?n] by auto
    show ?thesis
    proof (cases "i < ?k")
      case True
      with 1(1) [OF refl False refl True] False k show ?thesis
        by (simp add: path.simps [of C ls i] dirs.simps [of i ?n] root_range_split [OF n] hop_def Let_def)
    next
      case ge: False
      with 1(2) [OF refl False refl ge] 1(3) False k show ?thesis
        by (simp add: path.simps [of C ls i] dirs.simps [of i ?n] root_range_split [OF n] hop_def Let_def)
    qed
  qed
qed

text \<open>Well-formed hashes are 32 bytes; the components of a node preimage are then determined.\<close>

definition hashes :: "bytes list \<Rightarrow> bool" where
  "hashes hs \<longleftrightarrow> (\<forall>h \<in> set hs. length h = 32)"

lemma hashes_simps [simp]:
  "hashes []" "hashes (h # hs) \<longleftrightarrow> length h = 32 \<and> hashes hs"
  "hashes (xs @ ys) \<longleftrightarrow> hashes xs \<and> hashes ys"
  "hashes ls \<Longrightarrow> hashes (take k ls)" "hashes ls \<Longrightarrow> hashes (drop k ls)"
  by (auto simp: hashes_def dest: in_set_takeD in_set_dropD)

lemma node_preimage_inject:
  "length a = 32 \<Longrightarrow> length c = 32 \<Longrightarrow> node_preimage a b = node_preimage c d \<longleftrightarrow> a = c \<and> b = d"
  by (simp add: node_preimage_def)

lemma root_range_length: "hash_contract C \<Longrightarrow> hashes ls \<Longrightarrow> length (root_range C ls) = 32"
  by (subst root_range.simps)
    (auto simp: node_hash_def empty_root_def sha256_length hashes_def Let_def)

lemma climb_length:
  "hash_contract C \<Longrightarrow> length h = 32 \<Longrightarrow> length (climb C h steps) = 32"
  by (cases steps rule: rev_cases) (auto simp: sha256_length)

lemma climb_sound:
  assumes "hash_contract C"
  shows "i < length ls \<Longrightarrow> hashes ls \<Longrightarrow> length h = 32 \<Longrightarrow> hashes ps \<Longrightarrow>
    length ps = length (dirs i (length ls)) \<Longrightarrow>
    climb C h (zip (dirs i (length ls)) ps) = root_range C ls \<Longrightarrow>
    inj_on (sha256 C) (climb_inputs C h (zip (dirs i (length ls)) ps) \<union> tree_inputs C ls) \<Longrightarrow>
    h = ls ! i"
proof (induction ls arbitrary: i ps rule: length_induct)
  case (1 ls)
  let ?n = "length ls" let ?k = "split (length ls)"
  show ?case
  proof (cases "?n \<le> 1")
    case True
    with 1(2) have "?n = 1" "i = 0" by auto
    with 1(7) show ?thesis by (simp add: dirs.simps [of 0] root_range_1)
  next
    case False
    then have k: "0 < ?k" "?k < ?n" and n: "1 < ?n" using split_bounds [of ?n] by auto
    define side where "side = (\<not> i < ?k)"
    define sub where "sub = (if side then drop ?k ls else take ?k ls)"
    define j where "j = (if side then i - ?k else i)"
    have d: "dirs i ?n = dirs j (length sub) @ [side]"
      using False k by (simp add: dirs.simps [of i ?n] side_def sub_def j_def)
    with 1(6) obtain qs s where ps: "ps = qs @ [s]" "length qs = length (dirs j (length sub))"
      by (cases ps rule: rev_cases) auto
    let ?L = "root_range C (take ?k ls)" let ?R = "root_range C (drop ?k ls)"
    let ?steps = "zip (dirs j (length sub)) qs"
    have t: "tree_inputs C ls = insert (node_preimage ?L ?R)
        (tree_inputs C (take ?k ls) \<union> tree_inputs C (drop ?k ls))"
      using False by (subst tree_inputs.simps) (simp add: Let_def)
    have "sha256 C (hop (climb C h ?steps) (side, s)) = sha256 C (node_preimage ?L ?R)"
      using 1(7) by (simp add: d ps root_range_split [OF n])
    then have "hop (climb C h ?steps) (side, s) = node_preimage ?L ?R"
      by (rule inj_onD [OF 1(8)]) (simp_all add: d ps t)
    moreover have "length (climb C h ?steps) = 32" "length s = 32" "length ?L = 32"
      using assms 1(3,4,5) ps by (simp_all add: climb_length root_range_length)
    ultimately have "climb C h ?steps = root_range C sub"
      by (auto simp: hop_def sub_def node_preimage_inject split: if_splits)
    moreover have "inj_on (sha256 C) (climb_inputs C h ?steps \<union> tree_inputs C sub)"
      using 1(8) by (rule inj_on_subset) (auto simp: d ps t sub_def)
    moreover have "length sub < length ls" "j < length sub" "hashes sub" "hashes qs"
      using 1(2,3,5) ps k by (auto simp: sub_def j_def side_def)
    ultimately have "h = sub ! j"
      using 1(4) ps(2) by (intro 1(1) [rule_format, of sub j qs]) simp_all
    with 1(2) k show ?thesis by (auto simp: sub_def j_def side_def)
  qed
qed

section \<open>Consistency\<close>

definition stripped_route :: "nat \<Rightarrow> nat \<Rightarrow> bool list" where
  "stripped_route node fin = (case strip_odd node fin of (node', fin') \<Rightarrow> route node' fin')"

lemma stripped_route_simps:
  "odd node \<Longrightarrow> stripped_route node fin = stripped_route (node div 2) (fin div 2)"
  "even node \<Longrightarrow> stripped_route node fin = route node fin"
  by (simp_all add: stripped_route_def strip_odd.simps [of node])

lemma stripped_route_full: "stripped_route (2 ^ d - 1) (2 ^ d - 1) = []"
proof (induction d)
  case (Suc d)
  have "odd ((2::nat) ^ Suc d - 1)" "((2::nat) ^ Suc d - 1) div 2 = 2 ^ d - 1" by simp_all
  with Suc show ?case by (simp only: stripped_route_simps simp_thms)
qed (simp add: stripped_route_simps)

lemma stripped_route_left:
  "i < 2 ^ d \<Longrightarrow> 2 ^ d \<le> fin \<Longrightarrow> fin < 2 * 2 ^ d \<Longrightarrow>
    stripped_route i fin = stripped_route i (2 ^ d - 1) @ [False]"
proof (induction d arbitrary: i fin)
  case 0
  then have "i = 0" "fin = 1" by simp_all
  then show ?case by (simp add: stripped_route_simps route_even)
next
  case (Suc d)
  show ?case
  proof (cases "odd i")
    case True
    have half: "(2 ^ Suc d - 1) div 2 = (2::nat) ^ d - 1" by simp
    have "stripped_route (i div 2) (fin div 2) = stripped_route (i div 2) (2 ^ d - 1) @ [False]"
      using Suc.prems by (intro Suc.IH) auto
    with True show ?thesis by (simp only: stripped_route_simps half simp_thms)
  next
    case False
    then show ?thesis using route_left [OF Suc.prems] by (simp only: stripped_route_simps simp_thms)
  qed
qed

lemma stripped_route_right:
  "j < r \<Longrightarrow> r < 2 ^ d \<Longrightarrow> stripped_route (2 ^ d + j) (2 ^ d + r) = stripped_route j r @ [True]"
proof (induction d arbitrary: j r)
  case (Suc d)
  have half: "(2 ^ Suc d + x) div 2 = (2::nat) ^ d + x div 2" for x by simp
  have parity: "odd (2 ^ Suc d + j) \<longleftrightarrow> odd j" by simp
  show ?case
  proof (cases "odd j")
    case True
    then have "j div 2 < r div 2" using Suc.prems(1) by (auto elim!: oddE)
    then have "stripped_route (2 ^ d + j div 2) (2 ^ d + r div 2) = stripped_route (j div 2) (r div 2) @ [True]"
      using Suc.prems by (intro Suc.IH) auto
    with True parity show ?thesis by (simp only: stripped_route_simps half simp_thms)
  next
    case False
    then show ?thesis
      using route_right [of j r "Suc d"] Suc.prems parity by (simp only: stripped_route_simps simp_thms less_imp_le)
  qed
qed simp

function cdirs :: "nat \<Rightarrow> nat \<Rightarrow> bool list" where
  "cdirs m n =
     (if m = n \<or> n \<le> 1 then []
      else if m \<le> split n then cdirs m (split n) @ [False]
      else cdirs (m - split n) (n - split n) @ [True])"
  by pat_completeness auto
termination by (relation "measure snd") (auto simp: split_measure split_bounds)

declare cdirs.simps [simp del]

lemma stripped_route_cdirs:
  "0 < m \<Longrightarrow> m < n \<or> (\<exists>d. m = 2 ^ d \<and> n = 2 ^ d) \<Longrightarrow> stripped_route (m - 1) (n - 1) = cdirs m n"
proof (induction n arbitrary: m rule: less_induct)
  case (less n)
  show ?case
  proof (cases "m = n")
    case True
    with less.prems obtain d where "m = 2 ^ d" by auto
    with True show ?thesis using stripped_route_full [of d] by (simp add: cdirs.simps [of n n])
  next
    case False
    with less.prems have mn: "m < n" "1 < n" by auto
    then obtain d r where n: "split n = 2 ^ d" "n = 2 ^ d + r" "0 < r" "r \<le> 2 ^ d"
      using split_cases [of n] by auto
    show ?thesis
    proof (cases "m \<le> 2 ^ d")
      case True
      have "stripped_route (m - 1) (n - 1) = stripped_route (m - 1) (2 ^ d - 1) @ [False]"
        using True n less.prems(1) by (intro stripped_route_left) auto
      also have "stripped_route (m - 1) (2 ^ d - 1) = cdirs m (2 ^ d)"
        using True n less.prems(1) by (intro less.IH) auto
      finally show ?thesis using True mn n(1) by (simp add: cdirs.simps [of m n])
    next
      case gt: False
      then obtain j where j: "m = 2 ^ d + j" "0 < j" using less_imp_add_positive [of "2 ^ d" m] by auto
      have "stripped_route (m - 1) (n - 1) = stripped_route (2 ^ d + (j - 1)) (2 ^ d + (r - 1))"
        using j n by simp
      also have "\<dots> = stripped_route (j - 1) (r - 1) @ [True]"
        using mn j n by (intro stripped_route_right) auto
      also have "stripped_route (j - 1) (r - 1) = cdirs j r"
        using mn j n by (intro less.IH) auto
      finally show ?thesis
        using gt mn n(1,2) j by (simp add: cdirs.simps [of "2 ^ d + j" "2 ^ d + r"])
    qed
  qed
qed

lemma consistency_loop_route:
  "consistency_loop C node fin oh nh proof = Some (0, oh', nh') \<longleftrightarrow>
     length proof = length (route node fin)
     \<and> oh' = climb_old C oh (zip (route node fin) proof)
     \<and> nh' = climb C nh (zip (route node fin) proof)"
proof (induction C node fin oh nh "proof" rule: consistency_loop.induct)
  case (1 C node fin oh nh)
  then show ?case by (auto simp: route.simps [of node fin] Let_def split: prod.splits)
next
  case (2 C node fin oh nh s ps)
  show ?case
  proof (cases "fin = 0")
    case False
    show ?thesis
    proof (cases "odd node \<or> node = fin")
      case True
      obtain node' fin' where s: "shift_even node fin = (node', fin')" by force
      show ?thesis
        using 2(1) [OF False True s [symmetric] refl] False True s
        by (simp add: route.simps [of node fin] node_hash_def hop_def)
    next
      case step: False
      show ?thesis
        using 2(2) [OF False step] False step
        by (simp add: route.simps [of node fin] node_hash_def hop_def)
    qed
  qed simp
qed

text \<open>The hash list the verifier works on, with the root of a perfect older tree put back.\<close>

definition full_proof :: "u64 \<Rightarrow> bytes \<Rightarrow> bytes list \<Rightarrow> bytes list" where
  "full_proof old old_root proof = (if is_power_of_two old then old_root # proof else proof)"

lemma verify_consistency_iff:
  assumes "0 < unat old" "unat old < unat new"
  shows "verify_consistency C old old_root new new_root proof \<longleftrightarrow>
    (\<exists>first rest. full_proof old old_root proof = first # rest
       \<and> length rest = length (cdirs (unat old) (unat new))
       \<and> climb_old C first (zip (cdirs (unat old) (unat new)) rest) = old_root
       \<and> climb C first (zip (cdirs (unat old) (unat new)) rest) = new_root)"
proof -
  have guards: "old \<noteq> 0" "\<not> new < old" "old \<noteq> new"
    using assms by (auto simp: word_less_nat_alt)
  obtain node fin where s: "strip_odd (unat old - 1) (unat new - 1) = (node, fin)" by force
  have r: "route node fin = cdirs (unat old) (unat new)"
    using stripped_route_cdirs [of "unat old" "unat new"] assms s by (simp add: stripped_route_def)
  have loop: "(case consistency_loop C node fin first first rest of None \<Rightarrow> False
      | Some (fin', oh, nh) \<Rightarrow> fin' = 0 \<and> oh = old_root \<and> nh = new_root)
    \<longleftrightarrow> consistency_loop C node fin first first rest = Some (0, old_root, new_root)" for first rest
    by (auto split: option.splits)
  show ?thesis
    using guards s
    unfolding verify_consistency_def full_proof_def [symmetric]
    by (auto simp: loop consistency_loop_route r split: list.splits)
qed


lemma is_power_of_two_iff: "is_power_of_two w \<longleftrightarrow> (\<exists>e. unat w = 2 ^ e)"
proof
  assume "is_power_of_two w"
  then obtain e where e: "filter (bit w) [0..<64] = [e]"
    by (auto simp: is_power_of_two_def count_ones_def length_Suc_conv)
  have bits: "bit w i \<longleftrightarrow> i = e" if "i < 64" for i
    using that arg_cong [OF e, of set] by auto
  have "e < 64" using arg_cong [OF e, of set] by auto
  have "unat w = 2 ^ e"
  proof (rule bit_eqI)
    fix i
    show "bit (unat w) i \<longleftrightarrow> bit ((2::nat) ^ e) i"
      using bits [of i] \<open>e < 64\<close> bit_imp_le_length [of w i]
      by (auto simp: bit_unsigned_iff bit_exp_iff)
  qed
  then show "\<exists>e. unat w = 2 ^ e" ..
next
  assume "\<exists>e. unat w = 2 ^ e"
  then obtain e where e: "unat w = 2 ^ e" ..
  then have "(2::nat) ^ e < 2 ^ 64" using unat_lt2p [of w] by simp
  then have "e < 64" by (simp only: power_strict_increasing_iff)
  have "filter (bit w) [0..<64] = filter (\<lambda>i. i = e) [0..<64]"
  proof (rule filter_cong)
    fix i assume "i \<in> set [0..<64::nat]"
    have "bit w i \<longleftrightarrow> bit (unat w) i" by (simp add: bit_unsigned_iff)
    then show "bit w i \<longleftrightarrow> i = e" by (auto simp: e bit_exp_iff)
  qed simp
  also have "\<dots> = [e]"
    using \<open>e < 64\<close> by (rule filter_upt_single)
  finally show "is_power_of_two w" by (simp add: is_power_of_two_def count_ones_def)
qed

lemma split_between: "split n < m \<Longrightarrow> m \<le> n \<Longrightarrow> 1 < n \<Longrightarrow> split m = split n"
  using split_bounds [of n] by (metis order_trans split_unique)

lemma root_range_take:
  assumes "split (length ls) < m" "m \<le> length ls" "1 < length ls"
  shows "root_range C (take m ls) = sha256 C (node_preimage (root_range C (take (split (length ls)) ls))
    (root_range C (take (m - split (length ls)) (drop (split (length ls)) ls))))"
proof -
  let ?k = "split (length ls)"
  have "0 < ?k" using split_bounds [OF assms(3)] by simp
  with assms have "1 < length (take m ls)" "split (length (take m ls)) = ?k"
    using split_between [OF assms(1,2,3)] by auto
  then show ?thesis
    using assms by (subst root_range_split) (simp_all add: min_absorb2 drop_take)
qed

lemma consistency_climb:
  "0 < m \<Longrightarrow> m \<le> length ls \<Longrightarrow>
    \<exists>first rest. consistency C ls m False = first # rest \<and> length rest = length (cdirs m (length ls))
      \<and> climb C first (zip (cdirs m (length ls)) rest) = root_range C ls
      \<and> climb_old C first (zip (cdirs m (length ls)) rest) = root_range C (take m ls)"
proof (induction ls arbitrary: m rule: length_induct)
  case (1 ls)
  let ?n = "length ls" let ?k = "split (length ls)"
  show ?case
  proof (cases "m = ?n")
    case True
    then show ?thesis by (simp add: consistency.simps [of C ls] cdirs.simps [of ?n ?n])
  next
    case False
    with 1(2,3) have n: "1 < ?n" by simp
    then have k: "0 < ?k" "?k < ?n" using split_bounds [of ?n] by auto
    show ?thesis
    proof (cases "m \<le> ?k")
      case True
      with 1(1) [rule_format, of "take ?k ls" m] 1(2) k
      obtain first rest where ih: "consistency C (take ?k ls) m False = first # rest"
        "length rest = length (cdirs m ?k)" "climb C first (zip (cdirs m ?k) rest) = root_range C (take ?k ls)"
        "climb_old C first (zip (cdirs m ?k) rest) = root_range C (take m ls)"
        by (auto simp: min_absorb1 min_absorb2)
      with True False n show ?thesis
        by (simp add: consistency.simps [of C ls] cdirs.simps [of m ?n] root_range_split [OF n] hop_def Let_def)
    next
      case gt: False
      then have "length (drop ?k ls) < ?n" "0 < m - ?k" "m - ?k \<le> length (drop ?k ls)"
        using 1(3) k by auto
      from 1(1) [rule_format, OF this]
      obtain first rest where ih: "consistency C (drop ?k ls) (m - ?k) False = first # rest"
        "length rest = length (cdirs (m - ?k) (?n - ?k))"
        "climb C first (zip (cdirs (m - ?k) (?n - ?k)) rest) = root_range C (drop ?k ls)"
        "climb_old C first (zip (cdirs (m - ?k) (?n - ?k)) rest) = root_range C (take (m - ?k) (drop ?k ls))"
        by auto
      with gt False n 1(3) show ?thesis
        by (simp add: consistency.simps [of C ls] cdirs.simps [of m ?n] root_range_split [OF n]
            root_range_take hop_def Let_def)
    qed
  qed
qed

lemma consistency_root_omitted:
  "0 < m \<Longrightarrow> m < length ls \<or> (\<exists>e. m = 2 ^ e \<and> length ls = 2 ^ e) \<Longrightarrow>
    consistency C ls m False =
      (if \<exists>e. m = 2 ^ e then root_range C (take m ls) # consistency C ls m True else consistency C ls m True)"
proof (induction ls arbitrary: m rule: length_induct)
  case (1 ls)
  let ?n = "length ls" let ?k = "split (length ls)"
  show ?case
  proof (cases "m = ?n")
    case True
    with 1(3) show ?thesis by (auto simp: consistency.simps [of C ls])
  next
    case False
    with 1(2,3) have n: "1 < ?n" "m < ?n" by auto
    then obtain d where d: "?k = 2 ^ d" "2 ^ d < ?n" "?n \<le> 2 * 2 ^ d" using split_bounds [of ?n] by metis
    show ?thesis
    proof (cases "m \<le> ?k")
      case True
      then have "m < ?k \<or> (\<exists>e. m = 2 ^ e \<and> ?k = 2 ^ e)" using d(1) by auto
      with 1(1) [rule_format, of "take ?k ls" m] 1(2) d True False n show ?thesis
        by (simp add: consistency.simps [of C ls] min_absorb1 min_absorb2 Let_def)
    next
      case gt: False
      have "m \<noteq> 2 ^ e" for e
      proof
        assume e: "m = 2 ^ e"
        with gt d n have "(2::nat) ^ d < 2 ^ e" "(2::nat) ^ e < 2 ^ Suc d" by auto
        then have "d < e" "e < Suc d" by (simp_all only: power_strict_increasing_iff)
        then show False by simp
      qed
      with gt False n show ?thesis by (simp add: consistency.simps [of C ls] Let_def)
    qed
  qed
qed

lemma consistency_sound:
  assumes "hash_contract C" "length first = 32"
  shows "0 < m \<Longrightarrow> m \<le> length ls \<Longrightarrow> hashes ls \<Longrightarrow> hashes ps \<Longrightarrow>
    length ps = length (cdirs m (length ls)) \<Longrightarrow>
    climb C first (zip (cdirs m (length ls)) ps) = root_range C ls \<Longrightarrow>
    inj_on (sha256 C) (climb_inputs C first (zip (cdirs m (length ls)) ps) \<union> tree_inputs C ls) \<Longrightarrow>
    climb_old C first (zip (cdirs m (length ls)) ps) = root_range C (take m ls)"
proof (induction ls arbitrary: m ps rule: length_induct)
  case (1 ls)
  let ?n = "length ls" let ?k = "split (length ls)"
  show ?case
  proof (cases "m = ?n")
    case True
    with 1(7) show ?thesis by (simp add: cdirs.simps [of ?n ?n])
  next
    case False
    with 1(2,3) have n: "1 < ?n" by simp
    then have k: "0 < ?k" "?k < ?n" using split_bounds [of ?n] by auto
    define side where "side = (\<not> m \<le> ?k)"
    define sub where "sub = (if side then drop ?k ls else take ?k ls)"
    define j where "j = (if side then m - ?k else m)"
    have d: "cdirs m ?n = cdirs j (length sub) @ [side]"
      using False k n by (simp add: cdirs.simps [of m ?n] side_def sub_def j_def min_absorb2)
    with 1(6) obtain qs s where ps: "ps = qs @ [s]" "length qs = length (cdirs j (length sub))"
      by (cases ps rule: rev_cases) auto
    let ?L = "root_range C (take ?k ls)" let ?R = "root_range C (drop ?k ls)"
    let ?steps = "zip (cdirs j (length sub)) qs"
    have t: "tree_inputs C ls = insert (node_preimage ?L ?R)
        (tree_inputs C (take ?k ls) \<union> tree_inputs C (drop ?k ls))"
      using n by (subst tree_inputs.simps) (simp add: Let_def)
    have "sha256 C (hop (climb C first ?steps) (side, s)) = sha256 C (node_preimage ?L ?R)"
      using 1(7) by (simp add: d ps root_range_split [OF n])
    then have "hop (climb C first ?steps) (side, s) = node_preimage ?L ?R"
      by (rule inj_onD [OF 1(8)]) (simp_all add: d ps t)
    moreover have "length (climb C first ?steps) = 32" "length s = 32" "length ?L = 32"
      using assms 1(4,5) ps by (simp_all add: climb_length root_range_length)
    ultimately have sub: "climb C first ?steps = root_range C sub" and s: "side \<Longrightarrow> s = ?L"
      by (auto simp: hop_def sub_def node_preimage_inject split: if_splits)
    have "inj_on (sha256 C) (climb_inputs C first ?steps \<union> tree_inputs C sub)"
      using 1(8) by (rule inj_on_subset) (auto simp: d ps t sub_def)
    moreover have "length sub < ?n" "0 < j" "j \<le> length sub" "hashes sub" "hashes qs"
      using 1(2,3,4,5) ps k by (auto simp: sub_def j_def side_def)
    ultimately have "climb_old C first ?steps = root_range C (take j sub)"
      using ps(2) sub by (intro 1(1) [rule_format, of sub j qs]) simp_all
    then show ?thesis
      using s 1(3) n by (simp add: d ps hop_def root_range_take sub_def j_def side_def min_absorb1 split: if_splits)
  qed
qed

lemma root_range_inject:
  assumes "hash_contract C"
  shows "length xs = length ys \<Longrightarrow> hashes xs \<Longrightarrow> hashes ys \<Longrightarrow> root_range C xs = root_range C ys \<Longrightarrow>
    inj_on (sha256 C) (tree_inputs C xs \<union> tree_inputs C ys) \<Longrightarrow> xs = ys"
proof (induction xs arbitrary: ys rule: length_induct)
  case (1 xs)
  let ?n = "length xs" let ?k = "split (length xs)"
  consider "?n = 0" | "?n = 1" | "1 < ?n" by linarith
  then show ?case
  proof cases
    case 2
    then obtain x y where "xs = [x]" "ys = [y]" using 1(2) by (auto simp: length_Suc_conv)
    with 1(5) show ?thesis by (simp add: root_range_1)
  next
    case 3
    then have k: "0 < ?k" "?k < ?n" using split_bounds [of ?n] by auto
    have t: "tree_inputs C zs = insert (node_preimage (root_range C (take ?k zs)) (root_range C (drop ?k zs)))
        (tree_inputs C (take ?k zs) \<union> tree_inputs C (drop ?k zs))" if "length zs = ?n" for zs
      using that 3 by (subst tree_inputs.simps) (simp add: Let_def)
    have "node_preimage (root_range C (take ?k xs)) (root_range C (drop ?k xs))
        = node_preimage (root_range C (take ?k ys)) (root_range C (drop ?k ys))"
      by (rule inj_onD [OF 1(6)])
        (use 1(2,5) 3 in \<open>simp_all add: t root_range_split [of xs] root_range_split [of ys]\<close>)
    then have eq: "root_range C (take ?k xs) = root_range C (take ?k ys)"
        "root_range C (drop ?k xs) = root_range C (drop ?k ys)"
      using assms 1(3,4) by (simp_all add: node_preimage_inject root_range_length)
    have "take ?k xs = take ?k ys"
      by (rule 1(1) [rule_format]) (use 1(2,3,4,6) eq k in \<open>auto simp: t intro: inj_on_subset\<close>)
    moreover have "drop ?k xs = drop ?k ys"
      by (rule 1(1) [rule_format]) (use 1(2,3,4,6) eq k in \<open>auto simp: t intro: inj_on_subset\<close>)
    ultimately show ?thesis by (metis append_take_drop_id)
  qed (use 1(2) in simp)
qed

lemma log_root_eq: "log_root C log = root_range C (leaves log)"
  by (simp add: log_root_def root_of_def root_range.simps [of C "[]"])

text \<open>
  An accepted consistency proof ends in the root of the newer log only if it started from the root of
  the newer log's prefix of the older size.
\<close>

lemma consistency_root_prefix:
  assumes "hash_contract C" "hashes (leaves newer)" "hashes proof" "length (leaves newer) = unat new"
    and "verify_consistency C old r new (log_root C newer) proof" "length r = 32"
    and "inj_on (sha256 C) (climb_inputs C (hd (full_proof old r proof))
             (zip (cdirs (unat old) (unat new)) (tl (full_proof old r proof))) \<union> tree_inputs C (leaves newer))"
  shows "0 < unat old" "unat old \<le> unat new" "r = root_of C newer (unat old)"
proof -
  let ?new = "leaves newer" let ?m = "unat old"
  have "old \<noteq> 0 \<and> \<not> new < old"
    using assms(5) unfolding verify_consistency_def by presburger
  then show o: "0 < unat old" "unat old \<le> unat new"
    by (simp_all add: word_le_nat_alt not_less unat_gt_0)
  show "r = root_of C newer ?m"
  proof (cases "old = new")
    case True
    with assms(4,5) o show ?thesis by (simp add: verify_consistency_def log_root_def split: if_splits)
  next
    case False
    with o have lt: "unat old < unat new" by (simp add: word_unat_eq_iff)
    obtain first rest where q: "full_proof old r proof = first # rest"
      "length rest = length (cdirs ?m (unat new))"
      "climb_old C first (zip (cdirs ?m (unat new)) rest) = r"
      "climb C first (zip (cdirs ?m (unat new)) rest) = log_root C newer"
      using assms(5) unfolding verify_consistency_iff [OF o(1) lt] by blast
    have "hashes (first # rest)"
      using q(1) assms(3,6) by (auto simp: full_proof_def split: if_splits)
    moreover have "inj_on (sha256 C) (climb_inputs C first (zip (cdirs ?m (unat new)) rest) \<union> tree_inputs C ?new)"
      using assms(7) by (simp add: q(1))
    ultimately show ?thesis
      using consistency_sound [OF assms(1), of first ?m ?new rest] q o assms(2,4)
      by (simp add: log_root_eq root_of_def)
  qed
qed

section \<open>The frontier represents the log\<close>

text \<open>
  Level \<^term>\<open>d\<close> of the peaks stands for a block of \<^term>\<open>2 ^ d\<close> leaves; lower levels hold later leaves.
\<close>

fun blocks :: "crypto \<Rightarrow> nat \<Rightarrow> bytes option list \<Rightarrow> bytes list \<Rightarrow> bool" where
  "blocks C d [] ls \<longleftrightarrow> ls = []"
| "blocks C d (None # ps) ls \<longleftrightarrow> blocks C (Suc d) ps ls"
| "blocks C d (Some h # ps) ls \<longleftrightarrow>
     (\<exists>front block. ls = front @ block \<and> length block = 2 ^ d \<and> h = root_range C block
        \<and> blocks C (Suc d) ps front)"

definition occupancy :: "bytes option list \<Rightarrow> nat" where
  "occupancy ps = horner_sum of_bool 2 (map (\<lambda>p. p \<noteq> None) ps)"

lemma occupancy_simps [simp]:
  "occupancy [] = 0" "occupancy (None # ps) = 2 * occupancy ps"
  "occupancy (Some h # ps) = 1 + 2 * occupancy ps"
  by (simp_all add: occupancy_def)

lemma occupancy_less: "occupancy ps < 2 ^ length ps"
proof (induction ps)
  case (Cons p ps)
  then show ?case by (cases p) auto
qed simp

lemma blocks_length: "blocks C d ps ls \<Longrightarrow> length ls = 2 ^ d * occupancy ps"
  by (induction C d ps ls rule: blocks.induct) (auto simp: algebra_simps)

text \<open>A valid frontier is one whose peaks spell its size in binary.\<close>

lemma validate_iff: "validate F \<longleftrightarrow> length (peaks F) \<le> 64 \<and> occupancy (peaks F) = unat (fsize F)"
proof (cases "length (peaks F) \<le> 64")
  case True
  let ?n = "length (peaks F)" let ?w = "unat (fsize F)"
  have bit: "(drop_bit i (fsize F) AND 1 = 1) \<longleftrightarrow> bit ?w i" for i
    using lowest_bit [of "drop_bit i (fsize F)"]
    by (simp add: unat_drop_bit bit_iff_odd_drop_bit)
  have fits: "(?n = 64 \<or> drop_bit ?n (fsize F) = 0) \<longleftrightarrow> ?w < 2 ^ ?n"
  proof (cases "?n = 64")
    case True
    then show ?thesis using unat_lt2p [of "fsize F"] by simp
  next
    case False
    have "drop_bit ?n (fsize F) = 0 \<longleftrightarrow> unat (drop_bit ?n (fsize F)) = 0" by (simp only: unat_eq_zero)
    also have "\<dots> \<longleftrightarrow> ?w < 2 ^ ?n" 
      unfolding unat_drop_bit by (simp add: drop_bit_eq_div div_eq_0_iff)
    finally show ?thesis using False by simp
  qed
  have "map (\<lambda>p. p \<noteq> None) (peaks F) = map (bit ?w) [0..<?n]
      \<longleftrightarrow> (\<forall>i < ?n. (peaks F ! i \<noteq> None) = bit ?w i)"
    by (rule map_eq_upt_iff)
  then have "validate F \<longleftrightarrow> map (\<lambda>p. p \<noteq> None) (peaks F) = map (bit ?w) [0..<?n] \<and> ?w < 2 ^ ?n"
    unfolding validate_def bit fits using True by blast
  also have "\<dots> \<longleftrightarrow> occupancy (peaks F) = ?w"
  proof
    assume *: "map (\<lambda>p. p \<noteq> None) (peaks F) = map (bit ?w) [0..<?n] \<and> ?w < 2 ^ ?n"
    then have "occupancy (peaks F) = take_bit ?n ?w"
      by (simp add: occupancy_def horner_sum_bit_eq_take_bit)
    with * show "occupancy (peaks F) = ?w" by (simp add: take_bit_nat_eq_self)
  next
    assume *: "occupancy (peaks F) = ?w"
    then have "map (bit ?w) [0..<?n] = map (\<lambda>p. p \<noteq> None) (peaks F)"
      unfolding * [symmetric] occupancy_def
      by (intro nth_equalityI) (simp_all add: bit_horner_sum_bit_iff)
    with * show "map (\<lambda>p. p \<noteq> None) (peaks F) = map (bit ?w) [0..<?n] \<and> ?w < 2 ^ ?n"
      using occupancy_less [of "peaks F"] by simp
  qed
  finally show ?thesis using True by simp
qed (simp add: validate_def)

text \<open>The carry, level by level.\<close>

fun carry :: "crypto \<Rightarrow> bytes \<Rightarrow> bytes option list \<Rightarrow> bytes option list" where
  "carry C h [] = [Some h]"
| "carry C h (None # ps) = Some h # ps"
| "carry C h (Some left # ps) = None # carry C (node_hash C left h) ps"

lemma occupancy_carry: "occupancy (carry C h ps) = Suc (occupancy ps)"
  by (induction C h ps rule: carry.induct) auto

lemma length_carry: "length (carry C h ps) \<le> max (length ps) (Suc (length ps))"
  by (induction C h ps rule: carry.induct) auto

lemma length_carry_bound:
  "occupancy ps \<noteq> 2 ^ length ps - 1 \<Longrightarrow> length (carry C h ps) = length ps"
proof (induction C h ps rule: carry.induct)
  case (3 C h left ps)
  have "1 + 2 * occupancy ps \<noteq> 2 * 2 ^ length ps - 1" using 3(2) by simp
  then have "occupancy ps \<noteq> 2 ^ length ps - 1"
    using one_le_power [of "2::nat" "length ps"] by linarith
  with 3(1) show ?case by simp
qed auto

lemma root_range_join:
  assumes "length xs = 2 ^ d" "0 < length ys" "length ys \<le> 2 ^ d"
  shows "root_range C (xs @ ys) = node_hash C (root_range C xs) (root_range C ys)"
proof -
  have "split (length (xs @ ys)) = 2 ^ d" using assms by (intro split_unique) auto
  moreover have "1 < length (xs @ ys)"
    using assms one_le_power [of "2::nat" d] unfolding length_append by linarith
  ultimately show ?thesis
    using assms(1) by (subst root_range_split) (simp_all add: node_hash_def)
qed

lemma blocks_carry:
  "blocks C d ps ls \<Longrightarrow> length new = 2 ^ d \<Longrightarrow> blocks C d (carry C (root_range C new) ps) (ls @ new)"
proof (induction C d ps ls arbitrary: new rule: blocks.induct)
  case (3 C d h ps ls)
  then obtain front block where b: "ls = front @ block" "length block = 2 ^ d" "h = root_range C block"
    "blocks C (Suc d) ps front" by auto
  have "node_hash C h (root_range C new) = root_range C (block @ new)"
    using b(2,3) 3(3) by (simp add: root_range_join)
  with 3(1) [OF b(4), of "block @ new"] b 3(3) show ?case by auto
qed auto

lemma root_fold_blocks:
  "blocks C d ps ls \<Longrightarrow> 0 < length new \<Longrightarrow> length new \<le> 2 ^ d \<Longrightarrow>
    root_fold C (Some (root_range C new)) ps = Some (root_range C (ls @ new))"
proof (induction C d ps ls arbitrary: new rule: blocks.induct)
  case (3 C d h ps ls)
  then obtain front block where b: "ls = front @ block" "length block = 2 ^ d" "h = root_range C block"
    "blocks C (Suc d) ps front" by auto
  have "node_hash C h (root_range C new) = root_range C (block @ new)"
    using b(2,3) 3(3,4) by (simp add: root_range_join)
  with 3(1) [OF b(4), of "block @ new"] b 3(3,4) show ?case by auto
qed auto

lemma root_fold_blocks_None:
  "blocks C d ps ls \<Longrightarrow> ls \<noteq> [] \<Longrightarrow> root_fold C None ps = Some (root_range C ls)"
proof (induction C d ps ls rule: blocks.induct)
  case (3 C d h ps ls)
  then obtain front block where b: "ls = front @ block" "length block = 2 ^ d" "h = root_range C block"
    "blocks C (Suc d) ps front" by auto
  then show ?case using root_fold_blocks [of C "Suc d" ps front block] by (simp add: length_greater_0_conv)
qed auto

text \<open>Writing the carried hash at its level, growing the list by one when the level is new.\<close>

definition set_peak :: "bytes option list \<Rightarrow> nat \<Rightarrow> bytes \<Rightarrow> bytes option list" where
  "set_peak ps level hash =
     (if length ps \<le> level then ps @ replicate (level + 1 - length ps) None else ps)[level := Some hash]"

lemma carry_loop_carry:
  "level \<le> length ps \<Longrightarrow> unat occupied = occupancy (drop level ps) \<Longrightarrow>
    \<exists>ps' level' hash'. carry_loop C ps level h occupied = (ps', Some (level', hash'))
      \<and> set_peak ps' level' hash' = take level ps @ carry C h (drop level ps)"
proof (induction "length ps - level" arbitrary: ps level h occupied)
  case 0
  then have "level = length ps" "unat occupied = 0" by auto
  then show ?case
    using lowest_bit [of occupied] by (simp add: carry_loop.simps [of C ps] set_peak_def)
next
  case (Suc n)
  then have lt: "level < length ps" by simp
  then have d: "drop level ps = ps ! level # drop (Suc level) ps" by (rule Cons_nth_drop_Suc [symmetric])
  show ?case
  proof (cases "ps ! level")
    case None
    then have "even (unat occupied)" using Suc.prems(2) by (simp add: d)
    with lt None show ?thesis
      using lowest_bit [of occupied]
      by (simp add: carry_loop.simps [of C ps] set_peak_def d upd_conv_take_nth_drop)
  next
    case (Some left)
    let ?ps = "ps[level := None]"
    have o: "unat occupied = 1 + 2 * occupancy (drop (Suc level) ps)"
      using Suc.prems(2) by (simp add: d Some)
    then have odd: "occupied AND 1 = 1" by (simp add: lowest_bit)
    have "unat (drop_bit 1 occupied) = occupancy (drop (Suc level) ?ps)"
      using o unfolding unat_drop_bit by (simp add: drop_bit_eq_div)
    moreover have "n = length ?ps - Suc level" "Suc level \<le> length ?ps" using lt Suc.hyps(2) by auto
    ultimately obtain ps' level' hash' where
      "carry_loop C ?ps (Suc level) (node_hash C left h) (drop_bit 1 occupied) = (ps', Some (level', hash'))"
      "set_peak ps' level' hash' = take (Suc level) ?ps @ carry C (node_hash C left h) (drop (Suc level) ps)"
      using Suc.hyps(1) [of ?ps "Suc level" "drop_bit 1 occupied" "node_hash C left h"] by auto
    with lt odd Some show ?thesis
      by (simp add: carry_loop.simps [of C ps] d take_Suc_conv_app_nth)
  qed
qed

definition frontier_rep :: "crypto \<Rightarrow> frontier \<Rightarrow> bytes list \<Rightarrow> bool" where
  "frontier_rep C F ls \<longleftrightarrow> validate F \<and> blocks C 0 (peaks F) ls"

lemma frontier_rep_size: "frontier_rep C F ls \<Longrightarrow> length ls = unat (fsize F)"
  using blocks_length [of C 0 "peaks F" ls] by (simp add: frontier_rep_def validate_iff)

lemma frontier_rep_root: "frontier_rep C F ls \<Longrightarrow> frontier_root C F = Some (root_range C ls)"
proof -
  assume rep: "frontier_rep C F ls"
  show ?thesis
  proof (cases "ls = []")
    case True
    with frontier_rep_size [OF rep] have "fsize F = 0" by (simp add: unat_eq_zero)
    with rep True show ?thesis by (simp add: frontier_rep_def frontier_root_def root_range.simps [of C "[]"])
  next
    case False
    with frontier_rep_size [OF rep] have "fsize F \<noteq> 0" by auto
    with rep False show ?thesis
      by (auto simp: frontier_rep_def frontier_root_def dest: root_fold_blocks_None)
  qed
qed

lemma append_hash_valid:
  assumes v: "validate F" and room: "fsize F \<noteq> - 1"
  shows "append_hash C h F = (F\<lparr>peaks := carry C h (peaks F), fsize := fsize F + 1\<rparr>, Some (fsize F))"
    and "validate (F\<lparr>peaks := carry C h (peaks F), fsize := fsize F + 1\<rparr>)"
    and "unat (fsize F + 1) = Suc (unat (fsize F))"
proof -
  have n: "length (peaks F) \<le> 64" "occupancy (peaks F) = unat (fsize F)" using v by (auto simp: validate_iff)
  obtain ps level hash where loop: "carry_loop C (peaks F) 0 h (fsize F) = (ps, Some (level, hash))"
    and set: "set_peak ps level hash = carry C h (peaks F)"
    using carry_loop_carry [of 0 "peaks F" "fsize F" C h] n by auto
  show "append_hash C h F = (F\<lparr>peaks := carry C h (peaks F), fsize := fsize F + 1\<rparr>, Some (fsize F))"
    using v room loop set by (simp add: append_hash_def set_peak_def Let_def)
  have "unat (fsize F) \<noteq> unat (- 1 :: u64)" using room by (simp only: word_unat_eq_iff not_False_eq_True)
  then have lt: "unat (fsize F) < 2 ^ 64 - 1"
    using unat_lt2p [of "fsize F"] by (simp add: unsigned_minus_1_eq_mask mask_eq_exp_minus_1)
  show unat: "unat (fsize F + 1) = Suc (unat (fsize F))"
    using lt by (subst unat_add_fits) simp_all
  have "length (carry C h (peaks F)) \<le> 64"
  proof (cases "length (peaks F) = 64")
    case True
    with lt n(2) have "occupancy (peaks F) \<noteq> 2 ^ length (peaks F) - 1" by simp
    with n(1) show ?thesis by (simp add: length_carry_bound)
  next
    case False
    with n(1) show ?thesis using length_carry [of C h "peaks F"] by simp
  qed
  then show "validate (F\<lparr>peaks := carry C h (peaks F), fsize := fsize F + 1\<rparr>)"
    using n unat by (simp add: validate_iff occupancy_carry)
qed

lemma frontier_rep_append:
  assumes rep: "frontier_rep C F ls" and room: "fsize F \<noteq> - 1"
  shows "\<exists>F'. append_hash C h F = (F', Some (fsize F)) \<and> frontier_rep C F' (ls @ [h])"
proof -
  from rep have v: "validate F" and b: "blocks C 0 (peaks F) ls" by (auto simp: frontier_rep_def)
  have "blocks C 0 (carry C h (peaks F)) (ls @ [h])"
    using blocks_carry [OF b, of "[h]"] by (simp add: root_range_1)
  then show ?thesis using append_hash_valid(1,2) [OF v room, where C = C and h = h] by (auto simp: frontier_rep_def)
qed

lemma root_fold_Some: "root \<noteq> None \<or> occupancy ps \<noteq> 0 \<Longrightarrow> \<exists>r. root_fold C root ps = Some r"
  by (induction C root ps rule: root_fold.induct) auto

section \<open>The interface of an append-only log\<close>

locale append_log =
  fixes C :: crypto
    and init :: 's
    and app :: "bytes \<Rightarrow> 's \<Rightarrow> 's \<times> u64 option"
    and root :: "'s \<Rightarrow> bytes option"
    and rep :: "'s \<Rightarrow> bytes list \<Rightarrow> bool"
  assumes rep_init: "rep init []"
    and rep_app: "rep s ls \<Longrightarrow> length ls < 2 ^ 64 - 1 \<Longrightarrow>
      \<exists>s'. app d s = (s', Some (word_of_nat (length ls))) \<and> rep s' (ls @ [leaf_hash C d])"
    and rep_root: "rep s ls \<Longrightarrow> root s = Some (root_range C ls)"
begin

lemma append_all:
  "rep s ls \<Longrightarrow> length ls + length ds < 2 ^ 64 \<Longrightarrow>
    rep (fold (\<lambda>d s. fst (app d s)) ds s) (ls @ map (leaf_hash C) ds)"
proof (induction ds arbitrary: s ls)
  case (Cons d ds)
  then obtain s' where "app d s = (s', Some (word_of_nat (length ls)))" "rep s' (ls @ [leaf_hash C d])"
    using rep_app [of s ls d] by auto
  with Cons.IH [of s' "ls @ [leaf_hash C d]"] Cons.prems(2) show ?case by simp
qed simp

lemma root_all:
  "length ds < 2 ^ 64 \<Longrightarrow>
    root (fold (\<lambda>d s. fst (app d s)) ds init) = Some (root_range C (map (leaf_hash C) ds))"
  using append_all [OF rep_init, of ds] by (simp add: rep_root)

end

interpretation tree: append_log C log_new "\<lambda>d l. map_prod id Some (log_append C d l)"
  "\<lambda>l. Some (log_root C l)" "\<lambda>l ls. leaves l = ls" for C
proof (unfold_locales, goal_cases)
  case (3 s ls)
  then show ?case
    by (auto simp: log_root_def root_of_def root_range.simps [of C "[]"])
qed (auto simp: log_new_def log_append_def Let_def)

interpretation frontier: append_log C frontier_new "frontier_append C" "frontier_root C" "frontier_rep C" for C
proof (unfold_locales, goal_cases)
  case 1
  show ?case by (simp add: frontier_rep_def frontier_new_def validate_iff)
next
  case (2 s ls d)
  then have "fsize s \<noteq> - 1" "fsize s = word_of_nat (length ls)"
    using frontier_rep_size [OF 2(1)] by (auto simp: unsigned_minus_1_eq_mask mask_eq_exp_minus_1)
  with frontier_rep_append [OF 2(1), of "leaf_hash C d"] show ?case
    by (simp add: frontier_append_def)
next
  case 3
  then show ?case by (rule frontier_rep_root)
qed

text \<open>Two small logs to evaluate the properties on.\<close>

definition small_log :: merkle_log where
  "small_log = \<lparr>leaves = [replicate 32 1, replicate 32 2, replicate 32 3]\<rparr>"

definition small_prefix :: merkle_log where
  "small_prefix = \<lparr>leaves = [replicate 32 1, replicate 32 2]\<rparr>"

section \<open>Properties\<close>

text \<open>Completeness of inclusion proofs: for every index below a size the log has reached, the log
  produces a proof, and the client's verifier accepts it against the root of that size.\<close>

theorem inclusion_complete:
  assumes "index < sz" "unat sz \<le> length (leaves log)"
  shows "\<exists>proof. inclusion_proof C log index sz = Some proof
    \<and> verify_inclusion C (leaves log ! unat index) index sz proof (root_of C log (unat sz))"
proof -
  let ?ls = "take (unat sz) (leaves log)"
  have "unat index < unat sz" using assms(1) by (simp add: word_less_nat_alt)
  with assms climb_path [of "unat index" ?ls C] show ?thesis
    by (auto simp: inclusion_proof_def verify_inclusion_iff root_of_def min_absorb2)
qed

theorem inclusion_complete_witness:
  "\<exists>proof. inclusion_proof toy small_log 1 3 = Some proof
    \<and> verify_inclusion toy (leaves small_log ! unat (1 :: u64)) 1 3 proof (root_of toy small_log (unat (3 :: u64)))"
  by (rule inclusion_complete) (simp_all add: small_log_def)

text \<open>C14. Soundness of inclusion proofs: if the verifier accepts any proof for an index against the root
  of a log, the leaf is the log's leaf at that index, provided SHA-256 has no collision among the
  finitely many inputs the tree and the verifier hash.\<close>

theorem inclusion_sound:
  assumes "hash_contract C" "hashes (leaves log)" "length leaf = 32" "hashes proof"
    and "unat sz \<le> length (leaves log)"
    and "verify_inclusion C leaf index sz proof (root_of C log (unat sz))"
    and "inj_on (sha256 C) (climb_inputs C leaf (zip (dirs (unat index) (unat sz)) proof)
           \<union> tree_inputs C (take (unat sz) (leaves log)))"
  shows "leaf = leaves log ! unat index"
proof -
  let ?ls = "take (unat sz) (leaves log)"
  from assms(6) have v: "unat index < unat sz" "length proof = length (dirs (unat index) (unat sz))"
    "climb C leaf (zip (dirs (unat index) (unat sz)) proof) = root_range C ?ls"
    by (auto simp: verify_inclusion_iff root_of_def word_less_nat_alt)
  with assms climb_sound [OF assms(1), of "unat index" ?ls leaf "proof"] show ?thesis
    by (simp add: min_absorb2)
qed

theorem inclusion_sound_witness:
  "verify_inclusion toy (replicate 32 3) 2 3 [log_root toy small_prefix] (root_of toy small_log 3)
    \<and> replicate 32 3 = leaves small_log ! 2"
proof -
  have v: "verify_inclusion toy (replicate 32 3) 2 3 [log_root toy small_prefix] (root_of toy small_log 3)"
    by code_simp
  have "inj_on (sha256 toy) (climb_inputs toy (replicate 32 3)
      (zip (dirs (unat (2 :: u64)) (unat (3 :: u64))) [log_root toy small_prefix])
        \<union> tree_inputs toy (take (unat (3 :: u64)) (leaves small_log)))"
    by code_simp
  with v inclusion_sound [of toy small_log "replicate 32 3" "[log_root toy small_prefix]" 3 2]
  show ?thesis by (simp add: small_log_def hashes_def log_root_def root_of_def small_prefix_def root_range_length)
qed

lemma consistency_proof_accepted:
  assumes "0 < old" "old \<le> new" "unat new \<le> length (leaves log)"
  shows "\<exists>proof. consistency_proof C log old new = Some proof
    \<and> verify_consistency C old (root_of C log (unat old)) new (root_of C log (unat new)) proof"
proof -
  let ?ls = "take (unat new) (leaves log)"
  let ?proof = "consistency C ?ls (unat old) True"
  have o: "0 < unat old" "unat old \<le> unat new"
    using assms(1,2) by (simp_all add: word_less_nat_alt word_le_nat_alt)
  have p: "consistency_proof C log old new = Some ?proof"
    using o assms(3) by (simp add: consistency_proof_def)
  have "verify_consistency C old (root_of C log (unat old)) new (root_of C log (unat new)) ?proof"
  proof (cases "old = new")
    case True
    with assms(1,3) show ?thesis
      by (simp add: verify_consistency_def consistency.simps [of C ?ls] min_absorb2)
  next
    case False
    with o have lt: "unat old < unat new" by (simp add: word_unat_eq_iff)
    have "full_proof old (root_of C log (unat old)) ?proof = consistency C ?ls (unat old) False"
      using consistency_root_omitted [of "unat old" ?ls C] o lt assms(3)
      by (simp add: full_proof_def is_power_of_two_iff root_of_def min_absorb1 min_absorb2)
    with consistency_climb [of "unat old" ?ls C] o assms(3) show ?thesis
      by (auto simp: verify_consistency_iff [OF o(1) lt] root_of_def min_absorb1 min_absorb2)
  qed
  with p show ?thesis by blast
qed

text \<open>C24. Completeness of consistency proofs: for every pair of sizes the log has passed through, it
  produces a proof that the witness's verifier accepts between the two roots.\<close>

theorem consistency_complete:
  assumes "0 < old" "old \<le> new" "unat new \<le> length (leaves log)"
  shows "\<exists>proof. consistency_proof C log old new = Some proof
    \<and> verify_consistency C old (root_of C log (unat old)) new (root_of C log (unat new)) proof"
  by (rule consistency_proof_accepted [OF assms])

theorem consistency_complete_witness:
  "\<exists>proof. consistency_proof toy small_log 2 3 = Some proof
    \<and> verify_consistency toy 2 (root_of toy small_log (unat (2 :: u64))) 3 (root_of toy small_log (unat (3 :: u64))) proof"
  by (rule consistency_complete) (simp_all add: small_log_def)

text \<open>C3. Soundness of consistency proofs: a proof accepted between the roots of two logs shows that the
  smaller log is a prefix of the larger one, entry by entry, again provided SHA-256 has no collision
  among the inputs involved.\<close>

theorem consistency_proves_prefix:
  assumes "hash_contract C" "hashes (leaves older)" "hashes (leaves newer)" "hashes proof"
    and "length (leaves older) = unat old" "length (leaves newer) = unat new"
    and "verify_consistency C old (log_root C older) new (log_root C newer) proof"
    and "inj_on (sha256 C) (climb_inputs C (hd (full_proof old (log_root C older) proof))
             (zip (cdirs (unat old) (unat new)) (tl (full_proof old (log_root C older) proof)))
           \<union> tree_inputs C (leaves older) \<union> tree_inputs C (leaves newer)
           \<union> tree_inputs C (take (unat old) (leaves newer)))"
  shows "leaves older = take (unat old) (leaves newer)"
proof -
  let ?new = "leaves newer" let ?m = "unat old"
  have "length (log_root C older) = 32" using assms(1,2) by (simp add: log_root_eq root_range_length)
  moreover have "inj_on (sha256 C) (climb_inputs C (hd (full_proof old (log_root C older) proof))
      (zip (cdirs ?m (unat new)) (tl (full_proof old (log_root C older) proof))) \<union> tree_inputs C ?new)"
    using assms(8) by (rule inj_on_subset) blast
  ultimately have r: "log_root C older = root_of C newer ?m" "0 < ?m" "?m \<le> unat new"
    using consistency_root_prefix [OF assms(1,3,4,6,7)] by blast+
  have "inj_on (sha256 C) (tree_inputs C (leaves older) \<union> tree_inputs C (take ?m ?new))"
    using assms(8) by (rule inj_on_subset) blast
  then show ?thesis
    using root_range_inject [OF assms(1), of "leaves older" "take ?m ?new"] assms(2,3,5,6) r
    by (simp add: min_absorb2 log_root_eq root_of_def)
qed

theorem consistency_proves_prefix_witness:
  "verify_consistency toy 2 (log_root toy small_prefix) 3 (log_root toy small_log) [replicate 32 3]
    \<and> leaves small_prefix = take 2 (leaves small_log)"
proof -
  have v: "verify_consistency toy 2 (log_root toy small_prefix) 3 (log_root toy small_log) [replicate 32 3]"
    by code_simp
  have "inj_on (sha256 toy) (climb_inputs toy (hd (full_proof 2 (log_root toy small_prefix) [replicate 32 3]))
        (zip (cdirs (unat (2 :: u64)) (unat (3 :: u64))) (tl (full_proof 2 (log_root toy small_prefix) [replicate 32 3])))
      \<union> tree_inputs toy (leaves small_prefix) \<union> tree_inputs toy (leaves small_log)
      \<union> tree_inputs toy (take (unat (2 :: u64)) (leaves small_log)))"
    by code_simp
  with v consistency_proves_prefix [of toy small_prefix small_log "[replicate 32 3]" 2 3]
  show ?thesis by (simp add: small_log_def small_prefix_def hashes_def)
qed

text \<open>C25. Refinement: a frontier that has absorbed any sequence of fewer than \<^term>\<open>2 ^ 64 :: nat\<close> entries
  has exactly the root of the full log over the same entries, although it keeps one hash per set bit
  of the size.\<close>

theorem frontier_root_refines_log:
  assumes "length entries < 2 ^ 64"
  shows "frontier_root C (fold (\<lambda>d F. fst (frontier_append C d F)) entries frontier_new)
    = Some (log_root C (fold (\<lambda>d l. fst (log_append C d l)) entries log_new))"
  using frontier.root_all [OF assms, of C] tree.root_all [OF assms, of C] by simp

theorem frontier_root_refines_log_witness:
  "frontier_root toy (fold (\<lambda>d F. fst (frontier_append toy d F)) [[1], [2], [3]] frontier_new)
    = Some (log_root toy (fold (\<lambda>d l. fst (log_append toy d l)) [[1], [2], [3]] log_new))"
  by (rule frontier_root_refines_log) simp

text \<open>C26. Appending to a frontier is all or nothing. \<^verbatim>\<open>append_hash\<close> refuses exactly the frontiers that fail
  validation and the one that is full, and a refusal leaves the frontier as it was: the early return inside the
  carry loop, which would lose the peaks already taken, is never reached. On every other frontier, whatever hashes
  it holds, the index is the old size, the size grows by one, the result is valid again, has a root, and represents
  the extended log whenever the frontier represented a log.\<close>

theorem frontier_append_preserves:
  "case append_hash C h F of
     (F', None) \<Rightarrow> F' = F \<and> (\<not> validate F \<or> fsize F = - 1)
   | (F', Some index) \<Rightarrow> validate F \<and> index = fsize F \<and> unat (fsize F') = Suc (unat (fsize F)) \<and> validate F'
       \<and> (\<exists>r. frontier_root C F' = Some r)
       \<and> (\<forall>ls. frontier_rep C F ls \<longrightarrow> frontier_rep C F' (ls @ [h]))"
proof (cases "validate F \<and> fsize F \<noteq> - 1")
  case True
  then have v: "validate F" "fsize F \<noteq> - 1" by auto
  let ?F = "F\<lparr>peaks := carry C h (peaks F), fsize := fsize F + 1\<rparr>"
  note app = append_hash_valid(1,2) [OF v, where C = C and h = h] append_hash_valid(3) [OF v]
  have "\<exists>r. root_fold C None (peaks ?F) = Some r" by (rule root_fold_Some) (simp add: occupancy_carry)
  then have "\<exists>r. frontier_root C ?F = Some r" using app(2) by (simp add: frontier_root_def)
  moreover have "frontier_rep C ?F (ls @ [h])" if "frontier_rep C F ls" for ls
    using frontier_rep_append [OF that v(2), of h] app(1) by auto
  ultimately show ?thesis using app v(1) by simp
qed (auto simp: append_hash_def)

text \<open>A frontier of three entries, on which the append carries through both levels, and a damaged one.\<close>

theorem frontier_append_preserves_witness:
  "(\<exists>F'. append_hash toy (replicate 32 5) \<lparr>fsize = 3, peaks = [Some (replicate 32 1), Some (replicate 32 2)]\<rparr> = (F', Some 3)
      \<and> peaks F' = [None, None, Some (node_hash toy (replicate 32 2) (node_hash toy (replicate 32 1) (replicate 32 5)))]
      \<and> unat (fsize F') = 4 \<and> validate F' \<and> (\<exists>r. frontier_root toy F' = Some r))
    \<and> append_hash toy (replicate 32 5) \<lparr>fsize = 3, peaks = [Some (replicate 32 1)]\<rparr>
      = (\<lparr>fsize = 3, peaks = [Some (replicate 32 1)]\<rparr>, None)"
proof -
  let ?F = "\<lparr>fsize = 3, peaks = [Some (replicate 32 1), Some (replicate 32 2)]\<rparr>"
  let ?F' = "\<lparr>fsize = 4, peaks = [None, None, Some (node_hash toy (replicate 32 2) (node_hash toy (replicate 32 1) (replicate 32 5)))]\<rparr>"
  have v: "validate ?F" by (simp add: validate_iff)
  have app: "append_hash toy (replicate 32 5) ?F = (?F', Some 3)" using append_hash_valid(1) [OF v, where C = toy and h = "replicate 32 5"] by simp
  have bad: "append_hash toy (replicate 32 5) \<lparr>fsize = 3, peaks = [Some (replicate 32 1)]\<rparr>
      = (\<lparr>fsize = 3, peaks = [Some (replicate 32 1)]\<rparr>, None)" by (simp add: append_hash_def validate_iff)
  show ?thesis
    using frontier_append_preserves [where C = toy and h = "replicate 32 5" and F = ?F] app bad by auto
qed

end
