(* ===== verification/Compliance_Format.thy ===== *)
theory Compliance_Format
  imports Codec
begin

text \<open>
  \<^verbatim>\<open>pigeonpost-compliance-format/src/lib.rs\<close>: the key identifiers, the epoch calendar and the
  attribution claim that the online and offline halves of the compliance machinery share. An
  \<^verbatim>\<open>i64\<close> is an \<^typ>\<open>int\<close> with the checked operations written out; the unchecked ones of
  \<^verbatim>\<open>civil_from_days\<close> are only reached with day numbers below \<open>2 ^ 64 / 86400000\<close>.
\<close>

section \<open>Data\<close>

datatype format_error =
    InvalidLength nat nat
  | UnknownKeyIdVersion u8
  | UnknownAttributionVersion u8
  | UnknownPurpose u8
  | UnknownJurisdiction u8
  | NotTracePurpose
  | InvalidTraceEpoch
  | InvalidTraceRetentionPolicy
  | NotAttributionPurpose
  | InvalidAttributionEpoch

definition COMPLIANCE_KEY_ID_VERSION :: u8 where "COMPLIANCE_KEY_ID_VERSION = 1"
definition COMPLIANCE_KEY_ID_LEN :: nat where "COMPLIANCE_KEY_ID_LEN = 47"
definition TRACE_EPOCH_DURATION_MS :: u64 where "TRACE_EPOCH_DURATION_MS = 86400000"
definition ATTRIBUTION_BLOCK_VERSION :: u8 where "ATTRIBUTION_BLOCK_VERSION = 3"
definition ATTRIBUTION_CLAIM_LEN :: nat where "ATTRIBUTION_CLAIM_LEN = 104"
definition ATTRIBUTION_CIPHERTEXT_LEN :: nat where
  "ATTRIBUTION_CIPHERTEXT_LEN = ATTRIBUTION_CLAIM_LEN + 16"
definition ATTRIBUTION_HKDF_INFO :: bytes where
  "ATTRIBUTION_HKDF_INFO = as_bytes ''pigeonpost/envelope/v3/attribution''"
definition ATTRIBUTION_SIGNATURE_DOMAIN :: bytes where
  "ATTRIBUTION_SIGNATURE_DOMAIN = as_bytes ''pigeonpost/attribution-claim/v3''"
definition ATTRIBUTION_AAD_DOMAIN :: bytes where
  "ATTRIBUTION_AAD_DOMAIN = as_bytes ''pigeonpost/attribution-aad/v3''"

lemmas compliance_consts = COMPLIANCE_KEY_ID_VERSION_def COMPLIANCE_KEY_ID_LEN_def
  TRACE_EPOCH_DURATION_MS_def ATTRIBUTION_BLOCK_VERSION_def ATTRIBUTION_CLAIM_LEN_def
  ATTRIBUTION_CIPHERTEXT_LEN_def

datatype compliance_purpose = Attribution | NetworkTrace | IdentityTrace

definition purpose_try_from :: "u8 \<Rightarrow> format_error + compliance_purpose" where
  "purpose_try_from v =
     (if v = 1 then Ok Attribution else if v = 2 then Ok NetworkTrace
      else if v = 3 then Ok IdentityTrace else Err (UnknownPurpose v))"

fun purpose_into :: "compliance_purpose \<Rightarrow> u8" where
  "purpose_into Attribution = 1"
| "purpose_into NetworkTrace = 2"
| "purpose_into IdentityTrace = 3"

datatype jurisdiction = Us | Eu | Tr | Test

definition jurisdiction_try_from :: "u8 \<Rightarrow> format_error + jurisdiction" where
  "jurisdiction_try_from v =
     (if v = 1 then Ok Us else if v = 2 then Ok Eu else if v = 3 then Ok Tr
      else if v = 255 then Ok Test else Err (UnknownJurisdiction v))"

fun jurisdiction_into :: "jurisdiction \<Rightarrow> u8" where
  "jurisdiction_into Us = 1"
| "jurisdiction_into Eu = 2"
| "jurisdiction_into Tr = 3"
| "jurisdiction_into Test = 255"

datatype trace_capture_policy = Standing | Preservation u64 u64

fun captures :: "trace_capture_policy \<Rightarrow> u64 \<Rightarrow> bool" where
  "captures Standing t = True"
| "captures (Preservation starts_at expires_at) t \<longleftrightarrow> starts_at \<le> t \<and> t < expires_at"

record trace_retention_policy =
  rp_jurisdiction :: jurisdiction
  rp_capture :: trace_capture_policy
  rp_retention_days :: "u64 option"

definition required_capacity_epochs :: "trace_retention_policy \<Rightarrow> format_error + u64" where
  "required_capacity_epochs p =
     (case (rp_jurisdiction p, rp_capture p, rp_retention_days p) of
        (Eu, Preservation starts_at expires_at, None) \<Rightarrow>
          (if 0 < starts_at \<and> starts_at < expires_at then
             (let first_epoch = starts_at div TRACE_EPOCH_DURATION_MS in
              and_then (ok_or (checked_sub expires_at 1) InvalidTraceRetentionPolicy) (\<lambda>last_ms.
              let last_epoch = last_ms div TRACE_EPOCH_DURATION_MS in
              ok_or (Option.bind (checked_sub last_epoch first_epoch) (\<lambda>epochs. checked_add epochs 1))
                InvalidTraceRetentionPolicy))
           else Err InvalidTraceRetentionPolicy)
      | (Us, Standing, Some days) \<Rightarrow> (if days = 30 then Ok 31 else Err InvalidTraceRetentionPolicy)
      | (Tr, Standing, Some days) \<Rightarrow>
          (if 365 \<le> days \<and> days \<le> 730 then ok_or (checked_add days 1) InvalidTraceRetentionPolicy
           else Err InvalidTraceRetentionPolicy)
      | (Test, Standing, None) \<Rightarrow> Ok 1
      | _ \<Rightarrow> Err InvalidTraceRetentionPolicy)"

section \<open>Key identifiers\<close>

record compliance_key_id =
  ck_version :: u8
  ck_purpose :: compliance_purpose
  ck_jurisdiction :: jurisdiction
  ck_authority :: bytes
  ck_epoch_start_ms :: u64
  ck_generation :: u32

definition key_id_new ::
  "compliance_purpose \<Rightarrow> jurisdiction \<Rightarrow> bytes \<Rightarrow> u64 \<Rightarrow> u32 \<Rightarrow> compliance_key_id" where
  "key_id_new p j authority epoch_start generation =
     \<lparr>ck_version = COMPLIANCE_KEY_ID_VERSION, ck_purpose = p, ck_jurisdiction = j,
      ck_authority = authority, ck_epoch_start_ms = epoch_start, ck_generation = generation\<rparr>"

definition key_id_validate :: "compliance_key_id \<Rightarrow> format_error + unit" where
  "key_id_validate k =
     ensure (ck_version k = COMPLIANCE_KEY_ID_VERSION) (UnknownKeyIdVersion (ck_version k))"

definition key_id_encode :: "compliance_key_id \<Rightarrow> format_error + bytes" where
  "key_id_encode k =
     and_then (key_id_validate k) (\<lambda>_.
     Ok ([ck_version k, purpose_into (ck_purpose k), jurisdiction_into (ck_jurisdiction k)]
         @ ck_authority k @ u64_be (ck_epoch_start_ms k) @ u32_be (ck_generation k)))"

definition key_id_decode :: "bytes \<Rightarrow> format_error + compliance_key_id" where
  "key_id_decode b =
     (if length b \<noteq> COMPLIANCE_KEY_ID_LEN then Err (InvalidLength COMPLIANCE_KEY_ID_LEN (length b))
      else if b ! 0 \<noteq> COMPLIANCE_KEY_ID_VERSION then Err (UnknownKeyIdVersion (b ! 0))
      else let authority = take 32 (drop 3 b);
               epoch_start = u64_from_be (take 8 (drop 35 b));
               generation = u32_from_be (drop 43 b)
           in and_then (purpose_try_from (b ! 1)) (\<lambda>p.
              and_then (jurisdiction_try_from (b ! 2)) (\<lambda>j.
              Ok \<lparr>ck_version = b ! 0, ck_purpose = p, ck_jurisdiction = j, ck_authority = authority,
                  ck_epoch_start_ms = epoch_start, ck_generation = generation\<rparr>)))"

section \<open>Epochs\<close>

definition is_multiple_of :: "u64 \<Rightarrow> u64 \<Rightarrow> bool" where
  "is_multiple_of a b \<longleftrightarrow> (if b = 0 then a = 0 else a mod b = 0)"

definition trace_epoch_end_ms :: "compliance_key_id \<Rightarrow> format_error + u64" where
  "trace_epoch_end_ms k =
     (if ck_purpose k \<notin> {NetworkTrace, IdentityTrace} then Err NotTracePurpose
      else and_then (key_id_validate k) (\<lambda>_.
        if \<not> is_multiple_of (ck_epoch_start_ms k) TRACE_EPOCH_DURATION_MS then Err InvalidTraceEpoch
        else ok_or (checked_add (ck_epoch_start_ms k) TRACE_EPOCH_DURATION_MS) InvalidTraceEpoch))"

definition validate_trace_epoch :: "compliance_key_id \<Rightarrow> u64 \<Rightarrow> u64 \<Rightarrow> format_error + unit" where
  "validate_trace_epoch k not_before not_after =
     and_then (trace_epoch_end_ms k) (\<lambda>expected_end.
     ensure (not_before = ck_epoch_start_ms k \<and> not_after = expected_end) InvalidTraceEpoch)"

definition trace_epoch_contains :: "compliance_key_id \<Rightarrow> u64 \<Rightarrow> format_error + bool" where
  "trace_epoch_contains k t =
     and_then (trace_epoch_end_ms k) (\<lambda>end_ms. Ok (ck_epoch_start_ms k \<le> t \<and> t < end_ms))"

definition civil_from_days :: "int \<Rightarrow> int \<times> int \<times> int" where
  "civil_from_days days =
     (let z = days + 719468;
          era = z div 146097;
          day_of_era = z - era * 146097;
          year_of_era = (day_of_era - day_of_era div 1460 + day_of_era div 36524
                          - day_of_era div 146096) div 365;
          year = year_of_era + era * 400;
          day_of_year = day_of_era - (365 * year_of_era + year_of_era div 4 - year_of_era div 100);
          month_prime = (5 * day_of_year + 2) div 153;
          day = day_of_year - (153 * month_prime + 2) div 5 + 1;
          month = month_prime + (if month_prime < 10 then 3 else - 9)
      in (year + (if month \<le> 2 then 1 else 0), month, day))"

text \<open>The checked \<^verbatim>\<open>i64\<close> operations: the exact result when it fits.\<close>

definition i64_fits :: "int \<Rightarrow> bool" where
  "i64_fits x \<longleftrightarrow> - (2 ^ 63) \<le> x \<and> x < 2 ^ 63"

definition i64_checked :: "int \<Rightarrow> int option" where
  "i64_checked x = (if i64_fits x then Some x else None)"

definition days_from_civil :: "int \<Rightarrow> int \<Rightarrow> int \<Rightarrow> int option" where
  "days_from_civil year month day =
     (if \<not> (1 \<le> month \<and> month \<le> 12) \<or> \<not> (1 \<le> day \<and> day \<le> 31) then None
      else Option.bind (i64_checked (year - (if month \<le> 2 then 1 else 0))) (\<lambda>year.
        let era = year div 400 in
        Option.bind (i64_checked (era * 400)) (\<lambda>e400.
        Option.bind (i64_checked (year - e400)) (\<lambda>year_of_era.
        let month_prime = month + (if 2 < month then - 3 else 9);
            day_of_year = (153 * month_prime + 2) div 5 + day - 1 in
        Option.bind (i64_checked (year_of_era * 365)) (\<lambda>a.
        Option.bind (i64_checked (a + year_of_era div 4)) (\<lambda>b.
        Option.bind (i64_checked (b - year_of_era div 100)) (\<lambda>c.
        Option.bind (i64_checked (c + day_of_year)) (\<lambda>day_of_era.
        Option.bind (i64_checked (era * 146097)) (\<lambda>d.
        Option.bind (i64_checked (d + day_of_era)) (\<lambda>e.
        i64_checked (e - 719468)))))))))))"

definition attribution_epoch_end_ms :: "compliance_key_id \<Rightarrow> format_error + u64" where
  "attribution_epoch_end_ms k =
     (if ck_purpose k \<noteq> Attribution then Err NotAttributionPurpose
      else and_then (key_id_validate k) (\<lambda>_.
        if \<not> is_multiple_of (ck_epoch_start_ms k) TRACE_EPOCH_DURATION_MS then Err InvalidAttributionEpoch
        else and_then (ok_or (i64_checked (uint (ck_epoch_start_ms k div TRACE_EPOCH_DURATION_MS)))
                        InvalidAttributionEpoch) (\<lambda>days.
        case civil_from_days days of (year, month, day) \<Rightarrow>
        if day \<noteq> 1 then Err InvalidAttributionEpoch
        else and_then (if month = 12
                       then and_then (ok_or (i64_checked (year + 1)) InvalidAttributionEpoch) (\<lambda>y. Ok (y, 1))
                       else Ok (year, month + 1)) (\<lambda>(next_year, next_month).
        and_then (ok_or (days_from_civil next_year next_month 1) InvalidAttributionEpoch) (\<lambda>next_days.
        ok_or (Option.bind (if 0 \<le> next_days then Some (word_of_int next_days) else None) (\<lambda>value.
               Option.bind (checked_mul value TRACE_EPOCH_DURATION_MS) (\<lambda>end_ms.
               if ck_epoch_start_ms k < end_ms then Some end_ms else None)))
          InvalidAttributionEpoch)))))"

definition validate_attribution_epoch :: "compliance_key_id \<Rightarrow> u64 \<Rightarrow> u64 \<Rightarrow> format_error + unit" where
  "validate_attribution_epoch k not_before not_after =
     and_then (attribution_epoch_end_ms k) (\<lambda>expected_end.
     ensure (not_before = ck_epoch_start_ms k \<and> not_after = expected_end) InvalidAttributionEpoch)"

definition attribution_epoch_contains :: "compliance_key_id \<Rightarrow> u64 \<Rightarrow> format_error + bool" where
  "attribution_epoch_contains k t =
     and_then (attribution_epoch_end_ms k) (\<lambda>end_ms. Ok (ck_epoch_start_ms k \<le> t \<and> t < end_ms))"

definition compliance_epoch_end_ms :: "compliance_key_id \<Rightarrow> format_error + u64" where
  "compliance_epoch_end_ms k =
     (case ck_purpose k of
        Attribution \<Rightarrow> attribution_epoch_end_ms k
      | NetworkTrace \<Rightarrow> trace_epoch_end_ms k
      | IdentityTrace \<Rightarrow> trace_epoch_end_ms k)"

definition validate_compliance_epoch :: "compliance_key_id \<Rightarrow> u64 \<Rightarrow> u64 \<Rightarrow> format_error + unit" where
  "validate_compliance_epoch k not_before not_after =
     (case ck_purpose k of
        Attribution \<Rightarrow> validate_attribution_epoch k not_before not_after
      | NetworkTrace \<Rightarrow> validate_trace_epoch k not_before not_after
      | IdentityTrace \<Rightarrow> validate_trace_epoch k not_before not_after)"

definition compliance_epoch_contains :: "compliance_key_id \<Rightarrow> u64 \<Rightarrow> format_error + bool" where
  "compliance_epoch_contains k t =
     (case ck_purpose k of
        Attribution \<Rightarrow> attribution_epoch_contains k t
      | NetworkTrace \<Rightarrow> trace_epoch_contains k t
      | IdentityTrace \<Rightarrow> trace_epoch_contains k t)"

section \<open>Attribution claims\<close>

record attribution_claim =
  cl_sender_pubkey :: bytes
  cl_sent_at_ms :: u64
  cl_signature :: bytes

definition claim_encode :: "attribution_claim \<Rightarrow> bytes" where
  "claim_encode c = cl_sender_pubkey c @ u64_be (cl_sent_at_ms c) @ cl_signature c"

definition claim_decode :: "bytes \<Rightarrow> format_error + attribution_claim" where
  "claim_decode b =
     (if length b \<noteq> ATTRIBUTION_CLAIM_LEN then Err (InvalidLength ATTRIBUTION_CLAIM_LEN (length b))
      else Ok \<lparr>cl_sender_pubkey = take 32 b, cl_sent_at_ms = u64_from_be (take 8 (drop 32 b)),
               cl_signature = drop 40 b\<rparr>)"

definition validate_block_version :: "u8 \<Rightarrow> format_error + unit" where
  "validate_block_version v = ensure (v = ATTRIBUTION_BLOCK_VERSION) (UnknownAttributionVersion v)"

definition attribution_signing_preimage ::
  "u8 \<Rightarrow> compliance_key_id \<Rightarrow> bytes \<Rightarrow> bytes \<Rightarrow> bytes \<Rightarrow> bytes \<Rightarrow> u64 \<Rightarrow> format_error + bytes" where
  "attribution_signing_preimage v k key_digest e_pk event_id recipient sent_at =
     and_then (validate_block_version v) (\<lambda>_.
     and_then (key_id_encode k) (\<lambda>key_id.
     Ok (ATTRIBUTION_SIGNATURE_DOMAIN @ [v] @ key_id @ key_digest @ e_pk @ event_id @ recipient
         @ u64_be sent_at)))"

definition attribution_aad ::
  "u8 \<Rightarrow> compliance_key_id \<Rightarrow> bytes \<Rightarrow> bytes \<Rightarrow> bytes \<Rightarrow> bytes \<Rightarrow> format_error + bytes" where
  "attribution_aad v k key_digest e_pk event_id recipient =
     and_then (validate_block_version v) (\<lambda>_.
     and_then (key_id_encode k) (\<lambda>key_id.
     Ok (ATTRIBUTION_AAD_DOMAIN @ [v] @ key_id @ key_digest @ e_pk @ event_id @ recipient)))"

definition attribution_hkdf_salt :: "bytes \<Rightarrow> bytes \<Rightarrow> bytes" where
  "attribution_hkdf_salt e_pk key_digest = e_pk @ key_digest"


section \<open>Codecs\<close>

definition key_id_wf :: "compliance_key_id \<Rightarrow> bool" where
  "key_id_wf k \<longleftrightarrow> ck_version k = COMPLIANCE_KEY_ID_VERSION \<and> length (ck_authority k) = 32"

definition claim_wf :: "attribution_claim \<Rightarrow> bool" where
  "claim_wf c \<longleftrightarrow> length (cl_sender_pubkey c) = 32 \<and> length (cl_signature c) = 64"

lemma purpose_round_trip [simp]:
  "purpose_try_from (purpose_into p) = Ok p" "purpose_try_from v = Ok p \<longleftrightarrow> v = purpose_into p"
  by (cases p; simp add: purpose_try_from_def)+

lemma jurisdiction_round_trip [simp]:
  "jurisdiction_try_from (jurisdiction_into j) = Ok j"
  "jurisdiction_try_from v = Ok j \<longleftrightarrow> v = jurisdiction_into j"
  by (cases j; simp add: jurisdiction_try_from_def)+

lemma key_id_encode_wf:
  "key_id_wf k \<Longrightarrow> key_id_encode k = Ok ([ck_version k, purpose_into (ck_purpose k), jurisdiction_into (ck_jurisdiction k)]
     @ ck_authority k @ u64_be (ck_epoch_start_ms k) @ u32_be (ck_generation k))"
  by (simp add: key_id_wf_def key_id_encode_def key_id_validate_def)

lemma key_id_slices:
  assumes "length b = 47"
  shows "b = [b ! 0, b ! 1, b ! 2] @ take 32 (drop 3 b) @ take 8 (drop 35 b) @ drop 43 b"
proof -
  have "b = take 3 b @ take 32 (drop 3 b) @ take 8 (drop 35 b) @ drop 43 b"
    using append_take_drop_id [of 3 b] append_take_drop_id [of 32 "drop 3 b"]
      append_take_drop_id [of 8 "drop 35 b"] by simp
  moreover have "take 3 b = [b ! 0, b ! 1, b ! 2]"
    using assms by (intro nth_equalityI) (auto simp: nth_Cons numeral_3_eq_3 numeral_2_eq_2 less_Suc_eq)
  ultimately show ?thesis by simp
qed

interpretation key_id_codec: codec key_id_wf key_id_encode key_id_decode
proof (unfold_locales, goal_cases)
  case (1 k)
  then show ?case
    by (simp add: key_id_encode_wf) (simp add: key_id_wf_def key_id_decode_def compliance_consts nth_append)
next
  case (2 b k)
  then have b: "length b = 47" "b ! 0 = 1" "b ! 1 = purpose_into (ck_purpose k)"
      "b ! 2 = jurisdiction_into (ck_jurisdiction k)" "ck_version k = 1"
      "ck_authority k = take 32 (drop 3 b)" "ck_epoch_start_ms k = u64_from_be (take 8 (drop 35 b))"
      "ck_generation k = u32_from_be (drop 43 b)"
    by (auto simp: key_id_decode_def compliance_consts Let_def result_simps split: if_splits)
  then have wf: "key_id_wf k" by (simp add: key_id_wf_def compliance_consts)
  have "u64_be (ck_epoch_start_ms k) = take 8 (drop 35 b)" "u32_be (ck_generation k) = drop 43 b"
    using b by (simp_all add: to_from_bytes)
  with wf b key_id_slices [OF b(1)] show ?case by (simp add: key_id_encode_wf)
qed

interpretation claim_codec: codec claim_wf "\<lambda>c. Ok (claim_encode c)" claim_decode
proof (unfold_locales, goal_cases)
  case (1 c)
  then show ?case by (simp add: claim_wf_def claim_encode_def claim_decode_def compliance_consts)
next
  case (2 b c)
  then have b: "length b = 104" "c = \<lparr>cl_sender_pubkey = take 32 b,
      cl_sent_at_ms = u64_from_be (take 8 (drop 32 b)), cl_signature = drop 40 b\<rparr>"
    by (auto simp: claim_decode_def compliance_consts split: if_splits)
  then have "u64_be (cl_sent_at_ms c) = take 8 (drop 32 b)" by (simp add: to_from_bytes)
  moreover have "b = take 32 b @ take 8 (drop 32 b) @ drop 40 b"
    using append_take_drop_id [of 32 b] append_take_drop_id [of 8 "drop 32 b"] by simp
  ultimately show ?case using b by (simp add: claim_wf_def claim_encode_def)
qed

lemma key_id_encode_length: "key_id_encode k = Ok b \<Longrightarrow> length (ck_authority k) = 32 \<Longrightarrow> length b = 47"
  by (auto simp: key_id_encode_def result_simps key_id_validate_def)

lemma key_id_encode_inject:
  "key_id_encode k = Ok b \<Longrightarrow> key_id_encode k' = Ok b \<Longrightarrow>
    length (ck_authority k) = 32 \<Longrightarrow> length (ck_authority k') = 32 \<Longrightarrow> k = k'"
  by (rule key_id_codec.enc_inj_on)
    (auto simp: key_id_wf_def key_id_encode_def key_id_validate_def result_simps)

section \<open>Order of encoded identifiers\<close>

text \<open>The order of byte strings: the first difference decides, a proper prefix is smaller.\<close>

fun lex_less :: "bytes \<Rightarrow> bytes \<Rightarrow> bool" where
  "lex_less [] ys \<longleftrightarrow> ys \<noteq> []"
| "lex_less (x # xs) [] \<longleftrightarrow> False"
| "lex_less (x # xs) (y # ys) \<longleftrightarrow> x < y \<or> x = y \<and> lex_less xs ys"

lemma lex_less_snoc:
  "length xs = length ys \<Longrightarrow>
    lex_less (xs @ [a]) (ys @ [b :: u8]) \<longleftrightarrow> lex_less xs ys \<or> xs = ys \<and> a < b"
  by (induction xs ys rule: list_induct2) auto

lemma lex_less_append:
  "length xs = length ys \<Longrightarrow>
    lex_less (xs @ us) (ys @ vs) \<longleftrightarrow> lex_less xs ys \<or> xs = ys \<and> lex_less us (vs :: bytes)"
  by (induction xs ys rule: list_induct2) auto

lemma be_bytes_less:
  "m < 256 ^ k \<Longrightarrow> n < 256 ^ k \<Longrightarrow> lex_less (rev (le_bytes k m)) (rev (le_bytes k n)) \<longleftrightarrow> m < n"
proof (induction k arbitrary: m n)
  case (Suc k)
  have d: "m div 256 < 256 ^ k" "n div 256 < 256 ^ k"
    using Suc.prems by (simp_all add: div_less_iff_less_mult mult.commute)
  have byte: "(word_of_nat (m mod 256) :: u8) < word_of_nat (n mod 256) \<longleftrightarrow> m mod 256 < n mod 256"
    by (simp add: word_less_nat_alt unat_of_nat take_bit_eq_mod)
  have "lex_less (rev (le_bytes (Suc k) m)) (rev (le_bytes (Suc k) n)) \<longleftrightarrow>
      m div 256 < n div 256 \<or> m div 256 = n div 256 \<and> m mod 256 < n mod 256"
    using Suc.IH [OF d] le_bytes_inj [OF d] by (auto simp: lex_less_snoc byte)
  also have "\<dots> \<longleftrightarrow> m < n" using div_mult_mod_eq [of m 256] div_mult_mod_eq [of n 256] by linarith
  finally show ?case .
qed simp

lemma u64_be_less: "lex_less (u64_be a) (u64_be b) \<longleftrightarrow> a < b"
  using be_bytes_less [of "unat a" 8 "unat b"] unat_lt2p [of a] unat_lt2p [of b]
  by (simp add: u64_be_def word_less_nat_alt del: le_bytes_numeral)

lemma u32_be_less: "lex_less (u32_be a) (u32_be b) \<longleftrightarrow> a < b"
  using be_bytes_less [of "unat a" 4 "unat b"] unat_lt2p [of a] unat_lt2p [of b]
  by (simp add: u32_be_def word_less_nat_alt del: le_bytes_numeral)

section \<open>The calendar\<close>

text \<open>
  \<open>year_start y\<close> is the day of the era on which year \<open>y\<close> of the era starts, years being counted
  from March: 365 days each and one more after every leap February.
\<close>

definition year_start :: "int \<Rightarrow> int" where
  "year_start y = 365 * y + y div 4 - y div 100 + y div 400"

definition year_of_era :: "int \<Rightarrow> int" where
  "year_of_era doe = (doe - doe div 1460 + doe div 36524 - doe div 146096) div 365"

lemma year_start_mono: "a < b \<Longrightarrow> year_start (a + 1) \<le> year_start b"
proof -
  assume "a < b"
  then have b: "b = a + 1 + int (nat (b - (a + 1)))" by simp
  have step: "year_start c \<le> year_start (c + 1)" for c
  proof -
    have "c div 4 \<le> (c + 1) div 4" "c div 400 \<le> (c + 1) div 400" "(c + 1) div 100 \<le> c div 100 + 1"
      using zdiv_mono1 [of "c + 1" "c + 100" 100] by (simp_all add: zdiv_mono1)
    then show ?thesis by (simp add: year_start_def)
  qed
  have "year_start (a + 1) \<le> year_start (a + 1 + int n)" for n
  proof (induction n)
    case (Suc n)
    then show ?case using step [of "a + 1 + int n"] by (simp add: algebra_simps)
  qed simp
  then show ?thesis by (subst b)
qed

lemma year_of_era_bounds:
  assumes "0 \<le> doe" "doe < 146097"
  shows "0 \<le> year_of_era doe" "year_of_era doe \<le> 399"
    "year_start (year_of_era doe) \<le> doe" "doe < year_start (year_of_era doe + 1)"
proof -
  have "0 \<le> year_of_era doe \<and> year_of_era doe \<le> 399
    \<and> year_start (year_of_era doe) \<le> doe \<and> doe < year_start (year_of_era doe + 1)"
  proof (cases "doe = 146096")
    case True
    then show ?thesis by (simp add: year_of_era_def year_start_def)
  next
    case False
    define r where "r = doe div 36524"
    define e where "e = doe mod 36524"
    define f where "f = e div 1461"
    define g where "g = e mod 1461"
    define t where "t = (24 * r + f + g) div 1460"
    define w where "w = (g - t) div 365"
    have doe: "doe = 36524 * r + e" and e: "e = 1461 * f + g" by (simp_all add: r_def e_def f_def g_def)
    have r: "0 \<le> r" "r \<le> 3" using assms False by (simp_all add: r_def)
    have eb: "0 \<le> e" "e < 36524" by (simp_all add: e_def)
    have fb: "0 \<le> f" "f \<le> 24" using eb by (simp_all add: f_def)
    have gb: "0 \<le> g" "g < 1461" by (simp_all add: g_def)
    have g24: "f = 24 \<Longrightarrow> g < 1460" using e eb by simp
    have tb: "0 \<le> t" "t \<le> 1" "t = 1 \<Longrightarrow> 1364 \<le> g" "g = 1460 \<Longrightarrow> t = 1"
      using r fb gb by (simp_all add: t_def)
    have wb: "0 \<le> w \<and> w \<le> 3 \<and> 365 * w \<le> g \<and> (w < 3 \<longrightarrow> g < 365 * w + 365)"
    proof (cases "t = 1")
      case True
      with tb(3) gb have "w = 3" by (simp add: w_def)
      with True tb(3) show ?thesis by simp
    next
      case False
      with tb gb have "t = 0" "g < 1460" by (simp, cases "g = 1460", auto)
      with gb have "g = 365 * w + g mod 365" "0 \<le> g mod 365" "g mod 365 < 365" by (simp_all add: w_def)
      with gb \<open>g < 1460\<close> show ?thesis by linarith
    qed
    have q: "doe div 1460 = 25 * r + f + t" unfolding doe e t_def by simp
    have s: "doe div 146096 = 0" using assms False by simp
    have y: "year_of_era doe = 100 * r + 4 * f + w"
    proof -
      have "doe - doe div 1460 + doe div 36524 - doe div 146096 = 365 * (100 * r + 4 * f) + (g - t)"
        unfolding q s r_def [symmetric] using doe e by (simp add: algebra_simps)
      then show ?thesis by (simp add: year_of_era_def w_def)
    qed
    have "(100 * r + 4 * f + w) div 4 = 25 * r + f"
      by (rule int_div_pos_eq [where r = w]) (use wb in simp_all)
    moreover have "(100 * r + 4 * f + w) div 100 = r"
      by (rule int_div_pos_eq [where r = "4 * f + w"]) (use fb wb in simp_all)
    moreover have "(100 * r + 4 * f + w) div 400 = 0" using r fb wb by simp
    ultimately have start: "year_start (year_of_era doe) = 36524 * r + 1461 * f + 365 * w"
      by (simp add: y year_start_def)
    have "doe < year_start (year_of_era doe + 1)"
    proof (cases "w = 3")
      case True
      show ?thesis
      proof (cases "f = 24")
        case f: True
        have "(100 * r + 100) div 4 = 25 * r + 25"
          by (rule int_div_pos_eq [where r = 0]) simp_all
        moreover have "(100 * r + 100) div 100 = r + 1"
          by (rule int_div_pos_eq [where r = 0]) simp_all
        moreover have "0 \<le> (100 * r + 100) div 400" using r by simp
        ultimately show ?thesis using True f y doe eb by (simp add: year_start_def)
      next
        case False
        have "(100 * r + 4 * f + 4) div 4 = 25 * r + f + 1"
          by (rule int_div_pos_eq [where r = 0]) simp_all
        moreover have "(100 * r + 4 * f + 4) div 100 = r"
          by (rule int_div_pos_eq [where r = "4 * f + 4"]) (use fb False in simp_all)
        moreover have "0 \<le> (100 * r + 4 * f + 4) div 400" using r fb by simp
        moreover have "year_of_era doe + 1 = 100 * r + 4 * f + 4" using True y by simp
        ultimately have "36524 * r + 1461 * f + 1461 \<le> year_start (year_of_era doe + 1)"
          by (simp only: year_start_def) simp
        with doe e gb show ?thesis by simp
      qed
    next
      case False
      with wb have w: "0 \<le> w" "w \<le> 2" "g < 365 * w + 365" by auto
      have "(100 * r + 4 * f + (w + 1)) div 4 = 25 * r + f"
        by (rule int_div_pos_eq [where r = "w + 1"]) (use w in simp_all)
      moreover have "(100 * r + 4 * f + (w + 1)) div 100 = r"
        by (rule int_div_pos_eq [where r = "4 * f + (w + 1)"]) (use fb w in simp_all)
      moreover have "0 \<le> (100 * r + 4 * f + (w + 1)) div 400" using r fb w by simp
      ultimately show ?thesis using w y doe e by (simp add: year_start_def add.assoc)
    qed
    with start y r fb wb doe e show ?thesis by simp
  qed
  then show "0 \<le> year_of_era doe" "year_of_era doe \<le> 399"
    "year_start (year_of_era doe) \<le> doe" "doe < year_start (year_of_era doe + 1)" by simp_all
qed

lemma div_succ: "0 < b \<Longrightarrow> (y + 1) div b = y div b + (if b dvd y + 1 then 1 else (0::int))"
proof -
  assume b: "0 < b"
  define q r where "q = y div b" and "r = y mod b"
  have y: "y + 1 = b * q + (r + 1)" and r: "0 \<le> r" "r < b"
    using b by (simp_all add: q_def r_def)
  show ?thesis
  proof (cases "r + 1 = b")
    case True
    then have e: "y + 1 = b * (q + 1)" using y by (simp add: algebra_simps)
    then have "(y + 1) div b = q + 1" using b by simp
    moreover have "b dvd y + 1" using e by simp
    ultimately show ?thesis by (simp add: q_def)
  next
    case False
    then have "(y + 1) div b = q" using y r by (intro int_div_pos_eq [where r = "r + 1"]) auto
    moreover have "\<not> b dvd y + 1"
      using False r unfolding y by (simp add: dvd_add_right_iff zdvd_not_zless)
    ultimately show ?thesis by (simp add: q_def)
  qed
qed

lemma year_start_step: "365 \<le> year_start (y + 1) - year_start y" "year_start (y + 1) - year_start y \<le> 366"
proof -
  have step: "year_start (y + 1) - year_start y = 365 + (if 4 dvd y + 1 then 1 else 0)
      - (if 100 dvd y + 1 then 1 else 0) + (if 400 dvd y + 1 then 1 else 0)"
    by (simp add: year_start_def div_succ)
  have "4 dvd y + 1" if "100 dvd y + 1"
    by (rule dvd_trans [OF _ that]) simp
  moreover have "100 dvd y + 1" if "400 dvd y + 1"
    by (rule dvd_trans [OF _ that]) simp
  ultimately show "365 \<le> year_start (y + 1) - year_start y" "year_start (y + 1) - year_start y \<le> 366"
    unfolding step by (auto split: if_splits)
qed

lemma year_of_era_unique:
  assumes "0 \<le> doe" "doe < 146097" "year_start y \<le> doe" "doe < year_start (y + 1)"
  shows "year_of_era doe = y"
proof (rule ccontr)
  assume "year_of_era doe \<noteq> y"
  then consider "year_of_era doe < y" | "y < year_of_era doe" by linarith
  then show False
    using year_start_mono [of "year_of_era doe" y] year_start_mono [of y "year_of_era doe"]
      year_of_era_bounds [OF assms(1,2)] assms(3,4)
    by cases auto
qed

lemma year_start_era: "0 \<le> y \<Longrightarrow> y \<le> 399 \<Longrightarrow> year_start y = 365 * y + y div 4 - y div 100"
  by (simp add: year_start_def)

text \<open>Months counted from March, and the day of the year each starts on.\<close>

definition month_start :: "int \<Rightarrow> int" where
  "month_start mp = (153 * mp + 2) div 5"

lemma month_cases:
  fixes mp :: int
  assumes "0 \<le> mp" "mp \<le> 11"
  obtains "mp = 0" | "mp = 1" | "mp = 2" | "mp = 3" | "mp = 4" | "mp = 5" | "mp = 6" | "mp = 7"
    | "mp = 8" | "mp = 9" | "mp = 10" | "mp = 11"
proof -
  have "mp = 0 \<or> mp = 1 \<or> mp = 2 \<or> mp = 3 \<or> mp = 4 \<or> mp = 5 \<or> mp = 6 \<or> mp = 7
      \<or> mp = 8 \<or> mp = 9 \<or> mp = 10 \<or> mp = 11"
    using assms by arith
  with that show thesis by blast
qed

lemma month_of_day:
  assumes "0 \<le> doy" "doy \<le> 365"
  defines "mp \<equiv> (5 * doy + 2) div 153"
  shows "0 \<le> mp" "mp \<le> 11" "month_start mp \<le> doy" "doy - month_start mp \<le> 30"
proof -
  show b: "0 \<le> mp" "mp \<le> 11" using assms by simp_all
  have "153 * mp \<le> 5 * doy + 2" "5 * doy + 2 < 153 * mp + 153"
    using assms by (simp_all add: mp_def)
  then show "month_start mp \<le> doy" "doy - month_start mp \<le> 30"
    by (rule_tac [!] month_cases [OF b]; simp add: month_start_def)+
qed

lemma month_of_start:
  assumes "0 \<le> mp" "mp \<le> 11"
  shows "(5 * month_start mp + 2) div 153 = mp" "0 \<le> month_start mp" "month_start mp \<le> 337"
  by (rule month_cases [OF assms]; simp add: month_start_def)+

text \<open>The day number of a date, without the overflow checks.\<close>

definition civil_days :: "int \<Rightarrow> int \<Rightarrow> int \<Rightarrow> int" where
  "civil_days year month day =
     (let y = year - (if month \<le> 2 then 1 else 0);
          mp = month + (if 2 < month then - 3 else 9)
      in y div 400 * 146097 + (365 * (y mod 400) + y mod 400 div 4 - y mod 400 div 100)
         + month_start mp + day - 1 - 719468)"

lemma i64_checked_small: "\<bar>x\<bar> \<le> 2 ^ 62 \<Longrightarrow> i64_checked x = Some x"
  by (auto simp: i64_checked_def i64_fits_def abs_le_iff)

lemma days_from_civil_days:
  assumes "1 \<le> month" "month \<le> 12" "1 \<le> day" "day \<le> 31" "\<bar>year\<bar> \<le> 2 ^ 40"
  shows "days_from_civil year month day = Some (civil_days year month day)"
proof -
  define y where "y = year - (if month \<le> 2 then 1 else 0)"
  define era yoe where "era = y div 400" and "yoe = y mod 400"
  define ms where "ms = month_start (month + (if 2 < month then - 3 else 9))"
  have y: "\<bar>y\<bar> \<le> 2 ^ 40 + 1" using assms(5) by (auto simp: y_def)
  have ye: "y = 400 * era + yoe" "0 \<le> yoe" "yoe < 400" by (simp_all add: era_def yoe_def)
  then have era: "\<bar>era\<bar> \<le> 2 ^ 40" using y by auto
  have mp: "0 \<le> month + (if 2 < month then - 3 else 9)" "month + (if 2 < month then - 3 else 9) \<le> 11"
    using assms(1,2) by auto
  have ms: "0 \<le> ms" "ms \<le> 337" using month_of_start [OF mp] by (simp_all add: ms_def)
  define A B where "A = yoe div 4" and "B = yoe div 100"
  have q: "0 \<le> A" "A \<le> 99" "0 \<le> B" "B \<le> 3" using ye by (auto simp: A_def B_def)
  have sub: "y - era * 400 = yoe" using ye by simp
  have folds: "y div 400 = era" "y mod 400 = yoe" "yoe div 4 = A" "yoe div 100 = B"
    by (simp_all only: era_def yoe_def A_def B_def)
  show ?thesis
    using assms(1,2,3,4) y ye(2,3) era ms q
    unfolding days_from_civil_def civil_days_def Let_def y_def [symmetric] ms_def [symmetric]
      month_start_def [symmetric]
    by (simp add: i64_checked_small folds sub)
qed

lemma civil_from_days_parts:
  fixes days :: int
  defines "era \<equiv> (days + 719468) div 146097" and "doe \<equiv> (days + 719468) mod 146097"
  defines "yoe \<equiv> year_of_era doe"
  defines "doy \<equiv> doe - year_start yoe"
  defines "mp \<equiv> (5 * doy + 2) div 153"
  shows "civil_from_days days = (yoe + era * 400 + (if mp < 10 then 0 else 1),
      mp + (if mp < 10 then 3 else - 9), doy - month_start mp + 1)"
    and "0 \<le> yoe" "yoe \<le> 399" "0 \<le> doy" "doy \<le> 365" "days + 719468 = era * 146097 + year_start yoe + doy"
proof -
  have doe: "0 \<le> doe" "doe < 146097" by (simp_all add: doe_def)
  note b = year_of_era_bounds [OF doe, folded yoe_def]
  show "0 \<le> yoe" "yoe \<le> 399" by (fact b)+
  show doy: "0 \<le> doy" "doy \<le> 365" using b year_start_step [of yoe] by (simp_all add: doy_def)
  have sum: "days + 719468 = era * 146097 + doe" by (simp add: era_def doe_def)
  then show "days + 719468 = era * 146097 + year_start yoe + doy" by (simp add: doy_def)
  have mp: "0 \<le> mp" "mp \<le> 11" using month_of_day [OF doy] by (simp_all add: mp_def)
  have e1: "days + 719468 - era * 146097 = doe" using sum by simp
  have e2: "doe - (365 * yoe + yoe div 4 - yoe div 100) = doy"
    using year_start_era [OF b(1,2)] by (simp add: doy_def)
  show "civil_from_days days = (yoe + era * 400 + (if mp < 10 then 0 else 1),
      mp + (if mp < 10 then 3 else - 9), doy - month_start mp + 1)"
    using mp
    unfolding civil_from_days_def Let_def era_def [symmetric] e1 year_of_era_def [symmetric]
      yoe_def [symmetric] e2 mp_def [symmetric] month_start_def [symmetric]
    by auto
qed

lemma civil_days_eq:
  assumes "0 \<le> mp" "mp \<le> 11" "0 \<le> yoe" "yoe \<le> 399"
  shows "civil_days (yoe + era * 400 + (if mp < 10 then 0 else 1)) (mp + (if mp < 10 then 3 else - 9)) day
    = era * 146097 + year_start yoe + month_start mp + day - 1 - 719468"
proof -
  have "(yoe + era * 400) div 400 = era" "(yoe + era * 400) mod 400 = yoe"
    using assms(3,4) by simp_all
  with assms year_start_era [OF assms(3,4)] show ?thesis by (auto simp: civil_days_def Let_def)
qed

lemma civil_of_days:
  assumes "civil_from_days days = (y, m, d)"
  shows "1 \<le> m" "m \<le> 12" "1 \<le> d" "d \<le> 31" "civil_days y m d = days" "\<bar>days\<bar> \<le> 2 ^ 39 \<Longrightarrow> \<bar>y\<bar> \<le> 2 ^ 39"
proof -
  note p = civil_from_days_parts [of days]
  define era where "era = (days + 719468) div 146097"
  define yoe where "yoe = year_of_era ((days + 719468) mod 146097)"
  define doy where "doy = (days + 719468) mod 146097 - year_start yoe"
  define mp where "mp = (5 * doy + 2) div 153"
  note p = p [folded era_def, folded yoe_def, folded doy_def, folded mp_def]
  have mp: "0 \<le> mp" "mp \<le> 11" "month_start mp \<le> doy" "doy - month_start mp \<le> 30"
    using month_of_day [OF p(4,5)] by (simp_all add: mp_def)
  from p(1) assms have ymd: "y = yoe + era * 400 + (if mp < 10 then 0 else 1)"
    "m = mp + (if mp < 10 then 3 else - 9)" "d = doy - month_start mp + 1" by simp_all
  show "1 \<le> m" "m \<le> 12" "1 \<le> d" "d \<le> 31" using mp ymd by auto
  show "civil_days y m d = days" using civil_days_eq [OF mp(1,2) p(2,3), of era d] p(6) ymd by simp
  assume "\<bar>days\<bar> \<le> 2 ^ 39"
  then have "- (2 ^ 30) \<le> era" "era \<le> 2 ^ 30" by (simp_all add: era_def)
  with p(2,3) ymd(1) show "\<bar>y\<bar> \<le> 2 ^ 39" by (auto split: if_splits)
qed

lemma split_year: "\<exists>yoe era. 0 \<le> yoe \<and> yoe \<le> 399 \<and> (y :: int) = yoe + era * 400"
  by (intro exI [of _ "y mod 400"] exI [of _ "y div 400"]) simp

lemma date_parts:
  fixes y m :: int
  assumes "1 \<le> m" "m \<le> 12"
  obtains mp yoe era where "0 \<le> mp" "mp \<le> 11" "0 \<le> yoe" "yoe \<le> 399"
    "y = yoe + era * 400 + (if mp < 10 then 0 else 1)" "m = mp + (if mp < 10 then 3 else - (9::int))"
proof -
  define mp where "mp = m + (if 2 < m then - 3 else 9)"
  obtain yoe era where y: "0 \<le> yoe" "yoe \<le> 399" "y - (if mp < 10 then 0 else 1) = yoe + era * 400"
    using split_year [of "y - (if mp < 10 then 0 else 1)"] by blast
  have mp: "0 \<le> mp" "mp \<le> 11" "m = mp + (if mp < 10 then 3 else - 9)"
    using assms by (auto simp: mp_def)
  have "y = yoe + era * 400 + (if mp < 10 then 0 else 1)" using y(3) by simp
  with mp y(1,2) show thesis by (intro that)
qed

lemma year_start_400: "year_start 0 = 0" "year_start 400 = 146097"
  by (simp_all add: year_start_def)

lemma civil_from_first:
  assumes "1 \<le> m" "m \<le> 12"
  shows "civil_from_days (civil_days y m 1) = (y, m, 1)"
proof -
  from assms obtain mp yoe era where mp: "0 \<le> mp" "mp \<le> 11" and yoe: "0 \<le> yoe" "yoe \<le> 399"
    and ym: "y = yoe + era * 400 + (if mp < 10 then 0 else 1)" "m = mp + (if mp < 10 then 3 else - 9)"
    by (rule date_parts)
  let ?days = "civil_days y m 1"
  define doe where "doe = year_start yoe + month_start mp"
  have d: "?days + 719468 = era * 146097 + doe"
    using civil_days_eq [OF mp yoe, of era 1] by (simp add: ym doe_def)
  note ms = month_of_start [OF mp]
  have "year_start 0 \<le> year_start yoe" "year_start (yoe + 1) \<le> year_start 400"
    using year_start_mono [of "-1" yoe] year_start_mono [of yoe 400] yoe by simp_all
  then have doe: "0 \<le> doe" "doe < 146097" "year_start yoe \<le> doe" "doe < year_start (yoe + 1)"
    using ms year_start_step [of yoe] by (simp_all add: doe_def year_start_400)
  have parts: "(?days + 719468) div 146097 = era" "(?days + 719468) mod 146097 = doe"
    using d doe by simp_all
  have "year_of_era doe = yoe" using doe by (rule year_of_era_unique)
  with civil_from_days_parts(1) [of ?days] parts ms(1) show ?thesis
    by (simp add: doe_def ym)
qed

lemma month_start_step: "0 \<le> mp \<Longrightarrow> mp \<le> 10 \<Longrightarrow> 30 \<le> month_start (mp + 1) - month_start mp \<and> month_start (mp + 1) - month_start mp \<le> 31"
proof -
  assume "0 \<le> mp" "mp \<le> 10"
  then have "0 \<le> mp" "mp \<le> 11" "mp \<noteq> 11" by simp_all
  then show ?thesis by (cases rule: month_cases [of mp]) (simp_all add: month_start_def)
qed

definition next_month :: "int \<Rightarrow> int \<Rightarrow> int \<times> int" where
  "next_month y m = (if m = 12 then (y + 1, 1) else (y, m + 1))"

lemma next_month_range: "1 \<le> m \<Longrightarrow> m \<le> 12 \<Longrightarrow> next_month y m = (y', m') \<Longrightarrow> 1 \<le> m' \<and> m' \<le> 12"
  by (auto simp: next_month_def split: if_splits)

lemma month_length:
  assumes "1 \<le> m" "m \<le> 12" "next_month y m = (y', m')"
  shows "28 \<le> civil_days y' m' 1 - civil_days y m 1" "civil_days y' m' 1 - civil_days y m 1 \<le> 31"
proof -
  from assms(1,2) obtain mp yoe era where mp: "0 \<le> mp" "mp \<le> 11" and yoe: "0 \<le> yoe" "yoe \<le> 399"
    and ym: "y = yoe + era * 400 + (if mp < 10 then 0 else 1)" "m = mp + (if mp < 10 then 3 else - 9)"
    by (rule date_parts)
  note here = civil_days_eq [OF mp yoe, of era 1, folded ym]
  have "28 \<le> civil_days y' m' 1 - civil_days y m 1 \<and> civil_days y' m' 1 - civil_days y m 1 \<le> 31"
  proof (cases "mp = 11")
    case False
    with mp have mp': "0 \<le> mp + 1" "mp + 1 \<le> 11" by simp_all
    have "y' = yoe + era * 400 + (if mp + 1 < 10 then 0 else 1)"
      "m' = mp + 1 + (if mp + 1 < 10 then 3 else - 9)"
      using assms(3) ym mp False by (auto simp: next_month_def split: if_splits)
    with civil_days_eq [OF mp' yoe, of era 1] here month_start_step [of mp] mp False show ?thesis by simp
  next
    case True
    then have ym': "y' = yoe + 1 + era * 400" "m' = 3" using assms(3) ym by (auto simp: next_month_def)
    have ms: "month_start 11 = 337" "month_start 0 = 0" by (simp_all add: month_start_def)
    have "civil_days y' m' 1 = era * 146097 + year_start (yoe + 1) - 719468"
    proof (cases "yoe = 399")
      case True
      with civil_days_eq [of 0 0 "era + 1" 1] ym' show ?thesis by (simp add: ms year_start_400 algebra_simps)
    next
      case False
      with civil_days_eq [of 0 "yoe + 1" era 1] yoe ym' show ?thesis by (simp add: ms)
    qed
    with here True ms year_start_step [of yoe] show ?thesis by simp
  qed
  then show "28 \<le> civil_days y' m' 1 - civil_days y m 1" "civil_days y' m' 1 - civil_days y m 1 \<le> 31"
    by simp_all
qed


section \<open>Epochs\<close>

lemma uint_start_div:
  "uint (s div TRACE_EPOCH_DURATION_MS) = uint s div 86400000"
  by (simp add: TRACE_EPOCH_DURATION_MS_def uint_div_distrib)

lemma is_multiple_of_day: "is_multiple_of s TRACE_EPOCH_DURATION_MS \<longleftrightarrow> uint s mod 86400000 = 0"
proof -
  have "uint (s mod 86400000) = uint s mod 86400000" by (simp add: uint_mod_distrib)
  then show ?thesis
    by (simp add: is_multiple_of_def TRACE_EPOCH_DURATION_MS_def uint_0_iff flip: uint_0_iff)
qed

lemma day_number_bound: "0 \<le> uint (s :: u64) div 86400000" "uint (s :: u64) div 86400000 \<le> 2 ^ 38"
proof -
  have "uint s < 2 ^ 64" "0 \<le> uint s" using uint_lt2p [of s] by simp_all
  then show "0 \<le> uint s div 86400000" "uint s div 86400000 \<le> 2 ^ 38"
    by (simp_all add: pos_imp_zdiv_nonneg_iff)
qed

lemma uint_u64: "0 \<le> x \<Longrightarrow> x < 2 ^ 64 \<Longrightarrow> uint (word_of_int x :: u64) = x"
  by (simp add: uint_word_of_int take_bit_int_eq_self)

text \<open>The month epoch, from the date of its first day.\<close>

lemma attribution_epoch_end_eq:
  assumes "ck_purpose k = Attribution" "ck_version k = COMPLIANCE_KEY_ID_VERSION"
    and "civil_from_days (uint (ck_epoch_start_ms k) div 86400000) = (y, m, d)"
    and "next_month y m = (y', m')"
  shows "attribution_epoch_end_ms k =
    (if uint (ck_epoch_start_ms k) mod 86400000 = 0 \<and> d = 1 \<and> civil_days y' m' 1 * 86400000 < 2 ^ 64
     then Ok (word_of_int (civil_days y' m' 1 * 86400000)) else Err InvalidAttributionEpoch)"
proof -
  let ?s = "ck_epoch_start_ms k" and ?n = "civil_days y' m' 1"
  let ?days = "uint ?s div 86400000"
  note db = day_number_bound [of ?s]
  note civ = civil_of_days [OF assms(3)]
  have "\<bar>y\<bar> \<le> 2 ^ 39" using civ(6) db by simp
  then have y: "\<bar>y'\<bar> \<le> 2 ^ 40" "i64_checked (y + 1) = Some (y + 1)"
    using assms(4) by (auto simp: next_month_def i64_checked_small split: if_splits)
  have nxt: "(if m = 12 then and_then (ok_or (i64_checked (y + 1)) InvalidAttributionEpoch) (\<lambda>y. Ok (y, 1))
      else Ok (y, m + 1)) = Ok (y', m')"
    using assms(4) y(2) by (auto simp: next_month_def split: if_splits)
  have m': "1 \<le> m'" "m' \<le> 12" using next_month_range [OF civ(1,2) assms(4)] by simp_all
  have n: "days_from_civil y' m' 1 = Some ?n" using m' y(1) by (intro days_from_civil_days) simp_all
  have days: "i64_checked ?days = Some ?days" using db by (intro i64_checked_small) simp
  show ?thesis
  proof (cases "uint ?s mod 86400000 = 0 \<and> d = 1")
    case True
    then have "civil_days y m 1 = ?days" using civ(5) by simp
    then have nb: "?days < ?n" "0 \<le> ?n" "?n < 2 ^ 64" "uint ?s < ?n * 86400000"
      using month_length [OF civ(1,2) assms(4)] db True by auto
    have unat: "unat (word_of_int ?n :: u64) = nat ?n"
      using nb(2,3) by (simp add: unat_eq_nat_uint uint_word_of_int take_bit_int_eq_self)
    have mul: "checked_mul (word_of_int ?n :: u64) TRACE_EPOCH_DURATION_MS =
        (if ?n * 86400000 < 2 ^ 64 then Some (word_of_int (?n * 86400000)) else None)"
    proof -
      have "nat ?n * 86400000 < 2 ^ 64 \<longleftrightarrow> ?n * 86400000 < 2 ^ 64" 
        using nb(2) by (cases ?n) auto
      then show ?thesis by (simp add: checked_mul_def unat TRACE_EPOCH_DURATION_MS_def)
    qed
    have "?s < word_of_int (?n * 86400000)" if "?n * 86400000 < 2 ^ 64"
      using that nb(2,4) by (simp only: word_less_def) (subst uint_u64; simp)
    then show ?thesis
      using True assms nb(2) mul nxt n days
      by (simp add: attribution_epoch_end_ms_def key_id_validate_def is_multiple_of_day uint_start_div)
  next
    case False
    then show ?thesis
      using assms(1,2,3) days
      by (auto simp: attribution_epoch_end_ms_def key_id_validate_def is_multiple_of_day uint_start_div)
  qed
qed

lemma attribution_epoch_purpose:
  assumes "attribution_epoch_end_ms k = Ok e"
  shows "ck_purpose k = Attribution" "ck_version k = COMPLIANCE_KEY_ID_VERSION"
  using assms by (auto simp: attribution_epoch_end_ms_def key_id_validate_def result_simps split: if_splits)

lemma capture_epochs:
  fixes s e :: nat
  assumes "s < e"
  shows "(\<lambda>t. t div 86400000) ` {s..<e} = {s div 86400000..(e - 1) div 86400000}"
proof (intro equalityI subsetI)
  fix d assume "d \<in> (\<lambda>t. t div 86400000) ` {s..<e}"
  then show "d \<in> {s div 86400000..(e - 1) div 86400000}" by (auto intro: div_le_mono)
next
  fix d assume d: "d \<in> {s div 86400000..(e - 1) div 86400000}"
  let ?t = "max s (d * 86400000)"
  have "d * 86400000 \<le> e - 1" using d by (simp add: less_eq_div_iff_mult_less_eq)
  then have "s \<le> ?t" "?t < e" using assms by auto
  moreover have "?t div 86400000 = d"
  proof (cases "s \<le> d * 86400000")
    case False
    then have "s div 86400000 = d" using d div_le_mono [of "d * 86400000" s 86400000] by simp
    with False show ?thesis by simp
  qed simp
  ultimately show "d \<in> (\<lambda>t. t div 86400000) ` {s..<e}"
    by (intro image_eqI [of _ _ ?t]) simp_all
qed

section \<open>Properties\<close>

text \<open>C29. The two wire codecs of the compliance format are strict: a byte string decodes exactly when it
  is the canonical encoding of a well-formed value, so no two byte strings decode to the same key
  identifier or claim and every well-formed value survives the round trip.\<close>

theorem compliance_codecs_strict:
  "(key_id_decode b = Ok k \<longleftrightarrow> key_id_wf k \<and> key_id_encode k = Ok b)
   \<and> (claim_decode w = Ok c \<longleftrightarrow> claim_wf c \<and> claim_encode c = w)"
  using key_id_codec.dec_iff [of b k] claim_codec.dec_iff [of w c] by simp

text \<open>The encoding is order preserving, as its documentation promises: for identifiers of one
  authority, purpose and jurisdiction, the byte order of the encodings is the order of epochs, then
  of generations.\<close>

theorem key_id_byte_order:
  assumes "key_id_encode k = Ok b" "key_id_encode k' = Ok b'"
    and "ck_purpose k = ck_purpose k'" "ck_jurisdiction k = ck_jurisdiction k'" "ck_authority k = ck_authority k'"
  shows "lex_less b b' \<longleftrightarrow> ck_epoch_start_ms k < ck_epoch_start_ms k'
    \<or> ck_epoch_start_ms k = ck_epoch_start_ms k' \<and> ck_generation k < ck_generation k'"
proof -
  have same: "lex_less (xs @ us) (xs @ vs) \<longleftrightarrow> lex_less us vs" for xs us vs :: bytes
    by (induction xs) auto
  have "ck_version k = ck_version k'"
    using assms(1,2) by (auto simp: key_id_encode_def key_id_validate_def result_simps)
  with assms have "lex_less b b' \<longleftrightarrow>
      lex_less (u64_be (ck_epoch_start_ms k) @ u32_be (ck_generation k))
               (u64_be (ck_epoch_start_ms k') @ u32_be (ck_generation k'))"
    by (auto simp: key_id_encode_def key_id_validate_def result_simps same)
  then show ?thesis by (simp add: lex_less_append u64_be_less u32_be_less)
qed

theorem key_id_byte_order_witness:
  "lex_less (projr (key_id_encode (key_id_new Attribution Eu (replicate 32 7) 255 9)))
            (projr (key_id_encode (key_id_new Attribution Eu (replicate 32 7) 256 1)))"
proof -
  let ?k = "key_id_new Attribution Eu (replicate 32 7) 255 9"
  let ?k' = "key_id_new Attribution Eu (replicate 32 7) 256 1"
  have "key_id_encode ?k = Ok (projr (key_id_encode ?k))" "key_id_encode ?k' = Ok (projr (key_id_encode ?k'))"
    by (simp_all add: key_id_encode_def key_id_validate_def key_id_new_def)
  from key_id_byte_order [OF this] show ?thesis by (simp add: key_id_new_def)
qed

lemma example_epoch_end:
  "attribution_epoch_end_ms (key_id_new Attribution Eu (replicate 32 7) 1706745600000 1) = Ok 1709251200000"
proof -
  let ?k = "key_id_new Attribution Eu (replicate 32 7) 1706745600000 1"
  have "uint (ck_epoch_start_ms ?k) div 86400000 = 19754" by (simp add: key_id_new_def)
  moreover have "civil_from_days 19754 = (2024, 2, 1)" by code_simp
  ultimately have "civil_from_days (uint (ck_epoch_start_ms ?k) div 86400000) = (2024, 2, 1)" by simp
  moreover have "civil_days 2024 3 1 = 19783" by code_simp
  ultimately show ?thesis
    using attribution_epoch_end_eq [of ?k 2024 2 1 2024 3] by (simp add: key_id_new_def next_month_def)
qed

text \<open>C28. A calendar-month attribution epoch: when \<^verbatim>\<open>attribution_epoch_end_ms\<close> accepts a key, its epoch
  starts at midnight on the first day of a Gregorian month, the returned end is midnight on the first
  day of the following month, and the epoch lasts 28 to 31 whole days.\<close>

theorem attribution_epoch_is_calendar_month:
  assumes "attribution_epoch_end_ms k = Ok e"
  shows "\<exists>y m. civil_from_days (uint (ck_epoch_start_ms k) div 86400000) = (y, m, 1)
    \<and> civil_from_days (uint e div 86400000) = (case next_month y m of (y', m') \<Rightarrow> (y', m', 1))
    \<and> uint (ck_epoch_start_ms k) mod 86400000 = 0 \<and> uint e mod 86400000 = 0
    \<and> 28 * 86400000 \<le> uint e - uint (ck_epoch_start_ms k)
    \<and> uint e - uint (ck_epoch_start_ms k) \<le> 31 * 86400000"
proof -
  let ?s = "ck_epoch_start_ms k"
  obtain y m d where c: "civil_from_days (uint ?s div 86400000) = (y, m, d)" by (metis prod_cases3)
  obtain y' m' where n: "next_month y m = (y', m')" by fastforce
  note civ = civil_of_days [OF c] and len = month_length [OF civil_of_days(1,2) [OF c] n]
  let ?n = "civil_days y' m' 1"
  have r: "uint ?s mod 86400000 = 0" "d = 1" "?n * 86400000 < 2 ^ 64" "e = word_of_int (?n * 86400000)"
    using assms attribution_epoch_end_eq [OF attribution_epoch_purpose [OF assms] c n]
    by (auto split: if_splits)
  have s: "uint ?s = civil_days y m 1 * 86400000" using r(1,2) civ(5) by auto
  then have "0 \<le> ?n" using len day_number_bound(1) [of ?s] by simp
  then have e: "uint e = ?n * 86400000"
    using r(3) unfolding r(4) by (intro uint_u64) simp_all
  have "civil_from_days ?n = (y', m', 1)"
    using next_month_range [OF civ(1,2) n] by (intro civil_from_first) simp_all
  with c r(1,2) s e n len show ?thesis by auto
qed

theorem attribution_epoch_is_calendar_month_witness:
  "\<exists>y m. civil_from_days (uint (ck_epoch_start_ms (key_id_new Attribution Eu (replicate 32 7) 1706745600000 1)) div 86400000) = (y, m, 1)
    \<and> civil_from_days (uint (1709251200000 :: u64) div 86400000) = (case next_month y m of (y', m') \<Rightarrow> (y', m', 1))"
  using attribution_epoch_is_calendar_month [OF example_epoch_end] by blast

text \<open>The calendar conversion is exact in both directions within the range the epochs use: the date
  computed for a day number converts back to that day number, whatever the year.\<close>

theorem civil_date_round_trip:
  assumes "\<bar>days\<bar> \<le> 2 ^ 39" "civil_from_days days = (y, m, d)"
  shows "days_from_civil y m d = Some days \<and> 1 \<le> m \<and> m \<le> 12 \<and> 1 \<le> d \<and> d \<le> 31"
  using civil_of_days [OF assms(2)] assms(1) days_from_civil_days [of m d y] by simp

theorem civil_date_round_trip_witness:
  "civil_from_days 19782 = (2024, 2, 29) \<and> days_from_civil 2024 2 29 = Some 19782"
proof -
  have "civil_from_days 19782 = (2024, 2, 29)" by code_simp
  with civil_date_round_trip [of 19782 2024 2 29] show ?thesis by simp
qed

text \<open>Capacity of a preservation order: the number of daily keys \<^verbatim>\<open>required_capacity_epochs\<close> asks for is
  exactly the number of distinct UTC days in which the capture policy captures something.\<close>

theorem preservation_capacity_exact:
  assumes "rp_capture p = Preservation starts_at expires_at" "required_capacity_epochs p = Ok n"
  shows "unat n = card ((\<lambda>t. t div 86400000) ` unat ` {t. captures (rp_capture p) t})"
proof -
  let ?s = "unat starts_at" and ?e = "unat expires_at"
  from assms obtain l k where pos: "starts_at < expires_at"
    and c: "checked_sub expires_at 1 = Some l" "checked_add k 1 = Some n"
      "checked_sub (l div TRACE_EPOCH_DURATION_MS) (starts_at div TRACE_EPOCH_DURATION_MS) = Some k"
    by (auto simp: required_capacity_epochs_def Let_def result_simps bind_eq_Some_conv
        split: jurisdiction.splits option.splits if_splits)
  have lt: "?s < ?e" using pos by (simp add: word_less_nat_alt)
  have divs: "unat (x div TRACE_EPOCH_DURATION_MS) = unat x div 86400000" for x
    by (simp add: TRACE_EPOCH_DURATION_MS_def unat_div)
  have le: "?s div 86400000 \<le> (?e - 1) div 86400000" using lt by (intro div_le_mono) simp
  have "unat n = (?e - 1) div 86400000 - ?s div 86400000 + 1"
    using c by (simp add: checked_sub_Some checked_add_Some divs)
  moreover have "unat ` {t. captures (rp_capture p) t} = {?s..<?e}"
  proof (intro equalityI subsetI)
    fix x assume "x \<in> {?s..<?e}"
    then have "x = unat (word_of_nat x :: u64)"
      using unat_lt2p [of expires_at] by (simp add: unat_of_nat take_bit_nat_eq_self)
    with \<open>x \<in> {?s..<?e}\<close> show "x \<in> unat ` {t. captures (rp_capture p) t}"
      by (auto simp: assms(1) word_le_nat_alt word_less_nat_alt intro!: image_eqI [of x])
  qed (auto simp: assms(1) word_le_nat_alt word_less_nat_alt)
  ultimately show ?thesis using capture_epochs [OF lt] le by (simp add: Suc_diff_le)
qed

theorem preservation_capacity_exact_witness:
  "unat (2 :: u64) = card ((\<lambda>t. t div 86400000) ` unat ` {t. captures (Preservation 86399999 86400001) t})"
proof -
  let ?p = "\<lparr>rp_jurisdiction = Eu, rp_capture = Preservation 86399999 86400001, rp_retention_days = None\<rparr>"
  have "required_capacity_epochs ?p = Ok 2"
    by (simp add: required_capacity_epochs_def checked_sub_def checked_add_def TRACE_EPOCH_DURATION_MS_def)
  with preservation_capacity_exact [of ?p 86399999 86400001 2] show ?thesis by simp
qed

text \<open>What a sender's attribution signature binds: two preimages are equal only if block version, key
  identifier, compliance key digest, ephemeral key, event, recipient and time all agree, and no signing
  preimage is ever an associated-data string.\<close>

theorem attribution_preimage_binds:
  assumes "attribution_signing_preimage v k dg e_pk ev rcpt t = Ok p"
    and "attribution_signing_preimage v' k' dg' e_pk' ev' rcpt' t' = Ok p'"
    and "\<forall>x \<in> {dg, dg', e_pk, e_pk', ev, ev', rcpt, rcpt', ck_authority k, ck_authority k'}. length x = 32"
  shows "(p = p' \<longleftrightarrow> v = v' \<and> k = k' \<and> dg = dg' \<and> e_pk = e_pk' \<and> ev = ev' \<and> rcpt = rcpt' \<and> t = t')
    \<and> attribution_aad v' k' dg' e_pk' ev' rcpt' \<noteq> Ok p"
proof -
  from assms(1,2) obtain b b' where b: "key_id_encode k = Ok b" "key_id_encode k' = Ok b'"
    and p: "p = ATTRIBUTION_SIGNATURE_DOMAIN @ [v] @ b @ dg @ e_pk @ ev @ rcpt @ u64_be t"
      "p' = ATTRIBUTION_SIGNATURE_DOMAIN @ [v'] @ b' @ dg' @ e_pk' @ ev' @ rcpt' @ u64_be t'"
    by (auto simp: attribution_signing_preimage_def result_simps)
  have len: "length b = 47" "length b' = 47"
    using b assms(3) by (auto dest: key_id_encode_length)
  have "b = b' \<longleftrightarrow> k = k'" using b key_id_encode_inject [of k b k'] assms(3) by auto
  then have 1: "p = p' \<longleftrightarrow> v = v' \<and> k = k' \<and> dg = dg' \<and> e_pk = e_pk' \<and> ev = ev' \<and> rcpt = rcpt' \<and> t = t'"
    using len assms(3) by (auto simp: p)
  have 2: "take 29 p \<noteq> ATTRIBUTION_AAD_DOMAIN"
    by (simp add: p ATTRIBUTION_SIGNATURE_DOMAIN_def ATTRIBUTION_AAD_DOMAIN_def as_bytes_def)
  have "take 29 q = ATTRIBUTION_AAD_DOMAIN" if "attribution_aad v' k' dg' e_pk' ev' rcpt' = Ok q" for q
    using that by (auto simp: attribution_aad_def result_simps ATTRIBUTION_AAD_DOMAIN_def as_bytes_def)
  with 1 2 show ?thesis by blast
qed

theorem attribution_preimage_binds_witness:
  "attribution_signing_preimage 3 (key_id_new Attribution Eu (replicate 32 7) 0 1) (replicate 32 1)
      (replicate 32 2) (replicate 32 3) (replicate 32 4) 5
    \<noteq> attribution_signing_preimage 3 (key_id_new Attribution Eu (replicate 32 7) 0 1) (replicate 32 1)
      (replicate 32 2) (replicate 32 3) (replicate 32 4) 6"
proof -
  let ?k = "key_id_new Attribution Eu (replicate 32 7) 0 1"
  let ?p = "attribution_signing_preimage 3 ?k (replicate 32 1) (replicate 32 2) (replicate 32 3) (replicate 32 4)"
  have ok: "?p t = Ok (projr (?p t))" for t
    by (simp add: attribution_signing_preimage_def validate_block_version_def ATTRIBUTION_BLOCK_VERSION_def
        key_id_encode_def key_id_validate_def key_id_new_def)
  from attribution_preimage_binds [OF ok ok, of 5 6] have "projr (?p 5) \<noteq> projr (?p 6)"
    by (simp add: key_id_new_def)
  then show ?thesis by metis
qed

end
