(* ===== verification/Decimal.thy ===== *)
theory Decimal
  imports Prelude
begin

text \<open>
  Decimal integers as the standard library prints and parses them: \<^verbatim>\<open>format!("{n}")\<close> and
  \<^verbatim>\<open>str::parse\<close> for an unsigned type with a given bound.
\<close>

definition digit_char :: "nat \<Rightarrow> char" where
  "digit_char d = char_of (48 + d)"

fun decimal :: "nat \<Rightarrow> string" where
  "decimal n = (if n < 10 then [digit_char n] else decimal (n div 10) @ [digit_char (n mod 10)])"

declare decimal.simps [simp del]

definition digit_val :: "char \<Rightarrow> nat" where
  "digit_val c = code c - 48"

definition digits_val :: "string \<Rightarrow> nat" where
  "digits_val s = foldl (\<lambda>acc c. acc * 10 + digit_val c) 0 s"

text \<open>Parsing: an optional plus sign, then digits only, and the value must fit.\<close>

definition parse_unsigned :: "nat \<Rightarrow> string \<Rightarrow> nat option" where
  "parse_unsigned bound s =
     (let ds = (case s of CHR ''+'' # rest \<Rightarrow> (if rest = [] then s else rest) | _ \<Rightarrow> s)
      in if ds \<noteq> [] \<and> list_all is_ascii_digit ds \<and> digits_val ds < bound then Some (digits_val ds) else None)"

lemma code_digit_char: "d < 10 \<Longrightarrow> code (digit_char d) = 48 + d"
  by (simp add: digit_char_def of_char_of)

lemma digit_char_is_digit: "d < 10 \<Longrightarrow> is_ascii_digit (digit_char d)"
  by (simp add: is_ascii_digit_def code_digit_char)

lemma digit_val_digit_char: "d < 10 \<Longrightarrow> digit_val (digit_char d) = d"
  by (simp add: digit_val_def code_digit_char)

lemma decimal_digits: "list_all is_ascii_digit (decimal n)"
proof (induction n rule: decimal.induct)
  case (1 n)
  then show ?case by (subst decimal.simps) (auto simp: digit_char_is_digit)
qed

lemma decimal_nonempty [simp]: "decimal n \<noteq> []"
  by (subst decimal.simps) simp

lemma digits_val_decimal [simp]: "digits_val (decimal n) = n"
proof (induction n rule: decimal.induct)
  case (1 n)
  show ?case
  proof (cases "n < 10")
    case True
    then show ?thesis by (simp add: decimal.simps [of n] digits_val_def digit_val_digit_char)
  next
    case False
    with 1 have "digits_val (decimal (n div 10)) = n div 10" by simp
    with False show ?thesis
      by (simp add: decimal.simps [of n] digits_val_def digit_val_digit_char)
  qed
qed

lemma decimal_inject: "decimal m = decimal n \<longleftrightarrow> m = n"
  by (metis digits_val_decimal)

lemma not_digit_plus: "\<not> is_ascii_digit (CHR ''+'')"
  by (simp add: is_ascii_digit_def)

lemma parse_digits:
  assumes "list_all is_ascii_digit s" "s \<noteq> []" "digits_val s < bound"
  shows "parse_unsigned bound s = Some (digits_val s)"
proof -
  have "(case s of CHR ''+'' # rest \<Rightarrow> (if rest = [] then s else rest) | _ \<Rightarrow> s) = s"
    using assms(1) not_digit_plus by (auto split: list.splits char.splits bool.splits)
  then show ?thesis using assms by (simp add: parse_unsigned_def)
qed

lemma parse_decimal: "n < bound \<Longrightarrow> parse_unsigned bound (decimal n) = Some n"
  using parse_digits [OF decimal_digits, of n bound] by simp

end
