(* ===== verification/Fetch_Auth.thy ===== *)
theory Fetch_Auth
  imports Keys Network
begin

text \<open>
  \<^verbatim>\<open>pigeonpost-core/src/fetch_auth.rs\<close>: the signed credential a mailbox owner presents to drain its
  mail from a loft, and the origin rule it shares with capability tokens. The \<^verbatim>\<open>url\<close> crate is a
  parameter: a parser from text to the components the code reads.
\<close>

record parsed_url =
  url_scheme :: string
  url_username :: string
  url_password :: "string option"
  url_host :: "string option"
  url_port :: "u16 option"
  url_path :: string
  url_query :: "string option"
  url_fragment :: "string option"
  url_text :: string
  url_cannot_be_a_base :: bool

type_synonym url_parser = "string \<Rightarrow> parsed_url option"

definition SIG_DOMAIN_FETCH :: bytes where
  "SIG_DOMAIN_FETCH = as_bytes ''pigeonpost/fetch-auth/v2''"

definition MAX_LOFT_ORIGIN_BYTES :: nat where
  "MAX_LOFT_ORIGIN_BYTES = 2048"

definition CLOCK_SKEW_MINUTES :: u64 where
  "CLOCK_SKEW_MINUTES = 5"

record fetch_auth =
  fa_recipient :: bytes
  fa_loft_pubkey :: bytes
  fa_loft_origin :: string
  fa_minute :: u64
  fa_cursor :: u64
  fa_signature :: bytes

definition validate_loft_origin :: "url_parser \<Rightarrow> string \<Rightarrow> error + unit" where
  "validate_loft_origin parse origin =
     (if origin = [] \<or> MAX_LOFT_ORIGIN_BYTES < length origin
      then Err (MalformedEnvelope ''invalid loft origin'')
      else case parse origin of
          None \<Rightarrow> Err (MalformedEnvelope ''invalid loft origin'')
        | Some u \<Rightarrow>
            if url_username u \<noteq> [] \<or> url_password u \<noteq> None \<or> url_query u \<noteq> None
               \<or> url_fragment u \<noteq> None \<or> url_path u \<notin> {'''', ''/''} \<or> url_host u = None
               \<or> url_port u = Some 0
            then Err (MalformedEnvelope ''invalid loft origin'')
            else case url_host u of
                None \<Rightarrow> Err (MalformedEnvelope ''invalid loft origin'')
              | Some host \<Rightarrow>
                  if is_localhost_name host then Err (MalformedEnvelope ''invalid loft origin'')
                  else if url_scheme u \<noteq> ''https''
                          \<and> \<not> (url_scheme u = ''http'' \<and> is_numeric_loopback_host host)
                       then Err (MalformedEnvelope ''invalid loft origin'')
                  else if trim_end_char (CHR ''/'') (url_text u) \<noteq> origin
                       then Err (MalformedEnvelope ''noncanonical loft origin'')
                  else Ok ())"

definition fetch_payload :: "bytes \<Rightarrow> bytes \<Rightarrow> string \<Rightarrow> u64 \<Rightarrow> u64 \<Rightarrow> bytes" where
  "fetch_payload recipient loft loft_origin minute cursor =
     SIG_DOMAIN_FETCH @ recipient @ loft @ u16_le (word_of_nat (length loft_origin))
     @ as_bytes loft_origin @ u64_le minute @ u64_le cursor"

definition fetch_auth_new ::
  "crypto \<Rightarrow> url_parser \<Rightarrow> identity \<Rightarrow> bytes \<Rightarrow> string \<Rightarrow> u64 \<Rightarrow> u64 \<Rightarrow> error + fetch_auth" where
  "fetch_auth_new C parse i loft_pubkey loft_origin minute cursor =
     and_then (validate_loft_origin parse loft_origin) (\<lambda>_.
     let recipient = verifying_key C i;
         payload = fetch_payload recipient loft_pubkey loft_origin minute cursor
     in Ok \<lparr>fa_recipient = recipient, fa_loft_pubkey = loft_pubkey, fa_loft_origin = loft_origin,
            fa_minute = minute, fa_cursor = cursor, fa_signature = sign C i payload\<rparr>)"

definition fetch_auth_verify ::
  "crypto \<Rightarrow> url_parser \<Rightarrow> fetch_auth \<Rightarrow> bytes \<Rightarrow> string \<Rightarrow> u64 \<Rightarrow> error + bytes" where
  "fetch_auth_verify C parse a loft_pubkey loft_origin now_minute =
     and_then (validate_loft_origin parse loft_origin) (\<lambda>_.
     and_then (validate_loft_origin parse (fa_loft_origin a)) (\<lambda>_.
     if fa_loft_pubkey a \<noteq> loft_pubkey \<or> fa_loft_origin a \<noteq> loft_origin then Err BadSignature
     else if CLOCK_SKEW_MINUTES < abs_diff (fa_minute a) now_minute then Err StaleTimestamp
     else and_then (verifying_key_from_bytes C (fa_recipient a)) (\<lambda>key.
       let payload = fetch_payload (fa_recipient a) (fa_loft_pubkey a) (fa_loft_origin a)
                       (fa_minute a) (fa_cursor a)
       in and_then (verify C key payload (fa_signature a)) (\<lambda>_. Ok key))))"

section \<open>Origins\<close>

lemma validate_loft_origin_Ok:
  assumes "validate_loft_origin parse origin = Ok u"
  obtains v host where "parse origin = Some v" "url_host v = Some host" "0 < length origin"
    "length origin \<le> 2048" "\<not> is_localhost_name host"
    "url_scheme v = ''https'' \<or> url_scheme v = ''http'' \<and> is_numeric_loopback_host host"
    "trim_end_char (CHR ''/'') (url_text v) = origin" "url_username v = []" "url_password v = None"
    "url_port v \<noteq> Some 0"
  using assms
  by (auto simp: validate_loft_origin_def MAX_LOFT_ORIGIN_BYTES_def not_less
      split: if_splits option.splits)

lemma u16_length_inj:
  assumes "length s \<le> 2048" "length t \<le> 2048"
  shows "(word_of_nat (length s) :: u16) = word_of_nat (length t) \<longleftrightarrow> length s = length t"
proof -
  have "unat (word_of_nat (length s) :: u16) = length s" "unat (word_of_nat (length t) :: u16) = length t"
    using assms by (simp_all add: unat_of_nat take_bit_nat_eq_self)
  then show ?thesis by metis
qed

text \<open>An origin behind its 16-bit length cannot run into what follows.\<close>

lemma origin_field_cancel:
  assumes "length s \<le> 2048" "length t \<le> 2048"
  shows "u16_le (word_of_nat (length s)) @ as_bytes s @ xs = u16_le (word_of_nat (length t)) @ as_bytes t @ ys
    \<longleftrightarrow> s = t \<and> xs = ys"
proof
  assume eq: "u16_le (word_of_nat (length s)) @ as_bytes s @ xs = u16_le (word_of_nat (length t)) @ as_bytes t @ ys"
  then have "length s = length t" using u16_length_inj [OF assms] by simp
  with eq show "s = t \<and> xs = ys" by simp
qed simp

lemma fetch_payload_inject:
  assumes "length r = 32" "length r' = 32" "length l = 32" "length l' = 32"
    and "length s \<le> 2048" "length s' \<le> 2048"
  shows "fetch_payload r l s m c = fetch_payload r' l' s' m' c' \<longleftrightarrow>
    r = r' \<and> l = l' \<and> s = s' \<and> m = m' \<and> c = c'"
  using assms by (auto simp: fetch_payload_def origin_field_cancel)

section \<open>Properties\<close>

text \<open>A credential made for a loft is accepted by that loft, and names its maker, whenever the two
  clocks differ by at most five minutes.\<close>

theorem fetch_auth_accepted:
  assumes "signature_contract C" "length (seed i) = 32"
    and "fetch_auth_new C parse i loft_pubkey origin minute cursor = Ok a"
    and "unat (abs_diff minute now) \<le> 5"
  shows "fetch_auth_verify C parse a loft_pubkey origin now = Ok (verifying_key C i)"
  using assms
  by (auto simp: fetch_auth_new_def fetch_auth_verify_def result_simps Let_def signature_contractD
      CLOCK_SKEW_MINUTES_def word_less_nat_alt not_less)

text \<open>C38. Whatever a loft accepts is a signature, under the key it returns, over a payload that names this
  loft's key, this loft's origin and a minute within the window; an accepted credential signed for one
  loft, origin, minute or cursor is therefore a different signed message from any other.\<close>

theorem fetch_auth_binds:
  assumes "fetch_auth_verify C parse a loft_pubkey origin now = Ok key"
    and "fetch_auth_verify C parse b loft_pubkey' origin' now' = Ok key'"
    and "\<forall>x \<in> {fa_recipient a, fa_recipient b, loft_pubkey, loft_pubkey'}. length x = 32"
  shows "key = fa_recipient a
    \<and> ed_verify_strict C key (fetch_payload key loft_pubkey origin (fa_minute a) (fa_cursor a)) (fa_signature a)
    \<and> unat (abs_diff (fa_minute a) now) \<le> 5
    \<and> (fetch_payload key loft_pubkey origin (fa_minute a) (fa_cursor a)
         = fetch_payload key' loft_pubkey' origin' (fa_minute b) (fa_cursor b)
       \<longrightarrow> key = key' \<and> loft_pubkey = loft_pubkey' \<and> origin = origin' \<and> fa_minute a = fa_minute b
         \<and> fa_cursor a = fa_cursor b)"
proof -
  have v: "fa_loft_pubkey a = l \<and> fa_loft_origin a = s \<and> k = fa_recipient a \<and> length s \<le> 2048
      \<and> unat (abs_diff (fa_minute a) n) \<le> 5
      \<and> ed_verify_strict C k (fetch_payload k l s (fa_minute a) (fa_cursor a)) (fa_signature a)"
    if "fetch_auth_verify C parse a l s n = Ok k" for a l s n k
    using that
    by (auto simp: fetch_auth_verify_def result_simps Let_def verifying_key_from_bytes_Ok verify_Ok
        CLOCK_SKEW_MINUTES_def word_less_nat_alt not_less split: if_splits elim: validate_loft_origin_Ok)
  show ?thesis
    using v [OF assms(1)] v [OF assms(2)] assms(3) fetch_payload_inject by auto
qed

text \<open>The origin rule: an accepted origin is nonempty, at most 2048 bytes, carries no credentials, is
  the parser's own spelling of itself, never names \<^verbatim>\<open>localhost\<close>, and uses plain HTTP only for a numeric
  loopback address.\<close>

theorem loft_origin_rule:
  assumes "validate_loft_origin parse origin = Ok ()"
  shows "\<exists>u host. parse origin = Some u \<and> url_host u = Some host \<and> \<not> is_localhost_name host
    \<and> url_username u = [] \<and> url_password u = None \<and> url_port u \<noteq> Some 0
    \<and> (url_scheme u = ''https'' \<or> url_scheme u = ''http'' \<and> is_numeric_loopback_host host)
    \<and> trim_end_char (CHR ''/'') (url_text u) = origin \<and> 0 < length origin \<and> length origin \<le> 2048"
  using assms by (rule validate_loft_origin_Ok) blast

section \<open>Evaluation\<close>

text \<open>A parser that knows one origin.\<close>

definition example_origin :: string where
  "example_origin = ''https://loft.example''"

definition example_parser :: url_parser where
  "example_parser s =
     (if s = example_origin
      then Some \<lparr>url_scheme = ''https'', url_username = [], url_password = None,
                 url_host = Some ''loft.example'', url_port = None, url_path = ''/'',
                 url_query = None, url_fragment = None, url_text = ''https://loft.example/'',
                 url_cannot_be_a_base = False\<rparr>
      else None)"

lemma example_origin_valid: "validate_loft_origin example_parser example_origin = Ok ()"
  by code_simp

theorem loft_origin_rule_witness:
  "\<exists>u host. example_parser example_origin = Some u \<and> url_host u = Some host \<and> \<not> is_localhost_name host"
  using loft_origin_rule [OF example_origin_valid] by blast

lemma example_auth:
  "\<exists>a. fetch_auth_new toy example_parser (from_seed (replicate 32 1)) (replicate 32 2) example_origin 100 7 = Ok a
    \<and> fetch_auth_verify toy example_parser a (replicate 32 2) example_origin 103 = Ok (replicate 32 1)
    \<and> fa_recipient a = replicate 32 1"
  by (simp add: fetch_auth_new_def fetch_auth_verify_def example_origin_valid Let_def from_seed_def
      verifying_key_def sign_def verify_def verifying_key_from_bytes_def toy_def CLOCK_SKEW_MINUTES_def
      abs_diff_def)

theorem fetch_auth_accepted_witness:
  "\<exists>a. fetch_auth_new toy example_parser (from_seed (replicate 32 1)) (replicate 32 2) example_origin 100 7 = Ok a
    \<and> fetch_auth_verify toy example_parser a (replicate 32 2) example_origin 104
        = Ok (verifying_key toy (from_seed (replicate 32 1)))"
proof -
  obtain a where a: "fetch_auth_new toy example_parser (from_seed (replicate 32 1)) (replicate 32 2) example_origin 100 7 = Ok a"
    using example_auth by blast
  have "fetch_auth_verify toy example_parser a (replicate 32 2) example_origin 104
      = Ok (verifying_key toy (from_seed (replicate 32 1)))"
    by (rule fetch_auth_accepted [OF _ _ a]) (simp_all add: from_seed_def abs_diff_def)
  with a show ?thesis by blast
qed

theorem fetch_auth_binds_witness:
  "\<exists>a. fetch_auth_verify toy example_parser a (replicate 32 2) example_origin 103 = Ok (replicate 32 1)
    \<and> unat (abs_diff (fa_minute a) 103) \<le> 5"
proof -
  obtain a where a: "fetch_auth_verify toy example_parser a (replicate 32 2) example_origin 103 = Ok (replicate 32 1)"
    "fa_recipient a = replicate 32 1"
    using example_auth by blast
  from fetch_auth_binds [OF a(1) a(1)] a show ?thesis by auto
qed

end
