(* ===== verification/Token.thy ===== *)
theory Token
  imports Fetch_Auth Hex
begin

text \<open>
  \<^verbatim>\<open>pigeonpost-core/src/token.rs\<close> and \<^verbatim>\<open>pow.rs\<close>: capability tokens bound to one loft, and hashcash
  stamps.
\<close>

section \<open>Tokens\<close>

definition TOKEN_DOMAIN :: bytes where
  "TOKEN_DOMAIN = as_bytes ''pigeonpost/token/v1''"

definition BOUND_DOMAIN :: bytes where
  "BOUND_DOMAIN = as_bytes ''pigeonpost/token-bound/v2''"

definition mint :: "crypto \<Rightarrow> bytes \<Rightarrow> string \<Rightarrow> bytes" where
  "mint C secret label = hmac_sha256 C secret (TOKEN_DOMAIN @ as_bytes label)"

definition token_to_hex :: "bytes \<Rightarrow> string" where
  "token_to_hex t = to_hex t"

definition token_from_hex :: "string \<Rightarrow> bytes option" where
  "token_from_hex h = (if length h \<noteq> 64 then None else from_hex_pairs h)"

definition presentation_preimage :: "bytes \<Rightarrow> bytes \<Rightarrow> string \<Rightarrow> bytes" where
  "presentation_preimage t loft_pubkey loft_origin =
     BOUND_DOMAIN @ t @ loft_pubkey @ u16_le (word_of_nat (length loft_origin)) @ as_bytes loft_origin"

definition presentation :: "crypto \<Rightarrow> url_parser \<Rightarrow> bytes \<Rightarrow> bytes \<Rightarrow> string \<Rightarrow> error + bytes" where
  "presentation C parse t loft_pubkey loft_origin =
     and_then (validate_loft_origin parse loft_origin) (\<lambda>_.
     Ok (sha256 C (presentation_preimage t loft_pubkey loft_origin)))"

definition presentation_matches :: "bytes \<Rightarrow> bytes \<Rightarrow> bool" where
  "presentation_matches p registered \<longleftrightarrow> p = registered"

section \<open>Stamps\<close>

definition POW_DOMAIN :: bytes where
  "POW_DOMAIN = as_bytes ''pigeonpost/pow/v1''"

text \<open>\<^verbatim>\<open>u8::leading_zeros\<close>.\<close>

definition leading_zeros8 :: "u8 \<Rightarrow> nat" where
  "leading_zeros8 b = length (takeWhile (\<lambda>i. \<not> bit b i) (rev [0..<8]))"

fun leading_zero_bits :: "bytes \<Rightarrow> nat" where
  "leading_zero_bits [] = 0"
| "leading_zero_bits (byte # rest) =
     (if byte = 0 then 8 + leading_zero_bits rest else leading_zeros8 byte)"

definition work :: "crypto \<Rightarrow> bytes \<Rightarrow> u64 \<Rightarrow> u32" where
  "work C ident nonce = word_of_nat (leading_zero_bits (sha256 C (POW_DOMAIN @ ident @ u64_le nonce)))"

definition mine :: "crypto \<Rightarrow> bytes \<Rightarrow> u32 \<Rightarrow> u64 \<Rightarrow> u64 option" where
  "mine C ident difficulty max_attempts =
     find (\<lambda>nonce. difficulty \<le> work C ident nonce) (map word_of_nat [0..<unat max_attempts])"

definition pow_verify :: "crypto \<Rightarrow> bytes \<Rightarrow> u64 \<Rightarrow> u32 \<Rightarrow> error + unit" where
  "pow_verify C ident nonce difficulty =
     (if difficulty = 0 then Ok ()
      else if difficulty \<le> work C ident nonce then Ok () else Err InsufficientWork)"

section \<open>Lemmas\<close>

lemma leading_zeros8_bits: "leading_zeros8 b = length (takeWhile Not (bits_msb 8 b))"
  by (simp add: leading_zeros8_def bits_msb_def takeWhile_map comp_def)

lemma zero_byte_bits: "b = 0 \<longleftrightarrow> (\<forall>x \<in> set (bits_msb 8 (b :: u8)). \<not> x)"
proof
  assume *: "\<forall>x \<in> set (bits_msb 8 b). \<not> x"
  show "b = 0"
  proof (rule bit_word_eqI)
    fix n assume "n < LENGTH(8)"
    with * show "bit b n = bit 0 n" by (auto simp: bits_msb_def)
  qed
qed (auto simp: bits_msb_def)

lemma leading_zero_bits_spec:
  "leading_zero_bits bs = length (takeWhile Not (concat (map (bits_msb 8) bs)))"
proof (induction bs)
  case (Cons b bs)
  show ?case
  proof (cases "b = 0")
    case True
    then have "\<And>x. x \<in> set (bits_msb 8 b) \<Longrightarrow> \<not> x" using zero_byte_bits [of b] by blast
    then have "takeWhile Not (bits_msb 8 b @ concat (map (bits_msb 8) bs))
        = bits_msb 8 b @ takeWhile Not (concat (map (bits_msb 8) bs))"
      by (rule takeWhile_append2)
    then show ?thesis using Cons True by simp
  next
    case False
    then obtain x where "x \<in> set (bits_msb 8 b)" "\<not> \<not> x" using zero_byte_bits [of b] by auto
    then show ?thesis using False by (simp add: takeWhile_append1 leading_zeros8_bits)
  qed
qed simp

lemma unat_work:
  assumes "hash_contract C"
  shows "unat (work C ident nonce) = leading_zero_bits (sha256 C (POW_DOMAIN @ ident @ u64_le nonce))"
proof -
  let ?d = "sha256 C (POW_DOMAIN @ ident @ u64_le nonce)"
  have "length (concat (map (bits_msb 8) bs)) = 8 * length bs" for bs :: bytes
    by (induction bs) auto
  then have "leading_zero_bits ?d \<le> 256"
    using length_takeWhile_le [of Not "concat (map (bits_msb 8) ?d)"] sha256_length [OF assms]
    by (simp add: leading_zero_bits_spec)
  then show ?thesis by (simp add: work_def unat_of_nat take_bit_nat_eq_self)
qed

section \<open>Properties\<close>

text \<open>Mining: the nonce found is the smallest that meets the difficulty and its stamp verifies; when
  none is found, every nonce below the attempt bound would be refused. The search is bounded, so it
  always returns.\<close>

theorem mine_finds_least:
  "case mine C ident difficulty max_attempts of
     Some nonce \<Rightarrow> nonce < max_attempts \<and> pow_verify C ident nonce difficulty = Ok ()
       \<and> (\<forall>n. n < nonce \<longrightarrow> work C ident n < difficulty)
   | None \<Rightarrow> (\<forall>n. n < max_attempts \<longrightarrow> pow_verify C ident n difficulty = Err InsufficientWork
       \<and> work C ident n < difficulty)"
proof (cases "mine C ident difficulty max_attempts")
  case None
  have "work C ident n < difficulty" if "n < max_attempts" for n
  proof -
    have "unat n < unat max_attempts" using that by (simp add: word_less_nat_alt)
    then show ?thesis using None by (force simp: mine_def find_None_iff not_le)
  qed
  moreover have "difficulty \<noteq> 0" if "n < max_attempts" for n using calculation [OF that] by auto
  ultimately show ?thesis using None by (simp add: pow_verify_def) (metis not_le)
next
  case (Some nonce)
  then obtain i where i: "i < unat max_attempts" "nonce = word_of_nat i" "difficulty \<le> work C ident nonce"
    "\<And>j. j < i \<Longrightarrow> \<not> difficulty \<le> work C ident (word_of_nat j)"
    by (auto simp: mine_def find_Some_iff)
  have u: "unat nonce = i"
    using i(1,2) unat_lt2p [of max_attempts] by (simp add: unat_of_nat take_bit_nat_eq_self)
  have "work C ident n < difficulty" if "n < nonce" for n
    using i(4) [of "unat n"] that u by (simp add: word_less_nat_alt not_le)
  moreover have "nonce < max_attempts" using i(1) u by (simp add: word_less_nat_alt)
  ultimately show ?thesis using Some i(3) by (simp add: pow_verify_def)
qed

text \<open>The difficulty a stamp is credited with is the number of leading zero bits of the digest read as
  one big-endian bit string, across byte boundaries, and never overflows.\<close>

theorem work_counts_leading_zeros:
  assumes "hash_contract C"
  shows "unat (work C ident nonce)
    = length (takeWhile Not (concat (map (bits_msb 8) (sha256 C (POW_DOMAIN @ ident @ u64_le nonce)))))"
  using assms by (simp add: unat_work leading_zero_bits_spec)

theorem work_counts_leading_zeros_witness:
  "unat (work toy (zeros 32) 5)
    = length (takeWhile Not (concat (map (bits_msb 8) (sha256 toy (POW_DOMAIN @ zeros 32 @ u64_le 5)))))"
  by (rule work_counts_leading_zeros) simp

text \<open>A presentation binds token, loft key and loft origin: over the inputs actually hashed, two
  presentations agree only for the same token at the same loft, so one loft cannot replay what it was
  shown at another.\<close>

theorem presentation_binds:
  assumes "presentation C parse t l s = Ok p" "presentation C parse t' l' s' = Ok p'"
    and "\<forall>x \<in> {t, t', l, l'}. length x = 32"
    and "inj_on (sha256 C) {presentation_preimage t l s, presentation_preimage t' l' s'}"
  shows "presentation_matches p p' \<longleftrightarrow> t = t' \<and> l = l' \<and> s = s'"
proof -
  have len: "length s \<le> 2048" "length s' \<le> 2048"
    using assms(1,2) by (auto simp: presentation_def result_simps elim: validate_loft_origin_Ok)
  have p: "p = sha256 C (presentation_preimage t l s)" "p' = sha256 C (presentation_preimage t' l' s')"
    using assms(1,2) by (auto simp: presentation_def result_simps)
  have "p = p' \<longleftrightarrow> presentation_preimage t l s = presentation_preimage t' l' s'"
    unfolding p by (rule inj_on_eq_iff [OF assms(4)]) simp_all
  also have "\<dots> \<longleftrightarrow> t = t' \<and> l = l' \<and> s = s'"
    using origin_field_cancel [OF len, of "[]" "[]"] assms(3) by (simp add: presentation_preimage_def)
  finally show ?thesis by (simp add: presentation_matches_def)
qed

theorem presentation_binds_witness:
  "\<exists>p p'. presentation toy example_parser (replicate 32 1) (replicate 32 2) example_origin = Ok p
    \<and> presentation toy example_parser (replicate 32 1) (replicate 32 3) example_origin = Ok p'
    \<and> \<not> presentation_matches p p'"
proof -
  let ?q = "\<lambda>l. presentation_preimage (replicate 32 1) (replicate 32 l) example_origin"
  have ok: "presentation toy example_parser (replicate 32 1) (replicate 32 l) example_origin = Ok (sha256 toy (?q l))" for l
    by (simp add: presentation_def example_origin_valid)
  have "sha256 toy (?q 2) \<noteq> sha256 toy (?q 3)" by code_simp
  then have "inj_on (sha256 toy) {?q 2, ?q 3}" by (auto simp: inj_on_def)
  from presentation_binds [OF ok ok _ this] ok show ?thesis by auto
qed

text \<open>Publishing and reading back a token is lossless. The reader is however wider than its own
  output: \<^verbatim>\<open>u8::from_str_radix\<close> takes a plus sign, so 32 pairs that are not hexadecimal digits are read
  as a token too.\<close>

theorem token_hex_round_trip:
  "(length t = 32 \<longrightarrow> token_from_hex (token_to_hex t) = Some t)
   \<and> token_from_hex (concat (replicate 32 ''+f'')) = Some (replicate 32 15)"
proof -
  have "from_hex_pairs (concat (replicate n ''+f'')) = Some (replicate n 15)" for n
    by (induction n) (simp_all add: from_str_radix16_pair_def to_digit16_def)
  moreover have "length (concat (replicate n ''+f'')) = 2 * n" for n
    by (induction n) simp_all
  ultimately have "token_from_hex (concat (replicate 32 ''+f'')) = Some (replicate 32 15)"
    by (simp add: token_from_hex_def)
  then show ?thesis by (simp add: token_from_hex_def token_to_hex_def from_hex_pairs_to_hex length_to_hex)
qed

theorem token_hex_round_trip_witness:
  "token_from_hex (token_to_hex (replicate 32 171)) = Some (replicate 32 171)"
  using token_hex_round_trip [of "replicate 32 171"] by simp

theorem mine_finds_least_witness:
  "case mine toy [] 1 3 of
     Some nonce \<Rightarrow> pow_verify toy [] nonce 1 = Ok () | None \<Rightarrow> pow_verify toy [] 0 1 = Err InsufficientWork"
proof -
  have "0 < (3 :: u64)" by simp
  then show ?thesis using mine_finds_least [where C = toy and ident = "[]" and difficulty = 1 and max_attempts = 3] by (cases "mine toy [] 1 3") auto
qed

end
