(* ===== verification/Address.thy ===== *)
theory Address
  imports Base32 Token
begin

text \<open>
  \<^verbatim>\<open>pigeonpost-core/src/address.rs\<close>: key addresses derived from a public key, human-readable handles,
  and the destinations that decorate either with a loft hint and a capability token. A Rust string is
  the list of its UTF-8 bytes; where the code asks about characters, the bytes are decoded.
\<close>

section \<open>Key addresses\<close>

definition ADDRESS_BYTES :: nat where "ADDRESS_BYTES = 16"
definition ADDRESS_CHARS :: nat where "ADDRESS_CHARS = 26"
definition KEY_PREFIX :: string where "KEY_PREFIX = ''/k/''"
definition MAX_LOFT_HINT_BYTES :: nat where "MAX_LOFT_HINT_BYTES = 2048"
definition MAX_HANDLE_BYTES :: nat where "MAX_HANDLE_BYTES = 320"
definition MAX_HANDLE_NAMESPACE_BYTES :: nat where "MAX_HANDLE_NAMESPACE_BYTES = 32"
definition MAX_ADDRESS_BYTES :: nat where "MAX_ADDRESS_BYTES = 254"
definition MAX_HANDLE_NAME_BYTES :: nat where "MAX_HANDLE_NAME_BYTES = 39"

lemmas address_consts = ADDRESS_BYTES_def ADDRESS_CHARS_def KEY_PREFIX_def MAX_LOFT_HINT_BYTES_def
  MAX_HANDLE_BYTES_def MAX_HANDLE_NAMESPACE_BYTES_def MAX_ADDRESS_BYTES_def MAX_HANDLE_NAME_BYTES_def

type_synonym address = string

definition address_from_pubkey :: "crypto \<Rightarrow> bytes \<Rightarrow> address" where
  "address_from_pubkey C pubkey = KEY_PREFIX @ encode (take ADDRESS_BYTES (sha256 C pubkey))"

definition address_parse :: "string \<Rightarrow> error + address" where
  "address_parse input =
     and_then (ok_or (strip_prefix KEY_PREFIX input) (MalformedAddress ''missing /k/ prefix'')) (\<lambda>body.
     if length body \<noteq> ADDRESS_CHARS then Err (MalformedAddress ''wrong length'')
     else and_then (map_err (decode body) (MalformedAddress ''bad base32'')) (\<lambda>decoded.
       if length decoded < ADDRESS_BYTES then Err (MalformedAddress ''insufficient entropy'')
       else Ok (KEY_PREFIX @ encode (take ADDRESS_BYTES decoded))))"

definition address_matches :: "crypto \<Rightarrow> address \<Rightarrow> bytes \<Rightarrow> bool" where
  "address_matches C a pubkey \<longleftrightarrow> a = address_from_pubkey C pubkey"

section \<open>Handles\<close>

definition plain_byte :: "char \<Rightarrow> bool" where
  "plain_byte b \<longleftrightarrow> is_ascii_alphanumeric b \<or> b \<in> {CHR ''-'', CHR ''_'', CHR ''.''}"

definition address_local_byte :: "char \<Rightarrow> bool" where
  "address_local_byte b \<longleftrightarrow> is_ascii_alphanumeric b
     \<or> b \<in> {CHR ''!'', CHR ''$'', CHR ''&'', CHR 0x27, CHR ''*'', CHR ''+'', CHR ''-'', CHR ''='',
            CHR ''^'', CHR ''_'', CHR 0x60, CHR ''{'', CHR ''|'', CHR ''}'', CHR ''~'', CHR ''.''}"

definition edge_marked :: "string \<Rightarrow> bool" where
  "edge_marked segment \<longleftrightarrow>
     starts_with (\<lambda>c. c \<in> {CHR ''-'', CHR ''.'', CHR ''@''}) segment
     \<or> ends_with (\<lambda>c. c \<in> {CHR ''-'', CHR ''.'', CHR ''@''}) segment"

definition looks_like_address :: "string \<Rightarrow> bool" where
  "looks_like_address segment =
     (case split_once (CHR ''@'') segment of
        Some (local_part, domain) \<Rightarrow> local_part \<noteq> [] \<and> CHR ''.'' \<in> set domain
      | None \<Rightarrow> False)"

definition valid_label :: "string \<Rightarrow> bool" where
  "valid_label label \<longleftrightarrow>
     \<not> (label = [] \<or> 63 < length label
        \<or> \<not> list_all (\<lambda>b. is_ascii_alphanumeric b \<or> b = CHR ''-'') label
        \<or> starts_with (\<lambda>c. c = CHR ''-'') label \<or> ends_with (\<lambda>c. c = CHR ''-'') label)"

definition validate_address_segment :: "string \<Rightarrow> error + unit" where
  "validate_address_segment segment =
     (if MAX_ADDRESS_BYTES < length segment then Err (MalformedAddress ''bad handle length'')
      else and_then (ok_or (split_once (CHR ''@'') segment) (MalformedAddress ''bad handle shape''))
        (\<lambda>(local_part, domain).
        if 1 < length (filter (\<lambda>b. b = CHR ''@'') segment) then Err (MalformedAddress ''bad handle characters'')
        else if local_part = [] \<or> domain = [] then Err (MalformedAddress ''bad handle shape'')
        else if \<not> list_all address_local_byte local_part \<or> edge_marked local_part
          then Err (MalformedAddress ''bad handle characters'')
        else let labels = split_on (CHR ''.'') domain in
          if length labels < 2 then Err (MalformedAddress ''bad handle shape'')
          else if \<not> list_all valid_label labels then Err (MalformedAddress ''bad handle characters'')
          else Ok ()))"

definition namespace_root :: "string \<Rightarrow> string option" where
  "namespace_root input =
     (if input = [] \<or> MAX_HANDLE_BYTES < length input \<or> \<not> list_all is_ascii input then None
      else Option.bind (strip_prefix ''/'' input) (\<lambda>trimmed.
        let namespace = (case strip_suffix ''/'' trimmed of None \<Rightarrow> trimmed | Some n \<Rightarrow> n) in
        if namespace = [] \<or> MAX_HANDLE_NAMESPACE_BYTES < length namespace \<or> CHR ''/'' \<in> set namespace
           \<or> eq_ignore_ascii_case namespace ''gh''
           \<or> starts_with (\<lambda>c. c = CHR ''-'') namespace \<or> ends_with (\<lambda>c. c = CHR ''-'') namespace
        then None
        else if \<not> list_all plain_byte namespace then None
        else if eq_ignore_ascii_case namespace ''k'' then None
        else Some (to_ascii_lowercase namespace)))"

text \<open>One segment, against the length limit its position has.\<close>

definition validate_segment :: "nat \<Rightarrow> string \<Rightarrow> error + unit" where
  "validate_segment limit segment =
     (if looks_like_address segment then validate_address_segment segment
      else if segment = [] \<or> limit < length segment then Err (MalformedAddress ''bad handle shape'')
      else if \<not> list_all plain_byte segment \<or> edge_marked segment
        then Err (MalformedAddress ''bad handle characters'')
      else Ok ())"

fun validate_segments :: "string list \<Rightarrow> error + unit" where
  "validate_segments [] = Ok ()"
| "validate_segments (segment # rest) =
     and_then (validate_segment MAX_HANDLE_NAME_BYTES segment) (\<lambda>_. validate_segments rest)"

definition canonical_handle :: "string \<Rightarrow> error + string" where
  "canonical_handle input =
     (if input = [] \<or> MAX_HANDLE_BYTES < length input \<or> \<not> list_all is_ascii input
      then Err (MalformedAddress ''bad handle length'')
      else let trimmed = (case strip_prefix ''/'' input of None \<Rightarrow> input | Some t \<Rightarrow> t);
               segments = split_on (CHR ''/'') trimmed
           in if 3 < length segments then Err (MalformedAddress ''too many segments in handle'')
              else if length segments = 1 then
                (let only = segments ! 0 in
                 if \<not> looks_like_address only then Err (MalformedAddress ''expected /<namespace>/<name>'')
                 else and_then (validate_address_segment only) (\<lambda>_. Ok (''/'' @ to_ascii_lowercase only)))
              else if eq_ignore_ascii_case (hd segments) ''gh''
                then Err (MalformedAddress ''legacy /gh namespace is not supported; use /github'')
              else and_then (validate_segment MAX_HANDLE_NAMESPACE_BYTES (hd segments)) (\<lambda>_.
                   and_then (validate_segments (tl segments)) (\<lambda>_.
                   Ok (concat (map (\<lambda>segment. ''/'' @ to_ascii_lowercase segment) segments)))))"

section \<open>Destinations\<close>

text \<open>\<^verbatim>\<open>str::chars\<close> on valid UTF-8: the code points, with \<^verbatim>\<open>char::is_control\<close> and \<^verbatim>\<open>char::is_whitespace\<close>.\<close>

fun utf8_chars :: "nat list \<Rightarrow> nat list" where
  "utf8_chars [] = []"
| "utf8_chars (a # bs) =
     (if a < 0x80 then a # utf8_chars bs
      else if a < 0xE0 then
        (case bs of b # r \<Rightarrow> (a mod 32 * 64 + b mod 64) # utf8_chars r | _ \<Rightarrow> [])
      else if a < 0xF0 then
        (case bs of b # c # r \<Rightarrow> (a mod 16 * 4096 + b mod 64 * 64 + c mod 64) # utf8_chars r | _ \<Rightarrow> [])
      else
        (case bs of b # c # d # r \<Rightarrow>
           (a mod 8 * 262144 + b mod 64 * 4096 + c mod 64 * 64 + d mod 64) # utf8_chars r | _ \<Rightarrow> []))"

definition char_is_control :: "nat \<Rightarrow> bool" where
  "char_is_control c \<longleftrightarrow> c < 0x20 \<or> 0x7F \<le> c \<and> c < 0xA0"

definition char_is_whitespace :: "nat \<Rightarrow> bool" where
  "char_is_whitespace c \<longleftrightarrow> 9 \<le> c \<and> c \<le> 13 \<or> c \<in> {0x20, 0x85, 0xA0, 0x1680, 0x2028, 0x2029, 0x202F, 0x205F, 0x3000}
     \<or> 0x2000 \<le> c \<and> c \<le> 0x200A"

definition validate_loft_hint :: "url_parser \<Rightarrow> string \<Rightarrow> error + unit" where
  "validate_loft_hint parse hint =
     (if hint = [] \<or> MAX_LOFT_HINT_BYTES < length hint then Err (MalformedAddress ''bad loft hint length'')
      else if list_ex (\<lambda>c. char_is_control c \<or> char_is_whitespace c) (utf8_chars (map of_char hint))
        then Err (MalformedAddress ''bad loft hint'')
      else case parse hint of
          None \<Rightarrow> Err (MalformedAddress ''bad loft hint URL'')
        | Some u \<Rightarrow>
            if url_cannot_be_a_base u \<or> url_username u \<noteq> [] \<or> url_password u \<noteq> None
               \<or> url_host u = None \<or> url_port u = Some 0 \<or> url_path u \<notin> {'''', ''/''}
               \<or> url_query u \<noteq> None \<or> url_fragment u \<noteq> None
            then Err (MalformedAddress ''loft hint must be an origin'')
            else case url_host u of
                None \<Rightarrow> Err (MalformedAddress ''loft hint has no host'')
              | Some host \<Rightarrow>
                  if is_localhost_name host then Err (MalformedAddress ''loft hint cannot use localhost'')
                  else if url_scheme u \<noteq> ''https''
                          \<and> \<not> (url_scheme u = ''http'' \<and> is_numeric_loopback_host host)
                       then Err (MalformedAddress ''loft hint must use HTTPS'')
                  else Ok ())"

datatype destination_target = Key address | Handle string

record destination =
  dest_target :: destination_target
  dest_loft_hint :: "string option"
  dest_token :: "bytes option"

definition for_address :: "address \<Rightarrow> destination" where
  "for_address a = \<lparr>dest_target = Key a, dest_loft_hint = None, dest_token = None\<rparr>"

definition for_handle :: "string \<Rightarrow> error + destination" where
  "for_handle h = and_then (canonical_handle h) (\<lambda>c.
     Ok \<lparr>dest_target = Handle c, dest_loft_hint = None, dest_token = None\<rparr>)"

definition parse_token_fragment :: "string \<Rightarrow> error + bytes" where
  "parse_token_fragment v =
     and_then (ok_or (strip_prefix ''t='' v) (MalformedAddress ''unknown fragment'')) (\<lambda>hex.
     ok_or (token_from_hex hex) (MalformedAddress ''bad capability token''))"

definition parse_hint_query :: "url_parser \<Rightarrow> string \<Rightarrow> error + string" where
  "parse_hint_query parse v =
     and_then (ok_or (strip_prefix ''l='' v) (MalformedAddress ''unknown query'')) (\<lambda>hint.
     and_then (validate_loft_hint parse hint) (\<lambda>_. Ok hint))"

definition optional :: "('a \<Rightarrow> 'e + 'b) \<Rightarrow> 'a option \<Rightarrow> 'e + 'b option" where
  "optional f m = (case m of None \<Rightarrow> Ok None | Some x \<Rightarrow> and_then (f x) (\<lambda>y. Ok (Some y)))"

definition parse_target :: "string \<Rightarrow> error + destination_target" where
  "parse_target bare =
     (if prefix KEY_PREFIX bare then and_then (address_parse bare) (\<lambda>a. Ok (Key a))
      else and_then (canonical_handle bare) (\<lambda>h. Ok (Handle h)))"

definition destination_parse :: "url_parser \<Rightarrow> string \<Rightarrow> error + destination" where
  "destination_parse parse input =
     (let fragments = split_on (CHR ''#'') input in
      if 2 < length fragments then Err (MalformedAddress ''multiple fragments'')
      else and_then (optional parse_token_fragment (if length fragments = 2 then Some (fragments ! 1) else None)) (\<lambda>token.
        let queries = split_on (CHR ''?'') (fragments ! 0) in
        if 2 < length queries then Err (MalformedAddress ''multiple queries'')
        else and_then (optional (parse_hint_query parse) (if length queries = 2 then Some (queries ! 1) else None)) (\<lambda>hint.
          and_then (parse_target (queries ! 0)) (\<lambda>target.
          Ok \<lparr>dest_target = target, dest_loft_hint = hint, dest_token = token\<rparr>))))"

definition dest_address :: "destination \<Rightarrow> address option" where
  "dest_address d = (case dest_target d of Key a \<Rightarrow> Some a | Handle _ \<Rightarrow> None)"

definition dest_handle :: "destination \<Rightarrow> string option" where
  "dest_handle d = (case dest_target d of Key _ \<Rightarrow> None | Handle h \<Rightarrow> Some h)"

section \<open>Case folding and segments\<close>

lemma to_ascii_lowercase_Cons [simp]:
  "to_ascii_lowercase (c # s) = to_ascii_lower c # to_ascii_lowercase s"
  "to_ascii_lowercase [] = []"
  by (simp_all add: to_ascii_lowercase_def)

definition case_free :: "char \<Rightarrow> bool" where
  "case_free d \<longleftrightarrow> \<not> is_ascii_upper d \<and> \<not> is_ascii_lower d"

lemma case_free_marks [simp]: "case_free (CHR ''/'')" "case_free (CHR ''.'')" "case_free (CHR ''@'')"
  "case_free (CHR ''-'')" "case_free (CHR ''_'')"
  by (simp_all add: case_free_def ascii_defs)

lemma lower_eq_case_free [simp]:
  "case_free d \<Longrightarrow> to_ascii_lower c = d \<longleftrightarrow> c = d"
  "case_free d \<Longrightarrow> d = to_ascii_lower c \<longleftrightarrow> c = d"
  by (auto simp: case_free_def to_ascii_lower_fixed eq_commute [of d])

lemma split_on_lower [simp]:
  "case_free d \<Longrightarrow> split_on d (to_ascii_lowercase s) = map to_ascii_lowercase (split_on d s)"
  by (induction s) (auto split: list.splits)

lemma split_on_join: "concat (map (\<lambda>x. d # x) (split_on d s)) = d # s"
proof (induction s)
  case (Cons c cs)
  then show ?case by (cases "split_on d cs") auto
qed simp

lemma case_free_in_lower [simp]:
  "case_free d \<Longrightarrow> d \<in> set (to_ascii_lowercase s) \<longleftrightarrow> d \<in> set s"
  by (induction s) auto

lemma split_once_lower [simp]:
  assumes "case_free d"
  shows "split_once d (to_ascii_lowercase s) =
    map_option (\<lambda>(a, b). (to_ascii_lowercase a, to_ascii_lowercase b)) (split_once d s)"
proof (cases "d \<in> set s")
  case True
  then show ?thesis
    using assms by (induction s) (auto simp: split_once_def)
qed (use assms in \<open>simp add: split_once_def\<close>)

lemma filter_lower [simp]:
  "case_free d \<Longrightarrow> length (filter (\<lambda>b. b = d) (to_ascii_lowercase s)) = length (filter (\<lambda>b. b = d) s)"
  by (induction s) auto

lemma edges_lower:
  assumes "\<And>c. P (to_ascii_lower c) = P c"
  shows "starts_with P (to_ascii_lowercase s) = starts_with P s"
    "ends_with P (to_ascii_lowercase s) = ends_with P s"
    "list_all P (to_ascii_lowercase s) = list_all P s"
  by (simp_all add: starts_with_def ends_with_def to_ascii_lowercase_def hd_map last_map list_all_length assms
    cong: conj_cong)

lemma plain_byte_lower [simp]: "plain_byte (to_ascii_lower c) = plain_byte c"
  by (simp add: plain_byte_def)

lemma address_local_byte_lower [simp]: "address_local_byte (to_ascii_lower c) = address_local_byte c"
proof -
  have "to_ascii_lower c = d \<longleftrightarrow> c = d" if "d \<in> {CHR ''!'', CHR ''$'', CHR ''&'', CHR 0x27, CHR ''*'',
    CHR ''+'', CHR ''-'', CHR ''='', CHR ''^'', CHR ''_'', CHR 0x60, CHR ''{'', CHR ''|'', CHR ''}'', CHR ''~'', CHR ''.''}" for d
    using that by (intro lower_eq_case_free(1)) (auto simp: case_free_def ascii_defs)
  then show ?thesis by (simp add: address_local_byte_def)
qed

lemma is_ascii_lower_case [simp]: "is_ascii (to_ascii_lower c) = is_ascii c"
  by (auto simp: ascii_defs code_to_ascii_lower)

lemma edge_marked_lower [simp]: "edge_marked (to_ascii_lowercase s) = edge_marked s"
  by (simp add: edge_marked_def edges_lower)

lemma looks_like_address_lower [simp]: "looks_like_address (to_ascii_lowercase s) = looks_like_address s"
  by (auto simp: looks_like_address_def split: option.splits)

lemma valid_label_lower [simp]: "valid_label (to_ascii_lowercase s) = valid_label s"
  by (simp add: valid_label_def edges_lower)

lemma list_all_valid_label_lower [simp]:
  "list_all valid_label (map to_ascii_lowercase xs) = list_all valid_label xs"
  by (simp add: list.pred_map o_def)

lemma validate_address_segment_lower [simp]:
  "validate_address_segment (to_ascii_lowercase s) = validate_address_segment s"
  by (cases "split_once (CHR ''@'') s")
    (auto simp: validate_address_segment_def Let_def edges_lower result_simps)

lemma validate_segment_lower [simp]: "validate_segment n (to_ascii_lowercase s) = validate_segment n s"
  by (simp add: validate_segment_def edges_lower)

lemma validate_segments_lower [simp]: "validate_segments (map to_ascii_lowercase xs) = validate_segments xs"
  by (induction xs) simp_all

lemma eq_ignore_ascii_case_lower [simp]:
  "eq_ignore_ascii_case (to_ascii_lowercase s) t = eq_ignore_ascii_case s t"
  by (simp add: eq_ignore_ascii_case_def)

lemma list_all_is_ascii_lower [simp]: "list_all is_ascii (to_ascii_lowercase s) = list_all is_ascii s"
  by (simp add: edges_lower)

section \<open>Canonical forms\<close>

lemma decode_loop_length:
  "bits < 8 \<Longrightarrow> decode_loop buffer bits s = Ok bs \<Longrightarrow> length bs = (bits + 5 * length s) div 8"
proof (induction s arbitrary: buffer bits bs)
  case (Cons c s)
  show ?case
  proof (cases "8 \<le> bits + 5")
    case True
    with Cons.prems obtain v out where "bs = v # out" and
      *: "\<exists>b. decode_loop b (bits + 5 - 8) s = Ok out"
      by (auto simp: result_simps Let_def)
    with Cons.IH [of "bits + 5 - 8"] True Cons.prems(1)
    have "length bs = Suc ((bits + 5 - 8 + 5 * length s) div 8)" by auto
    also have "\<dots> = (bits + 5 * length (c # s)) div 8"
      using True by (simp add: algebra_simps flip: div_add_self2)
    finally show ?thesis .
  next
    case False
    with Cons.prems Cons.IH [of "bits + 5"] show ?thesis
      by (auto simp: result_simps Let_def algebra_simps)
  qed
qed simp

lemma decode_length: "decode s = Ok bs \<Longrightarrow> length bs = 5 * length s div 8"
  using decode_loop_length [of 0 0 s bs] by (simp add: decode_def)

lemma address_parse_Ok:
  "address_parse s = Ok a \<longleftrightarrow>
    (\<exists>body bs. s = KEY_PREFIX @ body \<and> length body = 26 \<and> decode body = Ok bs \<and> length bs = 16 \<and> a = KEY_PREFIX @ encode bs)"
  (is "_ \<longleftrightarrow> ?R")
proof
  assume "address_parse s = Ok a"
  then obtain body bs where *: "strip_prefix KEY_PREFIX s = Some body" "length body = 26" "decode body = Ok bs"
    "a = KEY_PREFIX @ encode (take 16 bs)"
    by (auto simp: address_parse_def result_simps address_consts split: if_splits option.splits)
  with decode_length [of body bs] show ?R by (auto simp: strip_prefix_Some)
next
  assume ?R
  then show "address_parse s = Ok a"
    by (auto simp: address_parse_def ADDRESS_BYTES_def ADDRESS_CHARS_def)
qed

lemma encode_inject [simp]: "encode bs = encode cs \<longleftrightarrow> bs = cs"
proof
  assume "encode bs = encode cs"
  then have "decode (encode bs) = decode (encode cs)" by (rule arg_cong)
  then show "bs = cs" unfolding decode_encode by (rule sum.inject(2) [THEN iffD1])
qed (rule arg_cong)

lemma address_parse_fixed: "address_parse s = Ok a \<Longrightarrow> address_parse a = Ok a"
proof -
  assume "address_parse s = Ok a"
  then obtain bs where bs: "length bs = 16" "a = KEY_PREFIX @ encode bs"
    unfolding address_parse_Ok by blast
  then have "length (encode bs) = 26" by (simp add: length_encode)
  then show ?thesis
    unfolding address_parse_Ok using bs decode_encode [of bs] by blast
qed

text \<open>
  A parsed key address is canonical: it has exactly 29 characters, parses to itself, and two
  inputs parse to the same address exactly when their bodies decode to the same 16 bytes.
\<close>

theorem address_parse_canonical:
  assumes "address_parse s = Ok a" "address_parse t = Ok b"
  shows "address_parse a = Ok a \<and> length a = length KEY_PREFIX + ADDRESS_CHARS
    \<and> (a = b \<longleftrightarrow> decode (drop (length KEY_PREFIX) s) = decode (drop (length KEY_PREFIX) t))"
proof -
  obtain x bs where x: "s = KEY_PREFIX @ x" "decode x = Ok bs" "length bs = 16" "a = KEY_PREFIX @ encode bs"
    using assms(1) unfolding address_parse_Ok by blast
  obtain y cs where y: "t = KEY_PREFIX @ y" "decode y = Ok cs" "b = KEY_PREFIX @ encode cs"
    using assms(2) unfolding address_parse_Ok by blast
  have "length (encode bs) = 26" using x(3) by (simp add: length_encode)
  with address_parse_fixed [OF assms(1)] show ?thesis by (simp add: x y ADDRESS_CHARS_def)
qed

theorem address_parse_canonical_witness:
  "address_parse ''/k/0123456789ABCDEFGHJKMNPQRI'' = Ok ''/k/0123456789abcdefghjkmnpqr0''
   \<and> address_parse ''/k/0123456789abcdefghjkmnpqr0'' = Ok ''/k/0123456789abcdefghjkmnpqr0''"
proof -
  have "address_parse ''/k/0123456789ABCDEFGHJKMNPQRI'' = Ok ''/k/0123456789abcdefghjkmnpqr0''" by code_simp
  with address_parse_canonical [OF this this] show ?thesis by simp
qed

lemma address_length: "hash_contract C \<Longrightarrow> length (address_from_pubkey C k) = 29"
  using sha256_length [of C k] by (simp add: address_from_pubkey_def length_encode address_consts)

lemma address_parse_derived:
  assumes "hash_contract C"
  shows "address_parse (address_from_pubkey C pk) = Ok (address_from_pubkey C pk)"
proof -
  have l: "length (take 16 (sha256 C pk)) = 16" using assms by (simp add: hash_contract_def)
  then have "length (encode (take 16 (sha256 C pk))) = 26" by (simp only: length_encode l)
  then show ?thesis
    unfolding address_parse_Ok address_from_pubkey_def ADDRESS_BYTES_def
    using l decode_encode [of "take 16 (sha256 C pk)"] by blast
qed

text \<open>
  The address derived from a public key parses to itself and matches that key; if it also matches
  another key, the two SHA-256 digests agree on their first 16 bytes.
\<close>

theorem address_commits_to_key:
  assumes "hash_contract C"
  shows "address_parse (address_from_pubkey C pk) = Ok (address_from_pubkey C pk)
    \<and> address_matches C (address_from_pubkey C pk) pk
    \<and> (address_matches C (address_from_pubkey C pk) pk' \<longleftrightarrow>
        take ADDRESS_BYTES (sha256 C pk) = take ADDRESS_BYTES (sha256 C pk'))"
  using address_parse_derived [OF assms] by (simp add: address_matches_def address_from_pubkey_def)

theorem address_commits_to_key_witness:
  "address_parse (address_from_pubkey toy [1]) = Ok (address_from_pubkey toy [1])
    \<and> address_matches toy (address_from_pubkey toy [1]) [1]
    \<and> (address_matches toy (address_from_pubkey toy [1]) [2] \<longleftrightarrow>
        take ADDRESS_BYTES (sha256 toy [1]) = take ADDRESS_BYTES (sha256 toy [2]))"
  using address_commits_to_key [of toy "[1]" "[2]"] by simp

text \<open>What the handle grammar asks of the segments, and the canonical text it then returns.\<close>

definition check_segments :: "string list \<Rightarrow> error + unit" where
  "check_segments segments =
     (if 3 < length segments then Err (MalformedAddress ''too many segments in handle'')
      else if length segments = 1 then
        (if \<not> looks_like_address (segments ! 0) then Err (MalformedAddress ''expected /<namespace>/<name>'')
         else validate_address_segment (segments ! 0))
      else if eq_ignore_ascii_case (hd segments) ''gh''
        then Err (MalformedAddress ''legacy /gh namespace is not supported; use /github'')
      else and_then (validate_segment MAX_HANDLE_NAMESPACE_BYTES (hd segments)) (\<lambda>_. validate_segments (tl segments)))"

lemma check_segments_lower:
  "xs \<noteq> [] \<Longrightarrow> check_segments (map to_ascii_lowercase xs) = check_segments xs"
  by (simp add: check_segments_def hd_map map_tl [symmetric])

abbreviation trim_slash :: "string \<Rightarrow> string" where
  "trim_slash s \<equiv> (case strip_prefix ''/'' s of None \<Rightarrow> s | Some t \<Rightarrow> t)"

lemma lower_join:
  "concat (map (\<lambda>x. CHR ''/'' # to_ascii_lowercase x) (split_on (CHR ''/'') t)) = CHR ''/'' # to_ascii_lowercase t"
  using split_on_join [of "CHR ''/''" "to_ascii_lowercase t"] by (simp add: o_def)

lemma canonical_handle_eq:
  "canonical_handle s =
     (if s = [] \<or> MAX_HANDLE_BYTES < length s \<or> \<not> list_all is_ascii s
      then Err (MalformedAddress ''bad handle length'')
      else and_then (check_segments (split_on (CHR ''/'') (trim_slash s)))
             (\<lambda>_. Ok (CHR ''/'' # to_ascii_lowercase (trim_slash s))))"
proof -
  obtain t where t: "trim_slash s = t" by simp
  have "split_on (CHR ''/'') t ! 0 = t" if "length (split_on (CHR ''/'') t) = Suc 0"
    using split_on_join [of "CHR ''/''" t] that by (cases "split_on (CHR ''/'') t") auto
  then show ?thesis
    unfolding canonical_handle_def check_segments_def t Let_def
    by (auto simp: lower_join and_then_assoc)
qed

lemma split_on_chars: "c \<in> set s \<Longrightarrow> c = d \<or> (\<exists>x \<in> set (split_on d s). c \<in> set x)"
  using arg_cong [OF split_on_join [of d s], of set] by auto

lemma split_once_chars:
  "split_once d s = Some (a, b) \<Longrightarrow> set s = insert d (set a \<union> set b)"
proof -
  assume a: "split_once d s = Some (a, b)"
  then have "d \<in> set s" by (auto simp: split_once_def split: if_splits)
  then have "dropWhile (\<lambda>c. c \<noteq> d) s = d # tl (dropWhile (\<lambda>c. c \<noteq> d) s)"
    by (induction s) auto
  with a have "dropWhile (\<lambda>c. c \<noteq> d) s = d # b" "a = takeWhile (\<lambda>c. c \<noteq> d) s"
    by (auto simp: split_once_def split: if_splits)
  then have "s = a @ d # b" by (metis takeWhile_dropWhile_id)
  then show ?thesis by auto
qed

text \<open>The two characters that begin a decoration never occur in a valid segment.\<close>

definition decoration :: "char \<Rightarrow> bool" where
  "decoration c \<longleftrightarrow> c = CHR ''#'' \<or> c = CHR ''?''"

lemma decoration_bytes:
  assumes "decoration c"
  shows "\<not> plain_byte c" "\<not> address_local_byte c" "\<not> is_ascii_alphanumeric c" "c \<noteq> CHR ''-''"
    "c \<noteq> CHR ''.''" "c \<noteq> CHR ''@''" "c \<noteq> CHR ''/''"
  using assms by (auto simp: decoration_def plain_byte_def address_local_byte_def ascii_defs)

lemma address_segment_chars:
  assumes "validate_address_segment s = Ok u" "decoration c"
  shows "c \<notin> set s"
proof
  assume c: "c \<in> set s"
  obtain a b where ab: "split_once (CHR ''@'') s = Some (a, b)" "list_all address_local_byte a"
    "list_all valid_label (split_on (CHR ''.'') b)"
    using assms(1) by (auto simp: validate_address_segment_def result_simps Let_def split: if_splits)
  then have "c \<in> set a \<or> c \<in> set b"
    using c split_once_chars [OF ab(1)] decoration_bytes [OF assms(2)] by auto
  then show False
    using ab(2,3) decoration_bytes [OF assms(2)] split_on_chars [of c b "CHR ''.''"]
    by (auto simp: list_all_iff valid_label_def)
qed

lemma segment_chars: "validate_segment n s = Ok u \<Longrightarrow> decoration c \<Longrightarrow> c \<notin> set s"
  using address_segment_chars [of s u c]
  by (auto simp: validate_segment_def list_all_iff decoration_bytes split: if_splits)

lemma segments_chars:
  "validate_segments xs = Ok u \<Longrightarrow> decoration c \<Longrightarrow> x \<in> set xs \<Longrightarrow> c \<notin> set x"
  by (induction xs) (auto simp: result_simps segment_chars)

lemma check_segments_chars:
  assumes "check_segments xs = Ok u" "decoration c" "x \<in> set xs"
  shows "c \<notin> set x"
proof (cases xs)
  case (Cons y ys)
  then show ?thesis
    using assms address_segment_chars [of y u c] segment_chars [of _ y _ c] segments_chars [of ys u c x]
    by (auto simp: check_segments_def result_simps split: if_splits)
qed (use assms in simp)

lemma canonical_handle_shape:
  assumes "canonical_handle s = Ok h"
  shows "canonical_handle h =
      (if length h \<le> MAX_HANDLE_BYTES then Ok h else Err (MalformedAddress ''bad handle length''))"
    and "hd h = CHR ''/''" and "length h \<le> length s + 1" and "to_ascii_lowercase h = h"
    and "decoration c \<Longrightarrow> c \<notin> set h"
proof -
  define t where "t = trim_slash s"
  have h: "h = CHR ''/'' # to_ascii_lowercase t" "check_segments (split_on (CHR ''/'') t) = Ok ()"
    "list_all is_ascii s"
    using assms by (auto simp: canonical_handle_eq t_def result_simps split: if_splits)
  have s: "s = t \<or> s = CHR ''/'' # t"
    by (auto simp: t_def strip_prefix_Some split: option.splits)
  have "strip_prefix ''/'' h = Some (to_ascii_lowercase t)" by (simp add: strip_prefix_Some h(1))
  moreover have "list_all is_ascii h" using h(1,3) s by (auto simp: ascii_defs)
  moreover have "check_segments (split_on (CHR ''/'') (to_ascii_lowercase t)) = Ok ()"
    using h(2) by (simp add: check_segments_lower)
  ultimately show "canonical_handle h =
      (if length h \<le> MAX_HANDLE_BYTES then Ok h else Err (MalformedAddress ''bad handle length''))"
    by (simp add: canonical_handle_eq) (simp add: h(1))
  show "hd h = CHR ''/''" "to_ascii_lowercase h = h" "length h \<le> length s + 1"
    using s by (auto simp: h(1))
  show "c \<notin> set h" if "decoration c"
  proof -
    have "case_free c" using that by (auto simp: decoration_def case_free_def ascii_defs)
    then show ?thesis
      using split_on_chars [of c t "CHR ''/''"] check_segments_chars [OF h(2) that] decoration_bytes [OF that]
      by (auto simp: h(1))
  qed
qed

text \<open>
  A canonical handle is a fixed point: it starts with a slash, is lower case, contains neither
  decoration character, is at most one byte longer than the input, and canonicalises to itself unless that extra
  slash pushes it past the byte limit, in which case it is refused.
\<close>

theorem canonical_handle_fixed_point:
  assumes "canonical_handle s = Ok h"
  shows "hd h = CHR ''/'' \<and> to_ascii_lowercase h = h \<and> CHR ''#'' \<notin> set h \<and> CHR ''?'' \<notin> set h
    \<and> length h \<le> length s + 1
    \<and> canonical_handle h =
        (if length h \<le> MAX_HANDLE_BYTES then Ok h else Err (MalformedAddress ''bad handle length''))"
  using canonical_handle_shape [OF assms] by (simp add: decoration_def)

theorem canonical_handle_fixed_point_witness:
  "canonical_handle ''GitHub/Alex'' = Ok ''/github/alex'' \<and> canonical_handle ''/github/alex'' = Ok ''/github/alex''"
proof -
  have "canonical_handle ''GitHub/Alex'' = Ok ''/github/alex''" by code_simp
  with canonical_handle_fixed_point [OF this] show ?thesis by (simp add: MAX_HANDLE_BYTES_def)
qed

lemma parse_plain:
  assumes "CHR ''#'' \<notin> set s" "CHR ''?'' \<notin> set s"
  shows "destination_parse parse s =
    and_then (parse_target s) (\<lambda>t. Ok \<lparr>dest_target = t, dest_loft_hint = None, dest_token = None\<rparr>)"
  by (simp add: destination_parse_def split_on_not_in assms optional_def)

lemma alphabet_undecorated: "decoration c \<Longrightarrow> c \<notin> set (encode bs)"
  using encode_alphabet [of bs] by (auto simp: decoration_def ALPHABET_def)

text \<open>
  C37. Parsing the canonical form of a destination gives it back undecorated: a key address always,
  a handle of at most 320 bytes whenever it does not start with the key prefix.
\<close>

theorem destination_target_round_trip:
  assumes "destination_parse parse input = Ok d"
  shows "case dest_target d of
      Key a \<Rightarrow> destination_parse parse a = Ok (for_address a)
    | Handle h \<Rightarrow> length h \<le> MAX_HANDLE_BYTES \<and> \<not> prefix KEY_PREFIX h \<longrightarrow>
        destination_parse parse h = for_handle h \<and> for_handle h = Ok \<lparr>dest_target = Handle h, dest_loft_hint = None, dest_token = None\<rparr>"
proof -
  obtain bare where bare: "parse_target bare = Ok (dest_target d)"
    using assms by (auto simp: destination_parse_def Let_def result_simps split: if_splits)
  show ?thesis
  proof (cases "dest_target d")
    case (Key a)
    then have "address_parse bare = Ok a"
      using bare by (auto simp: parse_target_def result_simps split: if_splits)
    from address_parse_fixed [OF this] obtain bs where a: "a = KEY_PREFIX @ encode bs"
      unfolding address_parse_Ok by blast
    note address_parse_fixed [OF \<open>address_parse bare = Ok a\<close>]
    moreover have "prefix KEY_PREFIX a" by (simp add: a)
    moreover have "CHR ''#'' \<notin> set a" "CHR ''?'' \<notin> set a"
      using alphabet_undecorated [of _ bs] by (auto simp: a decoration_def KEY_PREFIX_def)
    ultimately show ?thesis
      by (simp add: Key parse_plain parse_target_def for_address_def)
  next
    case (Handle h)
    then have "canonical_handle bare = Ok h"
      using bare by (auto simp: parse_target_def result_simps split: if_splits)
    from canonical_handle_shape [OF this] show ?thesis
      by (simp add: Handle parse_plain parse_target_def for_handle_def decoration_def)
  qed
qed

theorem destination_target_round_trip_witness:
  "destination_parse (\<lambda>_. None) ''Bekir/Main#t=0000000000000000000000000000000000000000000000000000000000000000'' =
     Ok \<lparr>dest_target = Handle ''/bekir/main'', dest_loft_hint = None, dest_token = Some (replicate 32 0)\<rparr>
   \<and> destination_parse (\<lambda>_. None) ''/bekir/main'' = for_handle ''/bekir/main''"
proof -
  have "destination_parse (\<lambda>_. None) ''Bekir/Main#t=0000000000000000000000000000000000000000000000000000000000000000'' =
     Ok \<lparr>dest_target = Handle ''/bekir/main'', dest_loft_hint = None, dest_token = Some (replicate 32 0)\<rparr>" by code_simp
  with destination_target_round_trip [OF this] show ?thesis by (simp add: address_consts)
qed

text \<open>
  The key prefix is matched case-sensitively while handles are folded, so a handle written with
  the namespace \<^verbatim>\<open>K\<close> becomes a handle that starts with the key prefix: the canonical text of an accepted
  destination is then refused as a malformed key address, and as a namespace root it is refused too.
\<close>

theorem key_namespace_handle:
  "destination_parse parse ''/K/alex'' =
     Ok \<lparr>dest_target = Handle ''/k/alex'', dest_loft_hint = None, dest_token = None\<rparr>
   \<and> destination_parse parse ''/k/alex'' = Err (MalformedAddress ''wrong length'')
   \<and> namespace_root ''/K'' = None"
proof -
  have "parse_target ''/K/alex'' = Ok (Handle ''/k/alex'')"
    "parse_target ''/k/alex'' = Err (MalformedAddress ''wrong length'')" "namespace_root ''/K'' = None"
    by code_simp+
  then show ?thesis by (simp add: parse_plain)
qed


end
