(* ===== verification/Policy.thy ===== *)
theory Policy
  imports Compliance_Format Keys Token
begin

text \<open>
  \<^verbatim>\<open>pigeonpost-core/src/policy.rs\<close>: the signed recipient policy a loft enforces, in its three wire
  versions, and the attribution requirement it may carry. The main facts are that the signed preimage
  determines the version and every field of an accepted policy, and that updates are accepted only with
  a strictly larger sequence number.
\<close>

section \<open>Attribution requirement\<close>

definition ATTRIBUTION_REQUIREMENT_VERSION :: u8 where "ATTRIBUTION_REQUIREMENT_VERSION = 1"
definition ATTRIBUTION_REQUIREMENT_LEN :: nat where "ATTRIBUTION_REQUIREMENT_LEN = 34"

record attribution_requirement =
  req_version :: u8
  req_jurisdiction :: jurisdiction
  req_authority :: bytes

definition requirement_new :: "jurisdiction \<Rightarrow> bytes \<Rightarrow> attribution_requirement" where
  "requirement_new j authority =
     \<lparr>req_version = ATTRIBUTION_REQUIREMENT_VERSION, req_jurisdiction = j, req_authority = authority\<rparr>"

definition requirement_validate :: "attribution_requirement \<Rightarrow> error + unit" where
  "requirement_validate r =
     (if req_version r \<noteq> ATTRIBUTION_REQUIREMENT_VERSION
      then Err (MalformedEnvelope ''unsupported attribution requirement version'')
      else if req_authority r = zeros 32
      then Err (MalformedEnvelope ''attribution authority must not be all zeroes'')
      else Ok ())"

definition requirement_encode :: "attribution_requirement \<Rightarrow> error + bytes" where
  "requirement_encode r = and_then (requirement_validate r) (\<lambda>_.
     Ok (req_version r # jurisdiction_into (req_jurisdiction r) # req_authority r))"

definition requirement_decode :: "bytes \<Rightarrow> error + attribution_requirement" where
  "requirement_decode b =
     (if length b \<noteq> ATTRIBUTION_REQUIREMENT_LEN
      then Err (MalformedEnvelope ''invalid attribution requirement length'')
      else if b ! 0 \<noteq> ATTRIBUTION_REQUIREMENT_VERSION
      then Err (MalformedEnvelope ''unsupported attribution requirement version'')
      else and_then (map_err (jurisdiction_try_from (b ! 1)) (MalformedEnvelope ''invalid attribution jurisdiction'')) (\<lambda>j.
        let requirement = requirement_new j (drop 2 b) in
        and_then (requirement_validate requirement) (\<lambda>_. Ok requirement)))"

definition matches_key_id :: "attribution_requirement \<Rightarrow> compliance_key_id \<Rightarrow> bool" where
  "matches_key_id r k \<longleftrightarrow> is_ok (requirement_validate r) \<and> is_ok (key_id_validate k)
     \<and> ck_purpose k = Attribution \<and> ck_jurisdiction k = req_jurisdiction r \<and> ck_authority k = req_authority r"

section \<open>Recipient policy\<close>

definition SIG_DOMAIN_POLICY_V1 :: bytes where "SIG_DOMAIN_POLICY_V1 = as_bytes ''pigeonpost/recipient-policy/v1''"
definition SIG_DOMAIN_POLICY_V2 :: bytes where "SIG_DOMAIN_POLICY_V2 = as_bytes ''pigeonpost/recipient-policy/v2''"
definition SIG_DOMAIN_POLICY_V3 :: bytes where "SIG_DOMAIN_POLICY_V3 = as_bytes ''pigeonpost/recipient-policy/v3''"
definition RECIPIENT_POLICY_VERSION :: u8 where "RECIPIENT_POLICY_VERSION = 3"
definition LEGACY_RECIPIENT_POLICY_VERSION :: u8 where "LEGACY_RECIPIENT_POLICY_VERSION = 1"
definition PREVIOUS_RECIPIENT_POLICY_VERSION :: u8 where "PREVIOUS_RECIPIENT_POLICY_VERSION = 2"
definition MAX_TOKENS :: nat where "MAX_TOKENS = 64"

lemmas policy_consts = SIG_DOMAIN_POLICY_V1_def SIG_DOMAIN_POLICY_V2_def SIG_DOMAIN_POLICY_V3_def
  RECIPIENT_POLICY_VERSION_def LEGACY_RECIPIENT_POLICY_VERSION_def PREVIOUS_RECIPIENT_POLICY_VERSION_def
  MAX_TOKENS_def ATTRIBUTION_REQUIREMENT_VERSION_def ATTRIBUTION_REQUIREMENT_LEN_def

record recipient_policy =
  rp_version :: u8
  rp_pubkey :: bytes
  rp_pow_min :: u32
  rp_token_required :: bool
  rp_token_hashes :: "bytes list"
  rp_attribution_required :: bool
  rp_attribution_requirement :: "attribution_requirement option"
  rp_seq :: u64
  rp_signature :: bytes

definition payload_v1 :: "bytes \<Rightarrow> u32 \<Rightarrow> bool \<Rightarrow> bytes list \<Rightarrow> u64 \<Rightarrow> bool \<Rightarrow> bytes" where
  "payload_v1 pubkey pow_min token_required token_hashes seq attribution_required =
     SIG_DOMAIN_POLICY_V1 @ pubkey @ u32_le pow_min @ [of_bool token_required]
     @ u32_le (word_of_nat (length token_hashes)) @ concat token_hashes
     @ u64_le seq @ [of_bool attribution_required]"

definition payload_v2 :: "bytes \<Rightarrow> u32 \<Rightarrow> bool \<Rightarrow> bytes list \<Rightarrow> u64 \<Rightarrow> bool \<Rightarrow> bytes" where
  "payload_v2 pubkey pow_min token_required token_hashes seq attribution_required =
     SIG_DOMAIN_POLICY_V2 @ [PREVIOUS_RECIPIENT_POLICY_VERSION] @ pubkey @ u32_be pow_min @ [of_bool token_required]
     @ u32_be (word_of_nat (length token_hashes)) @ concat token_hashes
     @ [of_bool attribution_required] @ u64_be seq"

definition requirement_field :: "attribution_requirement option \<Rightarrow> bytes" where
  "requirement_field m =
     (case m of Some r \<Rightarrow> [1, req_version r, jurisdiction_into (req_jurisdiction r)] @ req_authority r
      | None \<Rightarrow> [0])"

definition payload_v3 ::
  "bytes \<Rightarrow> u32 \<Rightarrow> bool \<Rightarrow> bytes list \<Rightarrow> u64 \<Rightarrow> attribution_requirement option \<Rightarrow> bytes" where
  "payload_v3 pubkey pow_min token_required token_hashes seq requirement =
     SIG_DOMAIN_POLICY_V3 @ [RECIPIENT_POLICY_VERSION] @ pubkey @ u32_be pow_min @ [of_bool token_required]
     @ u32_be (word_of_nat (length token_hashes)) @ concat token_hashes
     @ requirement_field requirement @ u64_be seq"

definition with_attribution_requirement ::
  "crypto \<Rightarrow> identity \<Rightarrow> u32 \<Rightarrow> bool \<Rightarrow> bytes list \<Rightarrow> u64 \<Rightarrow> attribution_requirement option \<Rightarrow> recipient_policy" where
  "with_attribution_requirement C i pow_min token_required token_hashes seq requirement =
     (let pubkey = verifying_key C i;
          payload = payload_v3 pubkey pow_min token_required token_hashes seq requirement
      in \<lparr>rp_version = RECIPIENT_POLICY_VERSION, rp_pubkey = pubkey, rp_pow_min = pow_min,
          rp_token_required = token_required, rp_token_hashes = token_hashes,
          rp_attribution_required = (requirement \<noteq> None), rp_attribution_requirement = requirement,
          rp_seq = seq, rp_signature = sign C i payload\<rparr>)"

definition policy_new :: "crypto \<Rightarrow> identity \<Rightarrow> u32 \<Rightarrow> bool \<Rightarrow> bytes list \<Rightarrow> u64 \<Rightarrow> recipient_policy" where
  "policy_new C i pow_min token_required token_hashes seq =
     with_attribution_requirement C i pow_min token_required token_hashes seq None"

definition permissive :: "bytes \<Rightarrow> recipient_policy" where
  "permissive pubkey =
     \<lparr>rp_version = RECIPIENT_POLICY_VERSION, rp_pubkey = pubkey, rp_pow_min = 0, rp_token_required = False,
      rp_token_hashes = [], rp_attribution_required = False, rp_attribution_requirement = None,
      rp_seq = 0, rp_signature = zeros 64\<rparr>"

text \<open>The preimage \<^verbatim>\<open>verify\<close> reconstructs, by the version the policy claims.\<close>

definition policy_payload :: "recipient_policy \<Rightarrow> error + bytes" where
  "policy_payload p =
     (if rp_version p = LEGACY_RECIPIENT_POLICY_VERSION \<and> rp_attribution_requirement p = None
      then Ok (payload_v1 (rp_pubkey p) (rp_pow_min p) (rp_token_required p) (rp_token_hashes p) (rp_seq p)
                 (rp_attribution_required p))
      else if rp_version p = PREVIOUS_RECIPIENT_POLICY_VERSION \<and> rp_attribution_requirement p = None
      then Ok (payload_v2 (rp_pubkey p) (rp_pow_min p) (rp_token_required p) (rp_token_hashes p) (rp_seq p)
                 (rp_attribution_required p))
      else if rp_version p = RECIPIENT_POLICY_VERSION
              \<and> rp_attribution_required p = (rp_attribution_requirement p \<noteq> None)
      then and_then (case rp_attribution_requirement p of Some r \<Rightarrow> requirement_validate r | None \<Rightarrow> Ok ()) (\<lambda>_.
             Ok (payload_v3 (rp_pubkey p) (rp_pow_min p) (rp_token_required p) (rp_token_hashes p) (rp_seq p)
                   (rp_attribution_requirement p)))
      else if rp_version p = LEGACY_RECIPIENT_POLICY_VERSION \<or> rp_version p = PREVIOUS_RECIPIENT_POLICY_VERSION
      then Err (MalformedEnvelope ''legacy policy carries unsigned attribution scope'')
      else if rp_version p = RECIPIENT_POLICY_VERSION
      then Err (MalformedEnvelope ''inconsistent attribution requirement'')
      else Err (MalformedEnvelope ''unsupported policy version''))"

definition policy_verify :: "crypto \<Rightarrow> recipient_policy \<Rightarrow> u64 option \<Rightarrow> error + bytes" where
  "policy_verify C p last_seq =
     (if MAX_TOKENS < length (rp_token_hashes p) then Err TooLarge
      else if (case last_seq of Some seen \<Rightarrow> rp_seq p \<le> seen | None \<Rightarrow> False) then Err StaleSequence
      else and_then (verifying_key_from_bytes C (rp_pubkey p)) (\<lambda>key.
           and_then (policy_payload p) (\<lambda>payload.
           and_then (verify C key payload (rp_signature p)) (\<lambda>_. Ok key))))"

definition migrate_legacy ::
  "crypto \<Rightarrow> recipient_policy \<Rightarrow> identity \<Rightarrow> u64 \<Rightarrow> attribution_requirement option \<Rightarrow> error + recipient_policy" where
  "migrate_legacy C p i next_seq requirement =
     (if rp_version p \<noteq> LEGACY_RECIPIENT_POLICY_VERSION \<and> rp_version p \<noteq> PREVIOUS_RECIPIENT_POLICY_VERSION
      then Err (MalformedEnvelope ''policy is not legacy'')
      else and_then (policy_verify C p None) (\<lambda>_.
        if verifying_key C i \<noteq> rp_pubkey p then Err InvalidKey
        else if next_seq \<le> rp_seq p then Err StaleSequence
        else if rp_attribution_required p \<and> requirement = None
          then Err (MalformedEnvelope ''legacy attribution policy requires an explicit scope'')
        else and_then (case requirement of Some r \<Rightarrow> requirement_validate r | None \<Rightarrow> Ok ()) (\<lambda>_.
          Ok (with_attribution_requirement C i (rp_pow_min p) (rp_token_required p) (rp_token_hashes p)
                next_seq requirement))))"

definition accepts_token :: "recipient_policy \<Rightarrow> bytes \<Rightarrow> bool" where
  "accepts_token p presented \<longleftrightarrow> list_ex (\<lambda>registered. presentation_matches presented registered) (rp_token_hashes p)"

section \<open>The encodings are unambiguous\<close>

definition requirement_wf :: "attribution_requirement \<Rightarrow> bool" where
  "requirement_wf r \<longleftrightarrow> req_version r = ATTRIBUTION_REQUIREMENT_VERSION \<and> length (req_authority r) = 32
     \<and> req_authority r \<noteq> zeros 32"

lemma requirement_validate_Ok:
  "requirement_validate r = Ok u \<longleftrightarrow> req_version r = ATTRIBUTION_REQUIREMENT_VERSION \<and> req_authority r \<noteq> zeros 32"
  by (simp add: requirement_validate_def)

interpretation requirement_codec: codec requirement_wf requirement_encode requirement_decode
proof (unfold_locales, goal_cases)
  case (1 r)
  then show ?case
    by (auto simp: requirement_wf_def requirement_encode_def requirement_validate_def requirement_decode_def
      requirement_new_def ATTRIBUTION_REQUIREMENT_LEN_def)
next
  case (2 b r)
  then obtain x y z where b: "b = x # y # z" "length z = 32"
    by (cases b; cases "tl b") (auto simp: requirement_decode_def ATTRIBUTION_REQUIREMENT_LEN_def split: if_splits)
  with 2 show ?case
    by (auto simp: requirement_wf_def requirement_encode_def requirement_decode_def requirement_new_def
      requirement_validate_Ok result_simps Let_def split: if_splits)
qed

lemma jurisdiction_into_inject [simp]: "jurisdiction_into i = jurisdiction_into j \<longleftrightarrow> i = j"
  by (metis jurisdiction_round_trip(1) sum.inject(2))

definition requirement_field_wf :: "attribution_requirement option \<Rightarrow> bool" where
  "requirement_field_wf m \<longleftrightarrow> (case m of Some r \<Rightarrow> length (req_authority r) = 32 | None \<Rightarrow> True)"

interpretation requirement_field: prefix_code requirement_field_wf requirement_field
  by unfold_locales
    (auto simp: requirement_field_wf_def requirement_field_def split: option.splits
      intro: attribution_requirement.equality)

text \<open>A counted list of 32-byte hashes.\<close>

definition hashes_wf :: "bytes list \<Rightarrow> bool" where
  "hashes_wf hs \<longleftrightarrow> fits_u32 hs \<and> list_all (\<lambda>h. length h = 32) hs"

lemma hashes_cancel:
  assumes "hashes_wf x" "hashes_wf y" "(word_of_nat (length x) :: u32) = word_of_nat (length y)"
    and "concat x @ r = concat y @ s"
  shows "x = y \<and> r = s"
proof -
  have "length x = length y"
    using assms(1,2,3) by (simp add: hashes_wf_def fits_u32_def word_of_nat_len_inj)
  with assms show ?thesis
    using array32.enc_list_cancel [of x y r s] by (simp add: hashes_wf_def)
qed

interpretation hashes_le: prefix_code hashes_wf "\<lambda>hs. u32_le (word_of_nat (length hs)) @ concat hs"
  by unfold_locales (auto dest: hashes_cancel)

interpretation hashes_be: prefix_code hashes_wf "\<lambda>hs. u32_be (word_of_nat (length hs)) @ concat hs"
  by unfold_locales (auto dest: hashes_cancel)

definition policy_wf :: "recipient_policy \<Rightarrow> bool" where
  "policy_wf p \<longleftrightarrow> length (rp_pubkey p) = 32 \<and> list_all (\<lambda>h. length h = 32) (rp_token_hashes p)
     \<and> length (rp_token_hashes p) \<le> MAX_TOKENS \<and> requirement_field_wf (rp_attribution_requirement p)"

lemma policy_wf_hashes: "policy_wf p \<Longrightarrow> hashes_wf (rp_token_hashes p)"
  by (simp add: policy_wf_def hashes_wf_def fits_u32_def MAX_TOKENS_def)

lemma payload_v1_inject:
  assumes "length k = 32" "length k' = 32" "hashes_wf hs" "hashes_wf hs'"
    and "payload_v1 k w t hs s a = payload_v1 k' w' t' hs' s' a'"
  shows "k = k' \<and> w = w' \<and> t = t' \<and> hs = hs' \<and> s = s' \<and> a = a'"
  using assms(5) hashes_le.enc_append_eq [OF assms(3,4), of "u64_le s @ [of_bool a]" "u64_le s' @ [of_bool a']"]
  by (auto simp: payload_v1_def assms(1,2))

lemma payload_v2_inject:
  assumes "length k = 32" "length k' = 32" "hashes_wf hs" "hashes_wf hs'"
    and "payload_v2 k w t hs s a = payload_v2 k' w' t' hs' s' a'"
  shows "k = k' \<and> w = w' \<and> t = t' \<and> hs = hs' \<and> s = s' \<and> a = a'"
  using assms(5) hashes_be.enc_append_eq [OF assms(3,4), of "[of_bool a] @ u64_be s" "[of_bool a'] @ u64_be s'"]
  by (auto simp: payload_v2_def assms(1,2))

lemma payload_v3_inject:
  assumes "length k = 32" "length k' = 32" "hashes_wf hs" "hashes_wf hs'" "requirement_field_wf a" "requirement_field_wf a'"
    and "payload_v3 k w t hs s a = payload_v3 k' w' t' hs' s' a'"
  shows "k = k' \<and> w = w' \<and> t = t' \<and> hs = hs' \<and> s = s' \<and> a = a'"
  using assms(7) requirement_field.enc_append_eq [OF assms(5,6), of "u64_be s" "u64_be s'"]
    hashes_be.enc_append_eq [OF assms(3,4), of "requirement_field a @ u64_be s" "requirement_field a' @ u64_be s'"]
  by (auto simp: payload_v3_def assms(1,2))

lemma payload_versions_differ:
  "payload_v1 k w t hs s a \<noteq> payload_v2 k' w' t' hs' s' a'"
  "payload_v1 k w t hs s a \<noteq> payload_v3 k' w' t' hs' s' r"
  "payload_v2 k w t hs s a \<noteq> payload_v3 k' w' t' hs' s' r"
  by (simp_all add: payload_v1_def payload_v2_def payload_v3_def SIG_DOMAIN_POLICY_V1_def
    SIG_DOMAIN_POLICY_V2_def SIG_DOMAIN_POLICY_V3_def as_bytes_def)

section \<open>Properties\<close>

lemma policy_payload_Ok:
  "policy_payload p = Ok m \<longleftrightarrow>
     rp_version p = 1 \<and> rp_attribution_requirement p = None
       \<and> m = payload_v1 (rp_pubkey p) (rp_pow_min p) (rp_token_required p) (rp_token_hashes p) (rp_seq p) (rp_attribution_required p)
   \<or> rp_version p = 2 \<and> rp_attribution_requirement p = None
       \<and> m = payload_v2 (rp_pubkey p) (rp_pow_min p) (rp_token_required p) (rp_token_hashes p) (rp_seq p) (rp_attribution_required p)
   \<or> rp_version p = 3 \<and> rp_attribution_required p = (rp_attribution_requirement p \<noteq> None)
       \<and> (\<forall>r. rp_attribution_requirement p = Some r \<longrightarrow> requirement_validate r = Ok ())
       \<and> m = payload_v3 (rp_pubkey p) (rp_pow_min p) (rp_token_required p) (rp_token_hashes p) (rp_seq p) (rp_attribution_requirement p)"
  by (auto simp: policy_payload_def policy_consts result_simps split: option.splits)

lemma policy_verify_Ok:
  "policy_verify C p last_seq = Ok key \<longleftrightarrow>
     length (rp_token_hashes p) \<le> MAX_TOKENS \<and> (\<forall>seen. last_seq = Some seen \<longrightarrow> seen < rp_seq p)
     \<and> verifying_key_from_bytes C (rp_pubkey p) = Ok key
     \<and> (\<exists>m. policy_payload p = Ok m \<and> ed_verify_strict C key m (rp_signature p))"
  by (auto simp: policy_verify_def result_simps verify_Ok not_less not_le split: option.splits)

lemma policy_payload_inject:
  assumes "policy_wf p" "policy_wf q" "policy_payload p = Ok m" "policy_payload q = Ok m"
  shows "p\<lparr>rp_signature := []\<rparr> = q\<lparr>rp_signature := []\<rparr>"
proof -
  have k: "length (rp_pubkey p) = 32" "length (rp_pubkey q) = 32" using assms(1,2) by (simp_all add: policy_wf_def)
  have r: "requirement_field_wf (rp_attribution_requirement p)" "requirement_field_wf (rp_attribution_requirement q)"
    using assms(1,2) by (simp_all add: policy_wf_def)
  note inj = payload_v1_inject [OF k policy_wf_hashes policy_wf_hashes, OF assms(1,2)]
    payload_v2_inject [OF k policy_wf_hashes policy_wf_hashes, OF assms(1,2)]
    payload_v3_inject [OF k policy_wf_hashes policy_wf_hashes r, OF assms(1,2)]
  from assms(3,4) show ?thesis
    unfolding policy_payload_Ok
    by (elim disjE conjE)
      (use payload_versions_differ in \<open>auto dest!: inj intro!: recipient_policy.equality simp: eq_commute [of m]\<close>)
qed

text \<open>C35. An accepted policy update advances the sequence number and is signed by the key it names over a
  preimage that fixes the policy version and every field: no loft can change any of them, downgrade the
  version or move the attribution scope while keeping the signature's preimage.\<close>

theorem policy_signature_binds:
  assumes "policy_verify C p last_seq = Ok key" and "policy_wf p"
  shows "key = rp_pubkey p \<and> (\<forall>seen. last_seq = Some seen \<longrightarrow> seen < rp_seq p)
    \<and> (\<exists>m. policy_payload p = Ok m \<and> ed_verify_strict C key m (rp_signature p)
        \<and> (\<forall>q. policy_wf q \<longrightarrow> policy_payload q = Ok m \<longrightarrow> q\<lparr>rp_signature := []\<rparr> = p\<lparr>rp_signature := []\<rparr>))"
  using assms policy_payload_inject [OF _ assms(2)]
  by (auto simp: policy_verify_Ok verifying_key_from_bytes_Ok)

lemma constructor_verifies:
  assumes "signature_contract C" "length (seed i) = 32" "length hashes \<le> MAX_TOKENS"
    and "\<forall>r. requirement = Some r \<longrightarrow> requirement_validate r = Ok ()"
  shows "policy_verify C (with_attribution_requirement C i w t hashes s requirement) last_seq =
    (if \<exists>seen. last_seq = Some seen \<and> s \<le> seen then Err StaleSequence else Ok (verifying_key C i))"
proof -
  let ?p = "with_attribution_requirement C i w t hashes s requirement"
  have "policy_payload ?p = Ok (payload_v3 (verifying_key C i) w t hashes s requirement)"
    using assms(4) by (simp add: policy_payload_Ok with_attribution_requirement_def Let_def policy_consts)
  with assms(1-3) show ?thesis
    by (auto simp: policy_verify_def with_attribution_requirement_def Let_def signature_contractD
      split: option.splits)
qed

text \<open>A policy made by its constructor verifies exactly when its sequence number advances.\<close>

theorem policy_constructor_verifies:
  assumes "signature_contract C" "length (seed i) = 32" "length hashes \<le> MAX_TOKENS"
    and "\<forall>r. requirement = Some r \<longrightarrow> requirement_validate r = Ok ()"
  shows "policy_verify C (with_attribution_requirement C i w t hashes s requirement) last_seq =
    (if \<exists>seen. last_seq = Some seen \<and> s \<le> seen then Err StaleSequence else Ok (verifying_key C i))"
  using assms by (rule constructor_verifies)

theorem policy_constructor_verifies_witness:
  "policy_verify toy (with_attribution_requirement toy (from_seed (zeros 32)) 5 True [zeros 32] 2
      (Some (requirement_new Us (replicate 32 7)))) (Some 1) = Ok (verifying_key toy (from_seed (zeros 32)))"
proof -
  have "requirement_validate (requirement_new Us (replicate 32 7)) = Ok ()" by code_simp
  then show ?thesis
    using policy_constructor_verifies [of toy "from_seed (zeros 32)" "[zeros 32]"
      "Some (requirement_new Us (replicate 32 7))" 5 True 2 "Some 1"]
    by (simp add: from_seed_def MAX_TOKENS_def word_le_nat_alt)
qed

theorem policy_signature_binds_witness:
  "\<exists>m. policy_payload (policy_new toy (from_seed (zeros 32)) 5 True [zeros 32] 2) = Ok m
    \<and> ed_verify_strict toy (zeros 32) m (rp_signature (policy_new toy (from_seed (zeros 32)) 5 True [zeros 32] 2))"
proof -
  let ?p = "policy_new toy (from_seed (zeros 32)) 5 True [zeros 32] 2"
  have "policy_verify toy ?p (Some 1) = Ok (zeros 32)" "policy_wf ?p" by code_simp+
  from policy_signature_binds [OF this] show ?thesis by blast
qed

text \<open>Migrating an authenticated legacy policy re-signs it as version 3 with the same key, proof-of-work
  floor, token gate and tokens, at a larger sequence number; it fails when the legacy policy required
  attribution and no scope is supplied, and whatever it returns is accepted as an update.\<close>

theorem migrate_legacy_accepted:
  assumes "signature_contract C" "length (seed i) = 32" "migrate_legacy C p i next_seq requirement = Ok q"
  shows "policy_verify C q (Some (rp_seq p)) = Ok (rp_pubkey p)
    \<and> rp_version q = RECIPIENT_POLICY_VERSION \<and> rp_pubkey q = rp_pubkey p \<and> rp_pow_min q = rp_pow_min p
    \<and> rp_token_required q = rp_token_required p \<and> rp_token_hashes q = rp_token_hashes p
    \<and> rp_seq p < rp_seq q \<and> (rp_attribution_required p \<longrightarrow> rp_attribution_required q)"
proof -
  from assms(3) have q: "q = with_attribution_requirement C i (rp_pow_min p) (rp_token_required p) (rp_token_hashes p) next_seq requirement"
    and "verifying_key C i = rp_pubkey p" "rp_seq p < next_seq" "length (rp_token_hashes p) \<le> MAX_TOKENS"
    "rp_attribution_required p \<longrightarrow> requirement \<noteq> None" "\<forall>r. requirement = Some r \<longrightarrow> requirement_validate r = Ok ()"
    by (auto simp: migrate_legacy_def result_simps policy_verify_Ok not_le split: if_splits option.splits)
  moreover from this have "policy_verify C q (Some (rp_seq p)) = Ok (rp_pubkey p)"
    unfolding q by (subst constructor_verifies [OF assms(1,2)]) auto
  ultimately show ?thesis by (simp add: with_attribution_requirement_def Let_def)
qed

definition example_legacy :: recipient_policy where
  "example_legacy = (let k = zeros 32; m = payload_v1 k 5 True [zeros 32] 1 True in
     \<lparr>rp_version = 1, rp_pubkey = k, rp_pow_min = 5, rp_token_required = True, rp_token_hashes = [zeros 32],
      rp_attribution_required = True, rp_attribution_requirement = None, rp_seq = 1, rp_signature = sign toy (from_seed k) m\<rparr>)"

theorem migrate_legacy_accepted_witness:
  "\<exists>q. migrate_legacy toy example_legacy (from_seed (zeros 32)) 2 (Some (requirement_new Us (replicate 32 7))) = Ok q
    \<and> policy_verify toy q (Some 1) = Ok (zeros 32)
    \<and> migrate_legacy toy example_legacy (from_seed (zeros 32)) 2 None
        = Err (MalformedEnvelope ''legacy attribution policy requires an explicit scope'')"
proof -
  have "is_ok (migrate_legacy toy example_legacy (from_seed (zeros 32)) 2 (Some (requirement_new Us (replicate 32 7))))"
    "migrate_legacy toy example_legacy (from_seed (zeros 32)) 2 None
        = Err (MalformedEnvelope ''legacy attribution policy requires an explicit scope'')"
    "rp_pubkey example_legacy = zeros 32" "rp_seq example_legacy = 1"
    by code_simp+
  moreover from this(1) obtain q where
    "migrate_legacy toy example_legacy (from_seed (zeros 32)) 2 (Some (requirement_new Us (replicate 32 7))) = Ok q"
    by (auto simp: is_ok_def split: sum.splits)
  moreover from migrate_legacy_accepted [OF _ _ this] have "policy_verify toy q (Some (rp_seq example_legacy)) = Ok (rp_pubkey example_legacy)"
    by (simp add: from_seed_def)
  ultimately show ?thesis by auto
qed

end
