(* ===== verification/Agent_Record.thy ===== *)
theory Agent_Record
  imports Policy Address
begin

text \<open>
  \<^verbatim>\<open>pigeonpost-core/src/record.rs\<close>: the signed agent record published at a key address, and the
  rotation record that moves an address to the successor key it committed to.
\<close>

section \<open>Agent records\<close>

definition SIG_DOMAIN_RECORD_V1 :: bytes where "SIG_DOMAIN_RECORD_V1 = as_bytes ''pigeonpost/agent-record/v1''"
definition SIG_DOMAIN_RECORD_V2 :: bytes where "SIG_DOMAIN_RECORD_V2 = as_bytes ''pigeonpost/agent-record/v2''"
definition SIG_DOMAIN_ROTATION_OUTGOING :: bytes where
  "SIG_DOMAIN_ROTATION_OUTGOING = as_bytes ''pigeonpost/rotation/v2/outgoing''"
definition SIG_DOMAIN_ROTATION_INCOMING :: bytes where
  "SIG_DOMAIN_ROTATION_INCOMING = as_bytes ''pigeonpost/rotation/v2/incoming''"
definition ROTATION_RECORD_VERSION :: u8 where "ROTATION_RECORD_VERSION = 2"
definition ROTATION_GRACE_SECS :: u64 where "ROTATION_GRACE_SECS = 90 * 24 * 60 * 60"
definition ROTATION_CLOCK_SKEW_SECS :: u64 where "ROTATION_CLOCK_SKEW_SECS = 5 * 60"
definition MAX_AGENT_RECORD_LOFTS :: nat where "MAX_AGENT_RECORD_LOFTS = 8"
definition MAX_AGENT_RECORD_LOFT_URL_BYTES :: nat where "MAX_AGENT_RECORD_LOFT_URL_BYTES = 2048"
definition MAX_AGENT_RECORD_LOFT_BYTES :: nat where
  "MAX_AGENT_RECORD_LOFT_BYTES = MAX_AGENT_RECORD_LOFTS * MAX_AGENT_RECORD_LOFT_URL_BYTES"
definition AGENT_RECORD_VERSION :: u8 where "AGENT_RECORD_VERSION = 2"
definition LEGACY_AGENT_RECORD_VERSION :: u8 where "LEGACY_AGENT_RECORD_VERSION = 1"

lemmas record_consts = ROTATION_RECORD_VERSION_def ROTATION_GRACE_SECS_def
  ROTATION_CLOCK_SKEW_SECS_def MAX_AGENT_RECORD_LOFTS_def MAX_AGENT_RECORD_LOFT_URL_BYTES_def
  MAX_AGENT_RECORD_LOFT_BYTES_def AGENT_RECORD_VERSION_def LEGACY_AGENT_RECORD_VERSION_def

record agent_record =
  ar_version :: u8
  ar_pubkey :: bytes
  ar_successor_hash :: bytes
  ar_seq :: u64
  ar_lofts :: "string list"
  ar_pow_min :: u32
  ar_attribution_requirement :: "attribution_requirement option"
  ar_signature :: bytes

definition loft_origin_invalid :: "error" where
  "loft_origin_invalid = MalformedEnvelope ''agent record loft origin is invalid''"

fun validate_lofts_loop :: "url_parser \<Rightarrow> nat \<Rightarrow> string list \<Rightarrow> error + unit" where
  "validate_lofts_loop parse total_bytes [] = Ok ()"
| "validate_lofts_loop parse total_bytes (loft # rest) =
     (if loft = [] \<or> MAX_AGENT_RECORD_LOFT_URL_BYTES < length loft then Err TooLarge
      else let total_bytes = total_bytes + length loft in
      if MAX_AGENT_RECORD_LOFT_BYTES < total_bytes then Err TooLarge
      else case parse loft of
          None \<Rightarrow> Err loft_origin_invalid
        | Some u \<Rightarrow>
            if url_username u \<noteq> [] \<or> url_password u \<noteq> None \<or> url_query u \<noteq> None \<or> url_fragment u \<noteq> None
               \<or> url_path u \<notin> {'''', ''/''} \<or> url_host u = None \<or> url_port u = Some 0
            then Err loft_origin_invalid
            else case url_host u of
                None \<Rightarrow> Err loft_origin_invalid
              | Some host \<Rightarrow>
                  if is_localhost_name host then Err loft_origin_invalid
                  else if url_scheme u \<noteq> ''https'' \<and> \<not> (url_scheme u = ''http'' \<and> is_numeric_loopback_host host)
                       then Err loft_origin_invalid
                  else validate_lofts_loop parse total_bytes rest)"

definition validate_loft_list :: "url_parser \<Rightarrow> string list \<Rightarrow> error + unit" where
  "validate_loft_list parse lofts =
     (if MAX_AGENT_RECORD_LOFTS < length lofts then Err TooLarge else validate_lofts_loop parse 0 lofts)"

definition record_payload_v1 :: "bytes \<Rightarrow> bytes \<Rightarrow> u64 \<Rightarrow> string list \<Rightarrow> u32 \<Rightarrow> bytes" where
  "record_payload_v1 pubkey successor seq lofts pow_min =
     SIG_DOMAIN_RECORD_V1 @ pubkey @ successor @ u64_le seq @ u32_le (word_of_nat (length lofts))
     @ concat (map (\<lambda>loft. lp32_le (as_bytes loft)) lofts) @ u32_le pow_min"

definition record_payload_v2 ::
  "bytes \<Rightarrow> bytes \<Rightarrow> u64 \<Rightarrow> string list \<Rightarrow> u32 \<Rightarrow> attribution_requirement option \<Rightarrow> bytes" where
  "record_payload_v2 pubkey successor seq lofts pow_min requirement =
     SIG_DOMAIN_RECORD_V2 @ [AGENT_RECORD_VERSION] @ pubkey @ successor @ u64_be seq
     @ u32_be (word_of_nat (length lofts)) @ concat (map (\<lambda>loft. lp32_be (as_bytes loft)) lofts)
     @ u32_be pow_min @ requirement_field requirement"

definition with_policy ::
  "crypto \<Rightarrow> identity \<Rightarrow> bytes \<Rightarrow> u64 \<Rightarrow> string list \<Rightarrow> u32 \<Rightarrow> attribution_requirement option \<Rightarrow> agent_record" where
  "with_policy C i successor seq lofts pow_min requirement =
     (let payload = record_payload_v2 (verifying_key C i) successor seq lofts pow_min requirement
      in \<lparr>ar_version = AGENT_RECORD_VERSION, ar_pubkey = verifying_key C i, ar_successor_hash = successor,
          ar_seq = seq, ar_lofts = lofts, ar_pow_min = pow_min, ar_attribution_requirement = requirement,
          ar_signature = sign C i payload\<rparr>)"

definition with_pow :: "crypto \<Rightarrow> identity \<Rightarrow> bytes \<Rightarrow> u64 \<Rightarrow> string list \<Rightarrow> u32 \<Rightarrow> agent_record" where
  "with_pow C i successor seq lofts pow_min = with_policy C i successor seq lofts pow_min None"

definition agent_record_new :: "crypto \<Rightarrow> identity \<Rightarrow> bytes \<Rightarrow> u64 \<Rightarrow> string list \<Rightarrow> agent_record" where
  "agent_record_new C i successor seq lofts = with_policy C i successor seq lofts 0 None"

definition record_payload :: "agent_record \<Rightarrow> error + bytes" where
  "record_payload r =
     (if ar_version r = LEGACY_AGENT_RECORD_VERSION \<and> ar_attribution_requirement r = None
      then Ok (record_payload_v1 (ar_pubkey r) (ar_successor_hash r) (ar_seq r) (ar_lofts r) (ar_pow_min r))
      else if ar_version r = AGENT_RECORD_VERSION
      then and_then (case ar_attribution_requirement r of Some q \<Rightarrow> requirement_validate q | None \<Rightarrow> Ok ()) (\<lambda>_.
             Ok (record_payload_v2 (ar_pubkey r) (ar_successor_hash r) (ar_seq r) (ar_lofts r) (ar_pow_min r)
                   (ar_attribution_requirement r)))
      else if ar_version r = LEGACY_AGENT_RECORD_VERSION
      then Err (MalformedEnvelope ''legacy agent record carries unsigned attribution scope'')
      else Err (MalformedEnvelope ''unsupported agent record version''))"

definition agent_record_verify :: "crypto \<Rightarrow> url_parser \<Rightarrow> agent_record \<Rightarrow> address \<Rightarrow> error + bytes" where
  "agent_record_verify C parse r address =
     and_then (verifying_key_from_bytes C (ar_pubkey r)) (\<lambda>pubkey.
     if \<not> address_matches C address pubkey
     then Err (MalformedAddress ''record is for a different address'')
     else and_then (validate_loft_list parse (ar_lofts r)) (\<lambda>_.
          and_then (record_payload r) (\<lambda>payload.
          and_then (verify C pubkey payload (ar_signature r)) (\<lambda>_. Ok pubkey))))"

definition migrate_v1 ::
  "crypto \<Rightarrow> url_parser \<Rightarrow> agent_record \<Rightarrow> identity \<Rightarrow> u64 \<Rightarrow> attribution_requirement option \<Rightarrow> error + agent_record" where
  "migrate_v1 C parse r i next_seq requirement =
     (if ar_version r \<noteq> LEGACY_AGENT_RECORD_VERSION then Err (MalformedEnvelope ''agent record is not v1'')
      else and_then (verifying_key_from_bytes C (ar_pubkey r)) (\<lambda>owner.
        and_then (agent_record_verify C parse r (address_from_pubkey C owner)) (\<lambda>_.
        if verifying_key C i \<noteq> ar_pubkey r then Err InvalidKey
        else if next_seq \<le> ar_seq r then Err StaleSequence
        else and_then (case requirement of Some q \<Rightarrow> requirement_validate q | None \<Rightarrow> Ok ()) (\<lambda>_.
          Ok (with_policy C i (ar_successor_hash r) next_seq (ar_lofts r) (ar_pow_min r) requirement)))))"

section \<open>Rotation records\<close>

record rotation_record =
  rr_version :: u8
  rr_from_pubkey :: bytes
  rr_to_pubkey :: bytes
  rr_next_successor_hash :: bytes
  rr_seq :: u64
  rr_activated_at :: u64
  rr_grace_until :: u64
  rr_outgoing_signature :: bytes
  rr_incoming_signature :: bytes

record verified_rotation =
  vr_incoming :: bytes
  vr_next_successor :: bytes
  vr_activated_at :: u64
  vr_grace_until :: u64

definition rotation_body :: "u8 \<Rightarrow> bytes \<Rightarrow> bytes \<Rightarrow> bytes \<Rightarrow> u64 \<Rightarrow> u64 \<Rightarrow> u64 \<Rightarrow> bytes" where
  "rotation_body version from to nxt seq activated_at grace_until =
     [version] @ from @ to @ nxt @ u64_le seq @ u64_le activated_at @ u64_le grace_until"

definition rotation_signing_payload :: "bytes \<Rightarrow> bytes \<Rightarrow> bytes" where
  "rotation_signing_payload domain body = domain @ body"

definition rotation_new ::
  "crypto \<Rightarrow> identity \<Rightarrow> identity \<Rightarrow> bytes \<Rightarrow> u64 \<Rightarrow> u64 \<Rightarrow> error + rotation_record" where
  "rotation_new C outgoing incoming next_successor seq activated_at =
     and_then (ok_or (checked_add activated_at ROTATION_GRACE_SECS) (MalformedEnvelope ''invalid rotation timing'')) (\<lambda>grace_until.
     if activated_at = 0 then Err (MalformedEnvelope ''invalid rotation timing'')
     else let body = rotation_body ROTATION_RECORD_VERSION (verifying_key C outgoing) (verifying_key C incoming)
                       next_successor seq activated_at grace_until
          in Ok \<lparr>rr_version = ROTATION_RECORD_VERSION, rr_from_pubkey = verifying_key C outgoing,
                 rr_to_pubkey = verifying_key C incoming, rr_next_successor_hash = next_successor, rr_seq = seq,
                 rr_activated_at = activated_at, rr_grace_until = grace_until,
                 rr_outgoing_signature = sign C outgoing (rotation_signing_payload SIG_DOMAIN_ROTATION_OUTGOING body),
                 rr_incoming_signature = sign C incoming (rotation_signing_payload SIG_DOMAIN_ROTATION_INCOMING body)\<rparr>)"

definition rotation_record_body :: "rotation_record \<Rightarrow> bytes" where
  "rotation_record_body r = rotation_body (rr_version r) (rr_from_pubkey r) (rr_to_pubkey r) (rr_next_successor_hash r)
     (rr_seq r) (rr_activated_at r) (rr_grace_until r)"

definition rotation_verify :: "crypto \<Rightarrow> rotation_record \<Rightarrow> bytes \<Rightarrow> u64 \<Rightarrow> u64 \<Rightarrow> error + verified_rotation" where
  "rotation_verify C r pinned last_seq observed_at =
     (if rr_version r \<noteq> ROTATION_RECORD_VERSION \<or> rr_activated_at r = 0
         \<or> checked_sub (rr_grace_until r) (rr_activated_at r) \<noteq> Some ROTATION_GRACE_SECS
      then Err (MalformedEnvelope ''invalid rotation record'')
      else and_then (verifying_key_from_bytes C (rr_from_pubkey r)) (\<lambda>from.
        and_then (verifying_key_from_bytes C (rr_to_pubkey r)) (\<lambda>to.
        let body = rotation_record_body r in
        and_then (verify C from (rotation_signing_payload SIG_DOMAIN_ROTATION_OUTGOING body) (rr_outgoing_signature r)) (\<lambda>_.
        and_then (verify C to (rotation_signing_payload SIG_DOMAIN_ROTATION_INCOMING body) (rr_incoming_signature r)) (\<lambda>_.
        if \<not> commitment_accepts C pinned to then Err SuccessorMismatch
        else if checked_add last_seq 1 \<noteq> Some (rr_seq r) then Err StaleSequence
        else if saturating_add observed_at ROTATION_CLOCK_SKEW_SECS < rr_activated_at r then Err StaleTimestamp
        else Ok \<lparr>vr_incoming = to, vr_next_successor = rr_next_successor_hash r,
                 vr_activated_at = rr_activated_at r, vr_grace_until = rr_grace_until r\<rparr>)))))"

definition verify_source_address :: "crypto \<Rightarrow> rotation_record \<Rightarrow> address \<Rightarrow> error + unit" where
  "verify_source_address C r address =
     and_then (verifying_key_from_bytes C (rr_from_pubkey r)) (\<lambda>from.
     if \<not> address_matches C address from then Err (MalformedAddress ''rotation is for a different address'')
     else Ok ())"

definition target_address :: "crypto \<Rightarrow> rotation_record \<Rightarrow> error + address" where
  "target_address C r =
     and_then (verifying_key_from_bytes C (rr_to_pubkey r)) (\<lambda>to. Ok (address_from_pubkey C to))"

definition retired_key_is_active :: "rotation_record \<Rightarrow> u64 \<Rightarrow> bool" where
  "retired_key_is_active r now \<longleftrightarrow> rr_activated_at r \<le> now \<and> now < rr_grace_until r"

section \<open>What an agent record's signature binds\<close>

definition lofts_wf :: "string list \<Rightarrow> bool" where
  "lofts_wf ls \<longleftrightarrow> fits_u32 ls \<and> list_all fits_u32 ls"

text \<open>A counted list of length-prefixed strings cannot run into what follows.\<close>

lemma lofts_cancel:
  assumes "lofts_wf x" "lofts_wf y" "(word_of_nat (length x) :: u32) = word_of_nat (length y)"
    and cancel: "\<And>a b r s. fits_u32 (a :: bytes) \<Longrightarrow> fits_u32 b \<Longrightarrow> lp a @ r = lp b @ s \<Longrightarrow> a = b \<and> r = s"
    and "concat (map (\<lambda>l. lp (as_bytes l)) x) @ r = concat (map (\<lambda>l. lp (as_bytes l)) y) @ s"
  shows "x = y \<and> r = s"
proof -
  have "length x = length y"
    using assms(1-3) by (simp add: lofts_wf_def fits_u32_def word_of_nat_len_inj)
  then show ?thesis
    using assms(1,2,5)
  proof (induction x y rule: list_induct2)
    case (Cons a x b y)
    then have "as_bytes a = as_bytes b \<and> concat (map (\<lambda>l. lp (as_bytes l)) x) @ r = concat (map (\<lambda>l. lp (as_bytes l)) y) @ s"
      by (intro cancel) (simp_all add: lofts_wf_def fits_u32_def)
    with Cons show ?case by (simp add: lofts_wf_def fits_u32_def)
  qed simp
qed

interpretation lofts_le: prefix_code lofts_wf
  "\<lambda>ls. u32_le (word_of_nat (length ls)) @ concat (map (\<lambda>l. lp32_le (as_bytes l)) ls)"
  by unfold_locales (auto dest: lofts_cancel [OF _ _ _ lp32le.enc_cancel])

interpretation lofts_be: prefix_code lofts_wf
  "\<lambda>ls. u32_be (word_of_nat (length ls)) @ concat (map (\<lambda>l. lp32_be (as_bytes l)) ls)"
  by unfold_locales (auto dest: lofts_cancel [OF _ _ _ lp32be.enc_cancel])

lemma validate_lofts_loop_lengths:
  "validate_lofts_loop parse n ls = Ok u \<Longrightarrow> l \<in> set ls \<Longrightarrow>
    0 < length l \<and> length l \<le> 2048 \<and> parse l \<noteq> None"
  by (induction ls arbitrary: n)
    (auto simp: Let_def record_consts split: if_splits option.splits)

lemma validate_loft_list_wf: "validate_loft_list parse ls = Ok u \<Longrightarrow> lofts_wf ls"
  using validate_lofts_loop_lengths [of parse 0 ls u]
  by (auto simp: validate_loft_list_def lofts_wf_def fits_u32_def list_all_iff record_consts split: if_splits)
    (use order.strict_trans1 in fastforce)

definition record_wf :: "agent_record \<Rightarrow> bool" where
  "record_wf r \<longleftrightarrow> length (ar_pubkey r) = 32 \<and> length (ar_successor_hash r) = 32 \<and> lofts_wf (ar_lofts r)
     \<and> requirement_field_wf (ar_attribution_requirement r)"

lemma record_payload_v1_inject:
  assumes "length k = 32" "length k' = 32" "length h = 32" "length h' = 32" "lofts_wf ls" "lofts_wf ls'"
    and "record_payload_v1 k h s ls w = record_payload_v1 k' h' s' ls' w'"
  shows "k = k' \<and> h = h' \<and> s = s' \<and> ls = ls' \<and> w = w'"
  using assms(7) lofts_le.enc_append_eq [OF assms(5,6), of "u32_le w" "u32_le w'"]
  by (auto simp: record_payload_v1_def assms(1-4))

lemma record_payload_v2_inject:
  assumes "length k = 32" "length k' = 32" "length h = 32" "length h' = 32" "lofts_wf ls" "lofts_wf ls'"
    and "requirement_field_wf a" "requirement_field_wf a'"
    and "record_payload_v2 k h s ls w a = record_payload_v2 k' h' s' ls' w' a'"
  shows "k = k' \<and> h = h' \<and> s = s' \<and> ls = ls' \<and> w = w' \<and> a = a'"
  using assms(9) lofts_be.enc_append_eq [OF assms(5,6), of "u32_be w @ requirement_field a" "u32_be w' @ requirement_field a'"]
    requirement_field.enc_inject [OF assms(7,8)]
  by (auto simp: record_payload_v2_def assms(1-4))

lemma record_versions_differ: "record_payload_v1 k h s ls w \<noteq> record_payload_v2 k' h' s' ls' w' a"
  by (simp add: record_payload_v1_def record_payload_v2_def SIG_DOMAIN_RECORD_V1_def SIG_DOMAIN_RECORD_V2_def as_bytes_def)

lemma record_payload_Ok:
  "record_payload r = Ok m \<longleftrightarrow>
     ar_version r = 1 \<and> ar_attribution_requirement r = None
       \<and> m = record_payload_v1 (ar_pubkey r) (ar_successor_hash r) (ar_seq r) (ar_lofts r) (ar_pow_min r)
   \<or> ar_version r = 2 \<and> (\<forall>q. ar_attribution_requirement r = Some q \<longrightarrow> requirement_validate q = Ok ())
       \<and> m = record_payload_v2 (ar_pubkey r) (ar_successor_hash r) (ar_seq r) (ar_lofts r) (ar_pow_min r)
               (ar_attribution_requirement r)"
  by (auto simp: record_payload_def record_consts result_simps split: option.splits)

lemma record_payload_inject:
  assumes "record_wf p" "record_wf q" "record_payload p = Ok m" "record_payload q = Ok m"
  shows "p\<lparr>ar_signature := []\<rparr> = q\<lparr>ar_signature := []\<rparr>"
proof -
  from assms(1,2) have wf: "length (ar_pubkey p) = 32" "length (ar_pubkey q) = 32"
    "length (ar_successor_hash p) = 32" "length (ar_successor_hash q) = 32" "lofts_wf (ar_lofts p)" "lofts_wf (ar_lofts q)"
    "requirement_field_wf (ar_attribution_requirement p)" "requirement_field_wf (ar_attribution_requirement q)"
    by (simp_all add: record_wf_def)
  note inj = record_payload_v1_inject [OF wf(1-6)] record_payload_v2_inject [OF wf]
  from assms(3,4) show ?thesis
    unfolding record_payload_Ok
    by (elim disjE conjE)
      (use record_versions_differ in \<open>auto dest!: inj intro!: agent_record.equality simp: eq_commute [of m]\<close>)
qed

lemma agent_record_verify_Ok:
  "agent_record_verify C parse r a = Ok key \<longleftrightarrow>
     key = ar_pubkey r \<and> verifying_key_from_bytes C key = Ok key \<and> a = address_from_pubkey C key
     \<and> validate_loft_list parse (ar_lofts r) = Ok ()
     \<and> (\<exists>m. record_payload r = Ok m \<and> ed_verify_strict C key m (ar_signature r))"
  by (auto simp: agent_record_verify_def result_simps verify_Ok address_matches_def verifying_key_from_bytes_Ok
    split: if_splits)

text \<open>C36. A record accepted for an address carries the key that address commits to, signed by that key over
  a preimage that fixes the version and every routing and policy field; a record whose key does not give
  the address is refused before anything else of it is used.\<close>

theorem agent_record_binds:
  assumes "agent_record_verify C parse r a = Ok key"
    and "length (ar_pubkey r) = 32" "length (ar_successor_hash r) = 32"
    and "requirement_field_wf (ar_attribution_requirement r)"
  shows "key = ar_pubkey r \<and> a = address_from_pubkey C key
    \<and> length (ar_lofts r) \<le> MAX_AGENT_RECORD_LOFTS
    \<and> (\<exists>m. record_payload r = Ok m \<and> ed_verify_strict C key m (ar_signature r)
        \<and> (\<forall>q. record_wf q \<longrightarrow> record_payload q = Ok m \<longrightarrow> q\<lparr>ar_signature := []\<rparr> = r\<lparr>ar_signature := []\<rparr>))"
proof -
  from assms(1) obtain m where m: "record_payload r = Ok m" "ed_verify_strict C key m (ar_signature r)"
    and v: "validate_loft_list parse (ar_lofts r) = Ok ()" "key = ar_pubkey r" "a = address_from_pubkey C key"
    by (auto simp: agent_record_verify_Ok)
  have "record_wf r" using assms(2-4) validate_loft_list_wf [OF v(1)] by (simp add: record_wf_def)
  then have "\<forall>q. record_wf q \<longrightarrow> record_payload q = Ok m \<longrightarrow> q\<lparr>ar_signature := []\<rparr> = r\<lparr>ar_signature := []\<rparr>"
    using record_payload_inject [OF _ _ _ m(1)] by blast
  moreover have "length (ar_lofts r) \<le> MAX_AGENT_RECORD_LOFTS"
    using v(1) by (simp add: validate_loft_list_def split: if_splits)
  ultimately show ?thesis using m v by blast
qed

definition example_record :: agent_record where
  "example_record = with_policy toy (from_seed (replicate 32 1)) (zeros 32) 3 [example_origin] 4 None"

lemma with_policy_verifies:
  assumes "signature_contract C" "length (seed i) = 32" "validate_loft_list parse lofts = Ok ()"
    and "\<forall>q. requirement = Some q \<longrightarrow> requirement_validate q = Ok ()"
  shows "agent_record_verify C parse (with_policy C i successor seq lofts pow_min requirement)
    (address_from_pubkey C (verifying_key C i)) = Ok (verifying_key C i)"
  using assms signature_contractD [OF assms(1,2)]
  by (auto simp: agent_record_verify_Ok with_policy_def record_payload_Ok Let_def verify_Ok record_consts)

lemma example_record_verifies:
  "agent_record_verify toy example_parser example_record (address_from_pubkey toy (replicate 32 1)) = Ok (replicate 32 1)"
proof -
  have "validate_loft_list example_parser [example_origin] = Ok ()" by code_simp
  then show ?thesis
    using with_policy_verifies [of toy "from_seed (replicate 32 1)" example_parser "[example_origin]" None]
    by (simp add: example_record_def)
qed

theorem agent_record_binds_witness:
  "\<exists>m. record_payload example_record = Ok m \<and> ed_verify_strict toy (replicate 32 1) m (ar_signature example_record)"
proof -
  have "length (ar_pubkey example_record) = 32" "length (ar_successor_hash example_record) = 32"
    "requirement_field_wf (ar_attribution_requirement example_record)"
    by (simp_all add: example_record_def with_policy_def Let_def requirement_field_wf_def)
  from agent_record_binds [OF example_record_verifies this] show ?thesis by blast
qed

section \<open>Rotation\<close>

lemma rotation_verify_Ok:
  "rotation_verify C r pinned last_seq observed_at = Ok v \<longleftrightarrow>
     rr_version r = ROTATION_RECORD_VERSION \<and> rr_activated_at r \<noteq> 0
     \<and> checked_sub (rr_grace_until r) (rr_activated_at r) = Some ROTATION_GRACE_SECS
     \<and> is_ok (verifying_key_from_bytes C (rr_from_pubkey r)) \<and> is_ok (verifying_key_from_bytes C (rr_to_pubkey r))
     \<and> ed_verify_strict C (rr_from_pubkey r)
         (rotation_signing_payload SIG_DOMAIN_ROTATION_OUTGOING (rotation_record_body r)) (rr_outgoing_signature r)
     \<and> ed_verify_strict C (rr_to_pubkey r)
         (rotation_signing_payload SIG_DOMAIN_ROTATION_INCOMING (rotation_record_body r)) (rr_incoming_signature r)
     \<and> sha256 C (rr_to_pubkey r) = pinned
     \<and> checked_add last_seq 1 = Some (rr_seq r)
     \<and> \<not> saturating_add observed_at ROTATION_CLOCK_SKEW_SECS < rr_activated_at r
     \<and> v = \<lparr>vr_incoming = rr_to_pubkey r, vr_next_successor = rr_next_successor_hash r,
           vr_activated_at = rr_activated_at r, vr_grace_until = rr_grace_until r\<rparr>"
  by (auto simp: rotation_verify_def verifying_key_from_bytes_def Let_def verify_Ok commitment_accepts_def
    result_simps split: if_splits)

lemma rotation_body_inject:
  assumes "length f = 32" "length f' = 32" "length t = 32" "length t' = 32" "length n = 32" "length n' = 32"
  shows "rotation_body v f t n s a g = rotation_body v' f' t' n' s' a' g' \<longleftrightarrow>
    v = v' \<and> f = f' \<and> t = t' \<and> n = n' \<and> s = s' \<and> a = a' \<and> g = g'"
  using assms by (auto simp: rotation_body_def)

lemma rotation_domains_differ:
  "rotation_signing_payload SIG_DOMAIN_ROTATION_OUTGOING b \<noteq> rotation_signing_payload SIG_DOMAIN_ROTATION_INCOMING b'"
  by (simp add: rotation_signing_payload_def SIG_DOMAIN_ROTATION_OUTGOING_def SIG_DOMAIN_ROTATION_INCOMING_def as_bytes_def)

text \<open>
  What a correspondent holds about an agent: the current key, the successor it committed to and the
  sequence number of the last record. Following one verified rotation is a step.
\<close>

record pinned_agent =
  pa_key :: bytes
  pa_successor :: bytes
  pa_seq :: u64

inductive follows :: "crypto \<Rightarrow> pinned_agent \<Rightarrow> rotation_record list \<Rightarrow> pinned_agent \<Rightarrow> bool" for C where
  follows_here: "follows C s [] s"
| follows_step: "follows C s rs t \<Longrightarrow> rr_from_pubkey r = pa_key t \<Longrightarrow>
    rotation_verify C r (pa_successor t) (pa_seq t) now = Ok v \<Longrightarrow>
    follows C s (rs @ [r]) \<lparr>pa_key = vr_incoming v, pa_successor = vr_next_successor v, pa_seq = rr_seq r\<rparr>"

inductive_cases follows_snocE: "follows C s (rs @ [r]) t"
inductive_cases follows_NilE: "follows C s [] t"

lemma follows_snoc:
  "follows C s (rs @ [r]) t \<Longrightarrow> \<exists>u now v. follows C s rs u \<and> rr_from_pubkey r = pa_key u
     \<and> rotation_verify C r (pa_successor u) (pa_seq u) now = Ok v
     \<and> t = \<lparr>pa_key = rr_to_pubkey r, pa_successor = rr_next_successor_hash r, pa_seq = rr_seq r\<rparr>"
  by (erule follows_snocE) (auto simp: rotation_verify_Ok)

lemma follows_Nil [simp]: "follows C s [] t \<longleftrightarrow> t = s"
  by (auto elim: follows_NilE intro: follows_here)

lemma follows_seq: "follows C s rs t \<Longrightarrow> unat (pa_seq t) = unat (pa_seq s) + length rs"
  by (induction rule: follows.induct) (auto simp: rotation_verify_Ok checked_add_Some)

text \<open>Both signatures of a rotation verify, each over the record's own body and under its own domain.\<close>

definition signed_by_both :: "crypto \<Rightarrow> rotation_record \<Rightarrow> bool" where
  "signed_by_both C r \<longleftrightarrow>
     ed_verify_strict C (rr_from_pubkey r)
       (rotation_signing_payload SIG_DOMAIN_ROTATION_OUTGOING (rotation_record_body r)) (rr_outgoing_signature r)
     \<and> ed_verify_strict C (rr_to_pubkey r)
       (rotation_signing_payload SIG_DOMAIN_ROTATION_INCOMING (rotation_record_body r)) (rr_incoming_signature r)"

text \<open>Two rotations of one key to one key at one sequence number that commit to different successors, each
  signed by both keys.\<close>

definition convicts :: "crypto \<Rightarrow> rotation_record \<Rightarrow> rotation_record \<Rightarrow> bool" where
  "convicts C r r' \<longleftrightarrow> rr_from_pubkey r' = rr_from_pubkey r \<and> rr_to_pubkey r' = rr_to_pubkey r \<and> rr_seq r' = rr_seq r
     \<and> rr_next_successor_hash r' \<noteq> rr_next_successor_hash r \<and> signed_by_both C r \<and> signed_by_both C r'"

lemma follows_signed:
  "follows C s rs t \<Longrightarrow> list_all (signed_by_both C) rs \<and> pa_key s # map rr_to_pubkey rs = map rr_from_pubkey rs @ [pa_key t]"
proof (induction rule: follows.induct)
  case (follows_step s rs t r now v)
  then show ?case by (auto simp: rotation_verify_Ok signed_by_both_def append_eq_Cons_conv Cons_eq_append_conv)
qed simp

lemma chains_agree_or_convict:
  assumes "follows C s rs t" "follows C s rs' t'" "length rs = length rs'"
    and "inj_on (sha256 C) (rr_to_pubkey ` (set rs \<union> set rs'))"
  shows "t = t' \<and> map rr_to_pubkey rs = map rr_to_pubkey rs' \<or> (\<exists>r \<in> set rs. \<exists>r' \<in> set rs'. convicts C r r')"
  using assms
proof (induction rs arbitrary: rs' t t' rule: rev_induct)
  case (snoc r rs)
  from snoc.prems(3) obtain rs2 r2 where rs': "rs' = rs2 @ [r2]" by (cases rs' rule: rev_cases) auto
  obtain u now v where u: "follows C s rs u" "rotation_verify C r (pa_successor u) (pa_seq u) now = Ok v"
    "t = \<lparr>pa_key = rr_to_pubkey r, pa_successor = rr_next_successor_hash r, pa_seq = rr_seq r\<rparr>" "rr_from_pubkey r = pa_key u"
    using follows_snoc [OF snoc.prems(1)] by blast
  obtain u2 now2 v2 where u2: "follows C s rs2 u2" "rotation_verify C r2 (pa_successor u2) (pa_seq u2) now2 = Ok v2"
    "t' = \<lparr>pa_key = rr_to_pubkey r2, pa_successor = rr_next_successor_hash r2, pa_seq = rr_seq r2\<rparr>" "rr_from_pubkey r2 = pa_key u2"
    using follows_snoc [OF snoc.prems(2) [unfolded rs']] by blast
  have "inj_on (sha256 C) (rr_to_pubkey ` (set rs \<union> set rs2))"
    using snoc.prems(4) by (rule inj_on_subset) (auto simp: rs')
  then consider (agree) "u = u2" "map rr_to_pubkey rs = map rr_to_pubkey rs2"
    | (fork) "\<exists>r \<in> set rs. \<exists>r' \<in> set rs2. convicts C r r'"
    using snoc.IH [OF u(1) u2(1)] snoc.prems(3) by (auto simp: rs')
  then show ?case
  proof cases
    case agree
    have "sha256 C (rr_to_pubkey r) = sha256 C (rr_to_pubkey r2)" and sq: "rr_seq r = rr_seq r2"
      and sg: "signed_by_both C r" "signed_by_both C r2"
      using u(2) u2(2) by (auto simp: rotation_verify_Ok signed_by_both_def agree(1))
    from this(1) have key: "rr_to_pubkey r = rr_to_pubkey r2"
      by (rule inj_onD [OF snoc.prems(4)]) (auto simp: rs')
    show ?thesis
    proof (cases "rr_next_successor_hash r2 = rr_next_successor_hash r")
      case False
      then have "convicts C r r2" using key sq sg u(4) u2(4) agree(1) by (simp add: convicts_def)
      then show ?thesis by (auto simp: rs')
    qed (use key sq agree(2) in \<open>simp add: rs' u(3) u2(3)\<close>)
  qed (auto simp: rs')
qed auto

text \<open>C12. A fork of an agent's rotations convicts the keys that signed it. Let two correspondents start from the
  same pinned agent and each follow a chain of verified rotations, the two chains of one length, and let SHA-256
  have no collision among the keys the chains move to. Then they end with the same key, commitment and sequence
  number, having moved through the same keys; or the two chains hold two rotations of the same key to the same key
  at the same sequence number, with different next commitments, each signed by the outgoing and by the incoming key
  over its own body, and the messages those signatures are over differ. Either way every rotation of a chain was
  signed by the key in force before it and by the key it moves to, and the sequence number counts the rotations.
  The lengths are those of the source's 32-byte arrays.\<close>

theorem rotation_chains_agree:
  assumes "follows C s rs t" "follows C s rs' t'" "length rs = length rs'"
    and "inj_on (sha256 C) (rr_to_pubkey ` (set rs \<union> set rs'))"
    and "\<forall>r \<in> set rs \<union> set rs'. length (rr_from_pubkey r) = 32 \<and> length (rr_to_pubkey r) = 32 \<and> length (rr_next_successor_hash r) = 32"
  shows "(t = t' \<and> map rr_to_pubkey rs = map rr_to_pubkey rs'
      \<or> (\<exists>r \<in> set rs. \<exists>r' \<in> set rs'. rr_from_pubkey r' = rr_from_pubkey r \<and> rr_to_pubkey r' = rr_to_pubkey r \<and> rr_seq r' = rr_seq r
          \<and> rr_next_successor_hash r' \<noteq> rr_next_successor_hash r \<and> signed_by_both C r \<and> signed_by_both C r'
          \<and> rotation_signing_payload SIG_DOMAIN_ROTATION_OUTGOING (rotation_record_body r') \<noteq>
            rotation_signing_payload SIG_DOMAIN_ROTATION_OUTGOING (rotation_record_body r)
          \<and> rotation_signing_payload SIG_DOMAIN_ROTATION_INCOMING (rotation_record_body r') \<noteq>
            rotation_signing_payload SIG_DOMAIN_ROTATION_INCOMING (rotation_record_body r)))
    \<and> list_all (signed_by_both C) rs \<and> pa_key s # map rr_to_pubkey rs = map rr_from_pubkey rs @ [pa_key t]
    \<and> unat (pa_seq t) = unat (pa_seq s) + length rs"
proof -
  have "rotation_record_body r' \<noteq> rotation_record_body r" if "r \<in> set rs" "r' \<in> set rs'" "convicts C r r'" for r r'
    using that assms(5) by (simp add: convicts_def rotation_record_body_def rotation_body_inject)
  then show ?thesis
    using chains_agree_or_convict [OF assms(1-4)] follows_signed [OF assms(1)] follows_seq [OF assms(1)]
    by (fastforce simp: convicts_def rotation_signing_payload_def)
qed

text \<open>A verified rotation moves to the precommitted key only: it is signed by the outgoing and by the
  incoming key over bodies that fix every field, under two different domains, advances the sequence number
  by exactly one, and leaves the retired key usable for exactly 90 days from activation.\<close>

theorem rotation_verified:
  assumes "rotation_verify C r pinned last_seq observed_at = Ok v"
  shows "vr_incoming v = rr_to_pubkey r \<and> sha256 C (vr_incoming v) = pinned
    \<and> unat (rr_seq r) = unat last_seq + 1
    \<and> ed_verify_strict C (rr_from_pubkey r)
         (rotation_signing_payload SIG_DOMAIN_ROTATION_OUTGOING (rotation_record_body r)) (rr_outgoing_signature r)
    \<and> ed_verify_strict C (rr_to_pubkey r)
         (rotation_signing_payload SIG_DOMAIN_ROTATION_INCOMING (rotation_record_body r)) (rr_incoming_signature r)
    \<and> unat (rr_activated_at r) \<le> unat observed_at + 300
    \<and> (retired_key_is_active r t \<longleftrightarrow>
        unat (rr_activated_at r) \<le> unat t \<and> unat t < unat (rr_activated_at r) + 90 * 24 * 60 * 60)"
proof -
  note v = assms [unfolded rotation_verify_Ok]
  have "unat (rr_grace_until r) = unat (rr_activated_at r) + 7776000"
    using v by (simp add: checked_sub_Some ROTATION_GRACE_SECS_def)
  moreover have "unat (rr_activated_at r) \<le> unat observed_at + 300"
    using v by (auto simp: word_less_nat_alt unat_saturating_add ROTATION_CLOCK_SKEW_SECS_def min_less_iff_disj)
  ultimately show ?thesis
    using v by (auto simp: checked_add_Some retired_key_is_active_def word_le_nat_alt word_less_nat_alt)
qed

lemma rotation_new_verifies:
  assumes "signature_contract C" "length (seed outgoing) = 32" "length (seed incoming) = 32"
    and "rotation_new C outgoing incoming next_successor seq activated_at = Ok r"
    and "unat seq = unat last_seq + 1" "unat activated_at \<le> unat observed_at + 300"
  shows "rotation_verify C r (commitment_for_key C (verifying_key C incoming)) last_seq observed_at =
    Ok \<lparr>vr_incoming = verifying_key C incoming, vr_next_successor = next_successor,
        vr_activated_at = activated_at, vr_grace_until = rr_grace_until r\<rparr>"
proof -
  have "checked_add last_seq 1 = Some seq" using assms(5) by (simp add: checked_add_Some)
  moreover have "checked_add activated_at ROTATION_GRACE_SECS = Some g \<Longrightarrow>
      checked_sub g activated_at = Some ROTATION_GRACE_SECS" for g
    by (simp add: checked_add_Some checked_sub_Some)
  moreover have "\<not> saturating_add observed_at ROTATION_CLOCK_SKEW_SECS < activated_at"
    using assms(6) unat_lt2p [of activated_at]
    by (simp add: word_less_nat_alt unat_saturating_add ROTATION_CLOCK_SKEW_SECS_def)
  moreover have "ed_verify_strict C (verifying_key C i) m (sign C i m)" "is_ok (verifying_key_from_bytes C (verifying_key C i))"
    if "length (seed i) = 32" for i m
    using signature_contractD [OF assms(1) that] by (simp_all add: verify_Ok)
  ultimately show ?thesis
    unfolding rotation_verify_Ok using assms(2-4)
    by (auto simp: rotation_new_def rotation_record_body_def Let_def result_simps commitment_for_key_def
      split: if_splits)
qed

text \<open>The rotation an agent builds towards the key it committed to is accepted by every correspondent
  who pinned that commitment, once their clock is within five minutes of the activation time.\<close>

theorem rotation_accepted:
  assumes "signature_contract C" "length (seed outgoing) = 32" "length (seed incoming) = 32"
    and "rotation_new C outgoing incoming next_successor seq activated_at = Ok r"
    and "unat seq = unat last_seq + 1" "unat activated_at \<le> unat observed_at + 300"
  shows "rotation_verify C r (commitment_for_key C (verifying_key C incoming)) last_seq observed_at =
      Ok \<lparr>vr_incoming = verifying_key C incoming, vr_next_successor = next_successor,
          vr_activated_at = activated_at, vr_grace_until = rr_grace_until r\<rparr>
    \<and> verify_source_address C r (address_from_pubkey C (verifying_key C outgoing)) = Ok ()
    \<and> target_address C r = Ok (address_from_pubkey C (verifying_key C incoming))"
proof -
  have "rr_from_pubkey r = verifying_key C outgoing" "rr_to_pubkey r = verifying_key C incoming"
    using assms(4) by (auto simp: rotation_new_def result_simps Let_def split: if_splits)
  then show ?thesis
    using rotation_new_verifies [OF assms] signature_contractD [OF assms(1,2)] signature_contractD [OF assms(1,3)]
    by (simp add: verify_source_address_def target_address_def address_matches_def)
qed

definition example_rotation :: "error + rotation_record" where
  "example_rotation = rotation_new toy (from_seed (replicate 32 1)) (from_seed (replicate 32 2)) (zeros 32) 4 1000"

definition example_pin :: pinned_agent where
  "example_pin = \<lparr>pa_key = replicate 32 1, pa_successor = commitment_for_key toy (replicate 32 2), pa_seq = 3\<rparr>"

lemma example_rotation_verifies:
  "\<exists>r. example_rotation = Ok r \<and> rr_from_pubkey r = replicate 32 1
    \<and> is_ok (rotation_verify toy r (pa_successor example_pin) 3 900)"
proof -
  have "checked_add (1000 :: u64) ROTATION_GRACE_SECS = Some 7777000"
    by (simp add: checked_add_Some ROTATION_GRACE_SECS_def)
  then obtain r where r: "example_rotation = Ok r" "rr_from_pubkey r = verifying_key toy (from_seed (replicate 32 1))"
    by (simp add: example_rotation_def rotation_new_def Let_def)
  from rotation_new_verifies [OF _ _ _ r(1) [unfolded example_rotation_def], of 3 900] r show ?thesis
    by (auto simp: example_pin_def)
qed

theorem rotation_accepted_witness:
  "\<exists>r. example_rotation = Ok r
    \<and> verify_source_address toy r (address_from_pubkey toy (verifying_key toy (from_seed (replicate 32 1)))) = Ok ()"
proof -
  obtain r where r: "example_rotation = Ok r" using example_rotation_verifies by blast
  have "verify_source_address toy r (address_from_pubkey toy (verifying_key toy (from_seed (replicate 32 1)))) = Ok ()"
    using rotation_accepted [OF _ _ _ r [unfolded example_rotation_def], of 3 900] by simp
  with r show ?thesis by blast
qed

theorem rotation_verified_witness:
  "\<exists>r. example_rotation = Ok r \<and> unat (rr_seq r) = 3 + 1"
proof -
  obtain r v where r: "example_rotation = Ok r" "rotation_verify toy r (pa_successor example_pin) 3 900 = Ok v"
    using example_rotation_verifies by (auto simp: is_ok_iff)
  from rotation_verified [OF r(2)] have "unat (rr_seq r) = 3 + 1" by simp
  with r show ?thesis by blast
qed

lemma example_rotation_to:
  assumes "length next = 32"
  shows "\<exists>r. follows toy example_pin [r] \<lparr>pa_key = replicate 32 2, pa_successor = next, pa_seq = 4\<rparr>
    \<and> rr_from_pubkey r = replicate 32 1 \<and> rr_to_pubkey r = replicate 32 2 \<and> rr_next_successor_hash r = next"
proof -
  have "checked_add (1000 :: u64) ROTATION_GRACE_SECS = Some 7777000"
    by (simp add: checked_add_Some ROTATION_GRACE_SECS_def)
  then obtain r where r: "rotation_new toy (from_seed (replicate 32 1)) (from_seed (replicate 32 2)) next 4 1000 = Ok r"
    "rr_from_pubkey r = replicate 32 1" "rr_to_pubkey r = replicate 32 2" "rr_next_successor_hash r = next" "rr_seq r = 4"
    by (simp add: rotation_new_def Let_def)
  have v: "rotation_verify toy r (pa_successor example_pin) (pa_seq example_pin) 900 =
      Ok \<lparr>vr_incoming = replicate 32 2, vr_next_successor = next, vr_activated_at = 1000, vr_grace_until = rr_grace_until r\<rparr>"
    using rotation_new_verifies [OF _ _ _ r(1), of 3 900] by (simp add: example_pin_def)
  have "follows toy example_pin ([] @ [r]) \<lparr>pa_key = replicate 32 2, pa_successor = next, pa_seq = 4\<rparr>"
    using follows_step [OF follows_here _ v] r(2,5) by (simp add: example_pin_def)
  with r show ?thesis by auto
qed

text \<open>Two rotations of one key that differ in the next commitment: each correspondent follows one of them, they end
  with different pins, and the two records convict the keys.\<close>

theorem rotation_chains_agree_witness:
  "\<exists>r r' t t'. follows toy example_pin [r] t \<and> follows toy example_pin [r'] t' \<and> t \<noteq> t'
    \<and> rr_to_pubkey r' = rr_to_pubkey r \<and> rr_seq r' = rr_seq r \<and> signed_by_both toy r \<and> signed_by_both toy r'
    \<and> rotation_signing_payload SIG_DOMAIN_ROTATION_INCOMING (rotation_record_body r') \<noteq>
      rotation_signing_payload SIG_DOMAIN_ROTATION_INCOMING (rotation_record_body r)"
proof -
  define t where "t k = \<lparr>pa_key = replicate 32 2, pa_successor = replicate 32 k, pa_seq = 4\<rparr>" for k :: "8 word"
  obtain r where r: "follows toy example_pin [r] (t 7)" "rr_from_pubkey r = replicate 32 1" "rr_to_pubkey r = replicate 32 2"
    "rr_next_successor_hash r = replicate 32 7" using example_rotation_to [of "replicate 32 7"] by (auto simp: t_def)
  obtain r' where r': "follows toy example_pin [r'] (t 9)" "rr_from_pubkey r' = replicate 32 1" "rr_to_pubkey r' = replicate 32 2"
    "rr_next_successor_hash r' = replicate 32 9" using example_rotation_to [of "replicate 32 9"] by (auto simp: t_def)
  have "t 7 \<noteq> t 9" by (simp add: t_def)
  then show ?thesis
    using rotation_chains_agree [OF r(1) r'(1)] r r' by (intro exI [of _ r] exI [of _ r'] exI [of _ "t 7"] exI [of _ "t 9"]) simp
qed

end
