(* ===== verification/Json.thy ===== *)
theory Json
  imports Hex
begin

text \<open>
  JSON documents as the \<^verbatim>\<open>serde\<close> implementations of the program see them. The text layer
  (\<^verbatim>\<open>serde_json::to_vec\<close> and \<^verbatim>\<open>from_slice\<close>) is a third-party crate and therefore a parameter with a
  documented contract: writing a document and reading it back gives the document, and the compact
  writer spends six bytes on an escaped string byte and one on any other. What a derived \<^verbatim>\<open>Deserialize\<close> does with a document
  (fields by name or by position, duplicates and missing fields refused) is written out.
\<close>

datatype json =
    JNull
  | JBool bool
  | JNum int
  | JFloat string
  | JStr string
  | JArr "json list"
  | JObj "(string \<times> json) list"

record json_codec =
  to_vec :: "json \<Rightarrow> bytes"
  from_slice :: "bytes \<Rightarrow> json option"

text \<open>The documents the program writes: \<^verbatim>\<open>u64\<close> numbers and text and lists below 4 GiB.\<close>

fun json_wf :: "json \<Rightarrow> bool" where
  "json_wf JNull = True"
| "json_wf (JBool b) = True"
| "json_wf (JNum n) = (0 \<le> n \<and> n < 2 ^ 64)"
| "json_wf (JFloat s) = fits_u32 s"
| "json_wf (JStr s) = fits_u32 s"
| "json_wf (JArr js) = (fits_u32 js \<and> list_all json_wf js)"
| "json_wf (JObj kvs) = (fits_u32 kvs \<and> list_all (\<lambda>(k, v). fits_u32 k \<and> json_wf v) kvs)"

text \<open>
  What the compact writer spends: six bytes for an escaped byte of a string (a control character, a
  quote or a backslash), one for any other, the digits of a number, and a constant per value.
\<close>

definition text_size :: "string \<Rightarrow> nat" where
  "text_size s = sum_list (map (\<lambda>c. if code c < 32 \<or> code c = 34 \<or> code c = 92 then 6 else 1) s)"

fun json_size :: "json \<Rightarrow> nat" where
  "json_size JNull = 8"
| "json_size (JBool b) = 8"
| "json_size (JNum n) = (if n < 256 then 3 else 20)"
| "json_size (JFloat s) = 8 + text_size s"
| "json_size (JStr s) = 8 + text_size s"
| "json_size (JArr js) = 8 + sum_list (map (\<lambda>j. 1 + json_size j) js)"
| "json_size (JObj kvs) = 8 + sum_list (map (\<lambda>(k, v). 8 + text_size k + json_size v) kvs)"

lemma text_size_Cons [simp]:
  "text_size (c # s) = (if code c < 32 \<or> code c = 34 \<or> code c = 92 then 6 else 1) + text_size s" "text_size [] = 0"
  by (simp_all add: text_size_def)

lemma text_size_bounds: "length s \<le> text_size s" "text_size s \<le> 6 * length s"
  by (induction s) auto

definition json_contract :: "json_codec \<Rightarrow> bool" where
  "json_contract J \<longleftrightarrow> (\<forall>j. json_wf j \<longrightarrow>
     from_slice J (to_vec J j) = Some j \<and> length (to_vec J j) \<le> json_size j)"

section \<open>Reading fields\<close>

definition json_u8 :: "json \<Rightarrow> u8 option" where
  "json_u8 j = (case j of JNum n \<Rightarrow> if 0 \<le> n \<and> n < 2 ^ 8 then Some (word_of_int n) else None | _ \<Rightarrow> None)"

definition json_u32 :: "json \<Rightarrow> u32 option" where
  "json_u32 j = (case j of JNum n \<Rightarrow> if 0 \<le> n \<and> n < 2 ^ 32 then Some (word_of_int n) else None | _ \<Rightarrow> None)"

definition json_u64 :: "json \<Rightarrow> u64 option" where
  "json_u64 j = (case j of JNum n \<Rightarrow> if 0 \<le> n \<and> n < 2 ^ 64 then Some (word_of_int n) else None | _ \<Rightarrow> None)"

definition json_string :: "json \<Rightarrow> string option" where
  "json_string j = (case j of JStr s \<Rightarrow> Some s | _ \<Rightarrow> None)"

abbreviation JWord :: "'a::len word \<Rightarrow> json" where
  "JWord w \<equiv> JNum (uint w)"

definition JBytes :: "bytes \<Rightarrow> json" where
  "JBytes bs = JArr (map JWord bs)"

fun json_u8s :: "json list \<Rightarrow> bytes option" where
  "json_u8s [] = Some []"
| "json_u8s (j # js) = Option.bind (json_u8 j) (\<lambda>b. map_option (Cons b) (json_u8s js))"

text \<open>\<^verbatim>\<open>Vec<u8>\<close>, and \<^verbatim>\<open>[u8; N]\<close> with exactly \<open>n\<close> elements.\<close>

definition json_vec :: "json \<Rightarrow> bytes option" where
  "json_vec j = (case j of JArr js \<Rightarrow> json_u8s js | _ \<Rightarrow> None)"

definition json_array :: "nat \<Rightarrow> json \<Rightarrow> bytes option" where
  "json_array n j = (case j of JArr js \<Rightarrow> if length js = n then json_u8s js else None | _ \<Rightarrow> None)"

text \<open>The fields of a struct, from an object or positionally from an array.\<close>

definition struct_fields :: "bool \<Rightarrow> string list \<Rightarrow> json \<Rightarrow> (string \<Rightarrow> json option) option" where
  "struct_fields deny names j =
     (case j of
        JObj kvs \<Rightarrow>
          if distinct (filter (\<lambda>k. k \<in> set names) (map fst kvs)) \<and> (deny \<longrightarrow> set (map fst kvs) \<subseteq> set names)
          then Some (map_of (filter (\<lambda>kv. fst kv \<in> set names) kvs)) else None
      | JArr js \<Rightarrow> if length js \<le> length names then Some (map_of (zip names js)) else None
      | _ \<Rightarrow> None)"

definition field :: "(json \<Rightarrow> 'a option) \<Rightarrow> string \<Rightarrow> (string \<Rightarrow> json option) \<Rightarrow> 'a option" where
  "field read name fs = Option.bind (fs name) read"

definition field_or :: "(json \<Rightarrow> 'a option) \<Rightarrow> 'a \<Rightarrow> string \<Rightarrow> (string \<Rightarrow> json option) \<Rightarrow> 'a option" where
  "field_or read dflt name fs = (case fs name of None \<Rightarrow> Some dflt | Some j \<Rightarrow> read j)"

definition json_option :: "(json \<Rightarrow> 'a option) \<Rightarrow> json \<Rightarrow> 'a option option" where
  "json_option read j = (case j of JNull \<Rightarrow> Some None | _ \<Rightarrow> map_option Some (read j))"

section \<open>Reading back what was written\<close>

lemma word_of_uint [simp]: "word_of_int (uint w) = (w :: 'a::len word)"
  by simp

lemma json_word [simp]:
  "json_u8 (JWord (a :: u8)) = Some a" "json_u32 (JWord (b :: u32)) = Some b" "json_u64 (JWord (c :: u64)) = Some c"
  using unsigned_less [of a] unsigned_less [of b] unsigned_less [of c]
  by (simp_all add: json_u8_def json_u32_def json_u64_def)

lemma json_u8s_words [simp]: "json_u8s (map JWord bs) = Some bs"
  by (induction bs) simp_all

lemma json_bytes_read [simp]:
  "json_vec (JBytes bs) = Some bs" "json_array n (JBytes bs) = (if length bs = n then Some bs else None)"
  by (simp_all add: json_vec_def json_array_def JBytes_def)

lemma json_string_JStr [simp]: "json_string (JStr s) = Some s"
  by (simp add: json_string_def)

lemma json_u8s_length: "json_u8s js = Some bs \<Longrightarrow> length bs = length js"
  by (induction js arbitrary: bs) (auto simp: bind_eq_Some_conv)

lemma json_array_length: "json_array n j = Some bs \<Longrightarrow> length bs = n"
  by (auto simp: json_array_def split: json.splits if_splits dest: json_u8s_length)

lemma json_wf_word: "json_wf (JWord (w :: 'a::len word)) \<longleftrightarrow> uint w < 2 ^ 64"
  by simp

lemma json_wf_words [simp]: "json_wf (JWord (a :: u8))" "json_wf (JWord (b :: u32))" "json_wf (JWord (c :: u64))"
  using unsigned_less [of a, where ?'a = int] unsigned_less [of b, where ?'a = int] unsigned_less [of c, where ?'a = int]
  by simp_all

lemma json_wf_bytes [simp]: "json_wf (JBytes bs) \<longleftrightarrow> fits_u32 bs"
  by (simp add: JBytes_def fits_u32_def list_all_iff del: json_wf.simps(3))

lemma HEX_plain: "i < 16 \<Longrightarrow> \<not> (code (HEX ! i) < 32 \<or> code (HEX ! i) = 34 \<or> code (HEX ! i) = 92)"
proof -
  assume "i < 16"
  moreover have "\<forall>i < 16. \<not> (code (HEX ! i) < 32 \<or> code (HEX ! i) = 34 \<or> code (HEX ! i) = 92)" by code_simp
  ultimately show ?thesis by blast
qed

lemma text_size_to_hex [simp]: "text_size (to_hex bs) = 2 * length bs"
  by (induction bs) (simp_all add: to_hex_def hex_byte_def HEX_plain nibble_bounds)

lemma json_size_bytes [simp]: "json_size (JBytes bs) = 8 + 4 * length bs"
proof (induction bs)
  case (Cons b bs)
  have "uint b < 256" using unsigned_less [of b, where ?'a = int] by simp
  with Cons show ?case by (simp add: JBytes_def)
qed (simp add: JBytes_def)

section \<open>A concrete text layer\<close>

text \<open>A tagged binary layout that meets the contract, used where a theorem is evaluated.\<close>

fun toy_json_enc :: "json \<Rightarrow> bytes" where
  "toy_json_enc JNull = [0]"
| "toy_json_enc (JBool b) = [1, of_bool b]"
| "toy_json_enc (JNum n) = (if n < 256 then [7, word_of_int n] else 2 # u64_le (word_of_int n))"
| "toy_json_enc (JFloat s) = 3 # lp32_le (as_bytes s)"
| "toy_json_enc (JStr s) = 4 # lp32_le (as_bytes s)"
| "toy_json_enc (JArr js) = 5 # u32_le (word_of_nat (length js)) @ concat (map toy_json_enc js)"
| "toy_json_enc (JObj kvs) = 6 # u32_le (word_of_nat (length kvs))
     @ concat (map (\<lambda>(k, v). lp32_le (as_bytes k) @ toy_json_enc v) kvs)"

definition read_u32 :: "bytes \<Rightarrow> (nat \<times> bytes) option" where
  "read_u32 b = (if length b < 4 then None else Some (unat (u32_from_le (take 4 b)), drop 4 b))"

definition read_text :: "bytes \<Rightarrow> (string \<times> bytes) option" where
  "read_text b = Option.bind (read_u32 b) (\<lambda>(n, b). Some (map (\<lambda>w. char_of (unat w)) (take n b), drop n b))"

primrec read_items :: "nat \<Rightarrow> (bytes \<Rightarrow> ('a \<times> bytes) option) \<Rightarrow> bytes \<Rightarrow> ('a list \<times> bytes) option" where
  "read_items 0 rd b = Some ([], b)"
| "read_items (Suc n) rd b = Option.bind (rd b) (\<lambda>(x, b).
     map_option (\<lambda>(xs, b). (x # xs, b)) (read_items n rd b))"

primrec toy_json_dec :: "nat \<Rightarrow> bytes \<Rightarrow> (json \<times> bytes) option" where
  "toy_json_dec 0 b = None"
| "toy_json_dec (Suc fuel) b =
     (case b of
        [] \<Rightarrow> None
      | t # b \<Rightarrow>
          if t = 0 then Some (JNull, b)
          else if t = 1 then (case b of [] \<Rightarrow> None | c # b \<Rightarrow> Some (JBool (c = 1), b))
          else if t = 7 then (case b of [] \<Rightarrow> None | c # b \<Rightarrow> Some (JNum (uint c), b))
          else if t = 2 then Some (JNum (uint (u64_from_le (take 8 b))), drop 8 b)
          else if t = 3 then map_option (\<lambda>(s, b). (JFloat s, b)) (read_text b)
          else if t = 4 then map_option (\<lambda>(s, b). (JStr s, b)) (read_text b)
          else if t = 5 then Option.bind (read_u32 b) (\<lambda>(n, b).
            map_option (\<lambda>(js, b). (JArr js, b)) (read_items n (toy_json_dec fuel) b))
          else if t = 6 then Option.bind (read_u32 b) (\<lambda>(n, b).
            map_option (\<lambda>(kvs, b). (JObj kvs, b))
              (read_items n (\<lambda>b. Option.bind (read_text b) (\<lambda>(k, b).
                 map_option (\<lambda>(v, b). ((k, v), b)) (toy_json_dec fuel b))) b))
          else None)"

definition toy_json :: json_codec where
  "toy_json = \<lparr>to_vec = toy_json_enc,
     from_slice = (\<lambda>b. case toy_json_dec (length b) b of Some (j, []) \<Rightarrow> Some j | _ \<Rightarrow> None)\<rparr>"

lemma read_u32_append [simp]: "n < 2 ^ 32 \<Longrightarrow> read_u32 (u32_le (word_of_nat n) @ b) = Some (n, b)"
  by (simp add: read_u32_def unat_of_nat take_bit_nat_eq_self)

lemma read_text_append [simp]: "fits_u32 s \<Longrightarrow> read_text (lp32_le (as_bytes s) @ b) = Some (s, b)"
  by (simp add: read_text_def lp32_le_def fits_u32_def) (simp add: as_bytes_def o_def unat_of_char_u8)

lemma read_items_append:
  assumes "\<And>x b. x \<in> set xs \<Longrightarrow> rd (enc x @ b) = Some (x, b)"
  shows "read_items (length xs) rd (concat (map enc xs) @ b) = Some (xs, b)"
  using assms by (induction xs) simp_all

fun json_depth :: "json \<Rightarrow> nat" where
  "json_depth (JArr js) = Suc (foldr max (map json_depth js) 0)"
| "json_depth (JObj kvs) = Suc (foldr max (map (\<lambda>(k, v). json_depth v) kvs) 0)"
| "json_depth j = 1"

lemma foldr_max_ge: "x \<in> set xs \<Longrightarrow> x \<le> foldr max xs (0 :: nat)"
  by (induction xs) auto

lemma foldr_max_le: "\<forall>x \<in> set xs. x \<le> n \<Longrightarrow> foldr max xs (0 :: nat) \<le> n"
  by (induction xs) auto

lemma toy_json_round_trip:
  "json_wf j \<Longrightarrow> json_depth j \<le> fuel \<Longrightarrow> toy_json_dec fuel (toy_json_enc j @ b) = Some (j, b)"
proof (induction j arbitrary: fuel b)
  case (JArr js)
  from JArr.prems(2) obtain f where f: "fuel = Suc f" by (cases fuel) simp_all
  have "read_items (length js) (toy_json_dec f) (concat (map toy_json_enc js) @ b) = Some (js, b)"
  proof (rule read_items_append)
    fix x b assume x: "x \<in> set js"
    then have "json_depth x \<in> set (map json_depth js)" by simp
    from foldr_max_ge [OF this] have "json_depth x \<le> f" using JArr.prems(2) by (simp add: f)
    moreover have "json_wf x" using JArr.prems(1) x by (simp add: list_all_iff)
    ultimately show "toy_json_dec f (toy_json_enc x @ b) = Some (x, b)" by (intro JArr.IH [OF x])
  qed
  with JArr.prems show ?case by (simp add: f fits_u32_def)
next
  case (JObj kvs)
  from JObj.prems(2) obtain f where f: "fuel = Suc f" by (cases fuel) simp_all
  have "read_items (length kvs) (\<lambda>b. Option.bind (read_text b) (\<lambda>(k, b).
      map_option (\<lambda>(v, b). ((k, v), b)) (toy_json_dec f b)))
      (concat (map (\<lambda>(k, v). lp32_le (as_bytes k) @ toy_json_enc v) kvs) @ b) = Some (kvs, b)"
  proof (rule read_items_append)
    fix x b assume x: "x \<in> set kvs"
    obtain k v where kv: "x = (k, v)" by (cases x)
    then have kv_in: "(k, v) \<in> set kvs" using x by simp
    then have wf: "fits_u32 k" "json_wf v" using JObj.prems(1) by (auto simp: list_all_iff)
    have "json_depth v \<in> set (map (\<lambda>(k, v). json_depth v) kvs)" using image_eqI [OF _ kv_in, of "json_depth v" "\<lambda>(k, v). json_depth v"] by simp
    from foldr_max_ge [OF this] have "json_depth v \<le> f" using JObj.prems(2) by (simp add: f)
    then have "toy_json_dec f (toy_json_enc v @ b) = Some (v, b)" for b
      by (intro JObj.IH [OF x]) (simp_all add: kv wf)
    with wf show "Option.bind (read_text ((case x of (k, v) \<Rightarrow> lp32_le (as_bytes k) @ toy_json_enc v) @ b))
        (\<lambda>(k, b). map_option (\<lambda>(v, b). ((k, v), b)) (toy_json_dec f b)) = Some (x, b)"
      by (simp add: kv)
  qed
  with JObj.prems show ?case by (simp add: f fits_u32_def)
next
  case JNull
  then show ?case by (cases fuel; simp)
next
  case (JBool x)
  then show ?case by (cases fuel; simp)
next
  case (JNum x)
  then show ?case by (cases fuel; simp add: uint_word_of_int_eq take_bit_int_eq_self)
next
  case (JFloat x)
  then show ?case by (cases fuel; simp)
next
  case (JStr x)
  then show ?case by (cases fuel; simp)
qed

lemma length_concat_map_le:
  "(\<And>x. x \<in> set xs \<Longrightarrow> length (f x) \<le> g x) \<Longrightarrow> length (concat (map f xs)) \<le> sum_list (map g xs)"
  by (induction xs) (simp_all add: add_mono)

lemma foldr_max_concat_le:
  "(\<And>x. x \<in> set xs \<Longrightarrow> d x \<le> length (f x)) \<Longrightarrow> foldr max (map d xs) 0 \<le> length (concat (map f xs))"
  by (induction xs) (auto intro: trans_le_add1 trans_le_add2)

lemma toy_json_lengths: "json_depth j \<le> length (toy_json_enc j) \<and> length (toy_json_enc j) \<le> json_size j"
proof (induction j)
  case (JArr js)
  have "length (concat (map toy_json_enc js)) \<le> sum_list (map (\<lambda>j. 1 + json_size j) js)"
    by (rule length_concat_map_le) (simp add: JArr le_SucI)
  moreover have "foldr max (map json_depth js) 0 \<le> length (concat (map toy_json_enc js))"
    by (rule foldr_max_concat_le) (simp add: JArr)
  ultimately show ?case by simp
next
  case (JObj kvs)
  have v: "json_depth v \<le> length (toy_json_enc v)" "length (toy_json_enc v) \<le> json_size v" if "(k, v) \<in> set kvs" for k v
    using JObj [OF that, of v] by simp_all
  have "length (concat (map (\<lambda>(k, v). lp32_le (as_bytes k) @ toy_json_enc v) kvs))
      \<le> sum_list (map (\<lambda>(k, v). 8 + text_size k + json_size v) kvs)"
  proof (rule length_concat_map_le)
    fix x assume x: "x \<in> set kvs"
    obtain k w where kw: "x = (k, w)" by fastforce
    show "length (case x of (k, v) \<Rightarrow> lp32_le (as_bytes k) @ toy_json_enc v)
        \<le> (case x of (k, v) \<Rightarrow> 8 + text_size k + json_size v)"
      using v(2) [of k w] text_size_bounds(1) [of k] x by (simp add: kw lp32_le_def)
  qed
  moreover have "foldr max (map (\<lambda>(k, v). json_depth v) kvs) 0
      \<le> length (concat (map (\<lambda>(k, v). lp32_le (as_bytes k) @ toy_json_enc v) kvs))"
    by (rule foldr_max_concat_le) (auto simp: lp32_le_def dest: v)
  ultimately show ?case by simp
qed (simp_all add: lp32_le_def text_size_bounds(1) trans_le_add2)

lemma toy_json_contract [simp]: "json_contract toy_json"
  using toy_json_round_trip [of _ _ "[]"] toy_json_lengths
  by (simp add: json_contract_def toy_json_def)

end
