(* ===== verification/Envelope_Wire.thy ===== *)
theory Envelope_Wire
  imports Json Compliance_Format Keys
begin

text \<open>
  The wire shapes of \<^verbatim>\<open>pigeonpost-core/src/envelope.rs\<close>: compact and fixed-length byte fields, the
  rumor, seal, attribution block and wrap with their hand-written \<^verbatim>\<open>serde\<close> implementations, and the
  compact at-rest encoding of a wrap.
\<close>

section \<open>Byte fields\<close>

definition ENVELOPE_VERSION :: u8 where "ENVELOPE_VERSION = 3"
definition LEGACY_ENVELOPE_VERSION :: u8 where "LEGACY_ENVELOPE_VERSION = 2"
definition PAD_BLOCK :: nat where "PAD_BLOCK = 256"
definition MAX_PLAINTEXT :: nat where "MAX_PLAINTEXT = 64 * 1024"
definition MAX_ENVELOPE_CIPHERTEXT :: nat where "MAX_ENVELOPE_CIPHERTEXT = MAX_PLAINTEXT * 16"

lemmas envelope_consts = ENVELOPE_VERSION_def LEGACY_ENVELOPE_VERSION_def PAD_BLOCK_def MAX_PLAINTEXT_def
  MAX_ENVELOPE_CIPHERTEXT_def

definition compact_serialize :: "bytes \<Rightarrow> json option" where
  "compact_serialize bs = (if MAX_ENVELOPE_CIPHERTEXT < length bs then None else Some (JStr (to_hex bs)))"

definition compact_deserialize :: "json \<Rightarrow> bytes option" where
  "compact_deserialize j =
     (case j of
        JStr s \<Rightarrow> if 2 * MAX_ENVELOPE_CIPHERTEXT < length s \<or> odd (length s) then None else decode_nibbles s
      | JArr js \<Rightarrow> if MAX_ENVELOPE_CIPHERTEXT < length js then None else json_u8s js
      | _ \<Rightarrow> None)"

definition fixed_deserialize :: "nat \<Rightarrow> json \<Rightarrow> bytes option" where
  "fixed_deserialize n j =
     (case j of
        JStr s \<Rightarrow> if length s \<noteq> n * 2 then None else decode_nibbles s
      | JArr js \<Rightarrow> if length js \<noteq> n then None else json_u8s js
      | _ \<Rightarrow> None)"

section \<open>Rumor and seal\<close>

record rumor =
  ru_from :: bytes
  ru_to :: bytes
  ru_created_at :: u64
  ru_body :: string

definition rumor_to_json :: "rumor \<Rightarrow> json option" where
  "rumor_to_json r =
     Option.bind (compact_serialize (ru_from r)) (\<lambda>from.
     Option.bind (compact_serialize (ru_to r)) (\<lambda>to.
     Some (JObj [(''from'', from), (''to'', to), (''created_at'', JWord (ru_created_at r)), (''body'', JStr (ru_body r))])))"

definition rumor_from_json :: "json \<Rightarrow> rumor option" where
  "rumor_from_json j =
     Option.bind (struct_fields False [''from'', ''to'', ''created_at'', ''body''] j) (\<lambda>fs.
     Option.bind (field (fixed_deserialize 32) ''from'' fs) (\<lambda>from.
     Option.bind (field (fixed_deserialize 32) ''to'' fs) (\<lambda>to.
     Option.bind (field json_u64 ''created_at'' fs) (\<lambda>created_at.
     Option.bind (field json_string ''body'' fs) (\<lambda>body.
     Some \<lparr>ru_from = from, ru_to = to, ru_created_at = created_at, ru_body = body\<rparr>)))))"

record seal =
  sl_sender_pubkey :: bytes
  sl_nonce :: bytes
  sl_ciphertext :: bytes
  sl_attribution_sk :: "bytes option"
  sl_signature :: bytes

definition seal_to_json :: "seal \<Rightarrow> json option" where
  "seal_to_json s =
     Option.bind (compact_serialize (sl_sender_pubkey s)) (\<lambda>sender.
     Option.bind (compact_serialize (sl_nonce s)) (\<lambda>nonce.
     Option.bind (compact_serialize (sl_ciphertext s)) (\<lambda>ciphertext.
     Option.bind (case sl_attribution_sk s of None \<Rightarrow> Some []
                  | Some sk \<Rightarrow> map_option (\<lambda>v. [(''attribution_sk'', v)]) (compact_serialize sk)) (\<lambda>attribution_sk.
     Option.bind (compact_serialize (sl_signature s)) (\<lambda>signature.
     Some (JObj ([(''sender_pubkey'', sender), (''nonce'', nonce), (''ciphertext'', ciphertext)]
                 @ attribution_sk @ [(''signature'', signature)])))))))"

definition seal_from_json :: "json \<Rightarrow> seal option" where
  "seal_from_json j =
     Option.bind (struct_fields False [''sender_pubkey'', ''nonce'', ''ciphertext'', ''attribution_sk'', ''signature''] j) (\<lambda>fs.
     Option.bind (field (fixed_deserialize 32) ''sender_pubkey'' fs) (\<lambda>sender.
     Option.bind (field (fixed_deserialize 24) ''nonce'' fs) (\<lambda>nonce.
     Option.bind (field compact_deserialize ''ciphertext'' fs) (\<lambda>ciphertext.
     Option.bind (field_or (json_option (fixed_deserialize 32)) None ''attribution_sk'' fs) (\<lambda>sk.
     Option.bind (field (fixed_deserialize 64) ''signature'' fs) (\<lambda>signature.
     Some \<lparr>sl_sender_pubkey = sender, sl_nonce = nonce, sl_ciphertext = ciphertext, sl_attribution_sk = sk,
           sl_signature = signature\<rparr>))))))"

section \<open>Attribution blocks\<close>

record attribution_block_v2 =
  b2_epoch_id :: u32
  b2_e_pk :: bytes
  b2_nonce :: bytes
  b2_ciphertext :: bytes

record attribution_block_v3 =
  b3_block_version :: u8
  b3_key_id :: compliance_key_id
  b3_compliance_key_digest :: bytes
  b3_e_pk :: bytes
  b3_nonce :: bytes
  b3_ciphertext :: bytes

datatype attribution_block = V2 attribution_block_v2 | V3 attribution_block_v3

fun as_v3 :: "attribution_block \<Rightarrow> attribution_block_v3 option" where
  "as_v3 (V3 b) = Some b"
| "as_v3 (V2 b) = None"

fun ciphertext_len :: "attribution_block \<Rightarrow> nat" where
  "ciphertext_len (V2 b) = length (b2_ciphertext b)"
| "ciphertext_len (V3 b) = length (b3_ciphertext b)"

fun purpose_name :: "compliance_purpose \<Rightarrow> string" where
  "purpose_name Attribution = ''attribution''"
| "purpose_name NetworkTrace = ''network_trace''"
| "purpose_name IdentityTrace = ''identity_trace''"

fun jurisdiction_name :: "jurisdiction \<Rightarrow> string" where
  "jurisdiction_name Us = ''us''"
| "jurisdiction_name Eu = ''eu''"
| "jurisdiction_name Tr = ''tr''"
| "jurisdiction_name Test = ''test''"

text \<open>A unit variant: its name, or an object with that single key and \<^verbatim>\<open>null\<close>.\<close>

definition unit_variant :: "('a \<Rightarrow> string) \<Rightarrow> 'a list \<Rightarrow> json \<Rightarrow> 'a option" where
  "unit_variant name variants j =
     (case j of
        JStr s \<Rightarrow> List.find (\<lambda>v. name v = s) variants
      | JObj [(s, JNull)] \<Rightarrow> List.find (\<lambda>v. name v = s) variants
      | _ \<Rightarrow> None)"

definition key_id_to_json :: "compliance_key_id \<Rightarrow> json" where
  "key_id_to_json k = JObj [(''version'', JWord (ck_version k)), (''purpose'', JStr (purpose_name (ck_purpose k))),
     (''jurisdiction'', JStr (jurisdiction_name (ck_jurisdiction k))), (''authority'', JBytes (ck_authority k)),
     (''epoch_start_ms'', JWord (ck_epoch_start_ms k)), (''generation'', JWord (ck_generation k))]"

definition key_id_from_json :: "json \<Rightarrow> compliance_key_id option" where
  "key_id_from_json j =
     Option.bind (struct_fields True [''version'', ''purpose'', ''jurisdiction'', ''authority'', ''epoch_start_ms'', ''generation''] j) (\<lambda>fs.
     Option.bind (field json_u8 ''version'' fs) (\<lambda>version.
     Option.bind (field (unit_variant purpose_name [Attribution, NetworkTrace, IdentityTrace]) ''purpose'' fs) (\<lambda>purpose.
     Option.bind (field (unit_variant jurisdiction_name [Us, Eu, Tr, Test]) ''jurisdiction'' fs) (\<lambda>jur.
     Option.bind (field (json_array 32) ''authority'' fs) (\<lambda>authority.
     Option.bind (field json_u64 ''epoch_start_ms'' fs) (\<lambda>epoch.
     Option.bind (field json_u32 ''generation'' fs) (\<lambda>generation.
     Some \<lparr>ck_version = version, ck_purpose = purpose, ck_jurisdiction = jur, ck_authority = authority,
           ck_epoch_start_ms = epoch, ck_generation = generation\<rparr>)))))))"

fun block_to_json :: "attribution_block \<Rightarrow> json" where
  "block_to_json (V2 b) = JObj [(''epoch_id'', JWord (b2_epoch_id b)), (''e_pk'', JBytes (b2_e_pk b)),
     (''nonce'', JBytes (b2_nonce b)), (''ciphertext'', JBytes (b2_ciphertext b))]"
| "block_to_json (V3 b) = JObj [(''block_version'', JWord (b3_block_version b)), (''key_id'', key_id_to_json (b3_key_id b)),
     (''compliance_key_digest'', JBytes (b3_compliance_key_digest b)), (''e_pk'', JBytes (b3_e_pk b)),
     (''nonce'', JBytes (b3_nonce b)), (''ciphertext'', JBytes (b3_ciphertext b))]"

definition block_v2_from_json :: "json \<Rightarrow> attribution_block_v2 option" where
  "block_v2_from_json j =
     Option.bind (struct_fields True [''epoch_id'', ''e_pk'', ''nonce'', ''ciphertext''] j) (\<lambda>fs.
     Option.bind (field json_u32 ''epoch_id'' fs) (\<lambda>epoch_id.
     Option.bind (field (json_array 32) ''e_pk'' fs) (\<lambda>e_pk.
     Option.bind (field (json_array 24) ''nonce'' fs) (\<lambda>nonce.
     Option.bind (field json_vec ''ciphertext'' fs) (\<lambda>ciphertext.
     Some \<lparr>b2_epoch_id = epoch_id, b2_e_pk = e_pk, b2_nonce = nonce, b2_ciphertext = ciphertext\<rparr>)))))"

definition block_v3_from_json :: "json \<Rightarrow> attribution_block_v3 option" where
  "block_v3_from_json j =
     Option.bind (struct_fields True [''block_version'', ''key_id'', ''compliance_key_digest'', ''e_pk'', ''nonce'', ''ciphertext''] j) (\<lambda>fs.
     Option.bind (field json_u8 ''block_version'' fs) (\<lambda>block_version.
     Option.bind (field key_id_from_json ''key_id'' fs) (\<lambda>key_id.
     Option.bind (field (json_array 32) ''compliance_key_digest'' fs) (\<lambda>digest.
     Option.bind (field (json_array 32) ''e_pk'' fs) (\<lambda>e_pk.
     Option.bind (field (json_array 24) ''nonce'' fs) (\<lambda>nonce.
     Option.bind (field (json_array ATTRIBUTION_CIPHERTEXT_LEN) ''ciphertext'' fs) (\<lambda>ciphertext.
     Some \<lparr>b3_block_version = block_version, b3_key_id = key_id, b3_compliance_key_digest = digest, b3_e_pk = e_pk,
           b3_nonce = nonce, b3_ciphertext = ciphertext\<rparr>)))))))"

text \<open>The untagged enum tries the current shape first, then the legacy one.\<close>

definition block_from_json :: "json \<Rightarrow> attribution_block option" where
  "block_from_json j =
     (case block_v3_from_json j of
        Some b \<Rightarrow>
          if b3_block_version b \<noteq> ATTRIBUTION_BLOCK_VERSION \<or> ck_purpose (b3_key_id b) \<noteq> Attribution
             \<or> \<not> is_ok (key_id_validate (b3_key_id b))
          then None else Some (V3 b)
      | None \<Rightarrow> map_option V2 (block_v2_from_json j))"

section \<open>Wrap\<close>

record wrap =
  w_version :: u8
  w_ephemeral_pubkey :: bytes
  w_recipient :: bytes
  w_nonce :: bytes
  w_ciphertext :: bytes
  w_created_at :: u64
  w_signature :: bytes
  w_pow_nonce :: u64
  w_attribution :: "attribution_block option"

definition wrap_to_json :: "wrap \<Rightarrow> json option" where
  "wrap_to_json w =
     Option.bind (if w_version w = LEGACY_ENVELOPE_VERSION then Some (JBytes (w_ciphertext w))
                  else compact_serialize (w_ciphertext w)) (\<lambda>ciphertext.
     Some (JObj ([(''version'', JWord (w_version w)), (''ephemeral_pubkey'', JBytes (w_ephemeral_pubkey w)),
       (''recipient'', JBytes (w_recipient w)), (''nonce'', JBytes (w_nonce w)), (''ciphertext'', ciphertext),
       (''created_at'', JWord (w_created_at w)), (''signature'', JBytes (w_signature w)),
       (''pow_nonce'', JWord (w_pow_nonce w))]
       @ (case w_attribution w of None \<Rightarrow> [] | Some b \<Rightarrow> [(''attribution'', block_to_json b)]))))"

definition wrap_from_json :: "json \<Rightarrow> wrap option" where
  "wrap_from_json j =
     Option.bind (struct_fields True [''version'', ''ephemeral_pubkey'', ''recipient'', ''nonce'', ''ciphertext'',
       ''created_at'', ''signature'', ''pow_nonce'', ''attribution''] j) (\<lambda>fs.
     Option.bind (field json_u8 ''version'' fs) (\<lambda>version.
     Option.bind (field (json_array 32) ''ephemeral_pubkey'' fs) (\<lambda>ephemeral.
     Option.bind (field (json_array 32) ''recipient'' fs) (\<lambda>recipient.
     Option.bind (field (json_array 24) ''nonce'' fs) (\<lambda>nonce.
     Option.bind (field compact_deserialize ''ciphertext'' fs) (\<lambda>ciphertext.
     Option.bind (field json_u64 ''created_at'' fs) (\<lambda>created_at.
     Option.bind (field (json_array 64) ''signature'' fs) (\<lambda>signature.
     Option.bind (field_or json_u64 0 ''pow_nonce'' fs) (\<lambda>pow_nonce.
     Option.bind (field_or (json_option block_from_json) None ''attribution'' fs) (\<lambda>attribution.
     Some \<lparr>w_version = version, w_ephemeral_pubkey = ephemeral, w_recipient = recipient, w_nonce = nonce,
           w_ciphertext = ciphertext, w_created_at = created_at, w_signature = signature, w_pow_nonce = pow_nonce,
           w_attribution = attribution\<rparr>))))))))))"

section \<open>At-rest encoding\<close>

definition WRAP_STORAGE_MAGIC_V1 :: u8 where "WRAP_STORAGE_MAGIC_V1 = 0xB1"
definition MAX_STORAGE_ATTRIBUTION :: nat where "MAX_STORAGE_ATTRIBUTION = 16 * 1024"
definition STORAGE_FLAG_ATTRIBUTION :: u8 where "STORAGE_FLAG_ATTRIBUTION = 1"

lemmas storage_consts = WRAP_STORAGE_MAGIC_V1_def MAX_STORAGE_ATTRIBUTION_def STORAGE_FLAG_ATTRIBUTION_def

definition to_storage_bytes :: "json_codec \<Rightarrow> wrap \<Rightarrow> error + bytes" where
  "to_storage_bytes J w =
     (if MAX_ENVELOPE_CIPHERTEXT < length (w_ciphertext w)
      then Err (MalformedEnvelope ''ciphertext too large for storage'')
      else and_then (case w_attribution w of
          Some block \<Rightarrow>
            (let json = to_vec J (block_to_json block) in
             if MAX_STORAGE_ATTRIBUTION < length json
             then Err (MalformedEnvelope ''attribution too large for storage'') else Ok (Some json))
        | None \<Rightarrow> Ok None) (\<lambda>attribution.
      Ok ([WRAP_STORAGE_MAGIC_V1, w_version w] @ w_ephemeral_pubkey w @ w_recipient w @ w_nonce w
          @ u64_le (w_created_at w) @ u64_le (w_pow_nonce w) @ w_signature w
          @ (case attribution of Some json \<Rightarrow> STORAGE_FLAG_ATTRIBUTION # lp32_le json | None \<Rightarrow> [0])
          @ lp32_le (w_ciphertext w))))"

definition storage_take :: "nat \<Rightarrow> bytes \<Rightarrow> error + bytes \<times> bytes" where
  "storage_take n r = (if length r < n then Err (MalformedEnvelope ''truncated stored wrap'')
     else Ok (take n r, drop n r))"

definition take_len_prefixed :: "nat \<Rightarrow> bytes \<Rightarrow> error + bytes \<times> bytes" where
  "take_len_prefixed max_len r = and_then (storage_take 4 r) (\<lambda>(b, r).
     let len = unat (u32_from_le b) in
     if max_len < len then Err (MalformedEnvelope ''stored wrap field too large'')
     else if length r < len then Err (MalformedEnvelope ''truncated stored wrap'')
     else Ok (take len r, drop len r))"

definition decode_storage_v1 :: "json_codec \<Rightarrow> bytes \<Rightarrow> error + wrap" where
  "decode_storage_v1 J r =
     and_then (storage_take 1 r) (\<lambda>(version, r).
     and_then (storage_take 32 r) (\<lambda>(ephemeral, r).
     and_then (storage_take 32 r) (\<lambda>(recipient, r).
     and_then (storage_take 24 r) (\<lambda>(nonce, r).
     and_then (storage_take 8 r) (\<lambda>(created_at, r).
     and_then (storage_take 8 r) (\<lambda>(pow_nonce, r).
     and_then (storage_take 64 r) (\<lambda>(signature, r).
     and_then (storage_take 1 r) (\<lambda>(flags, r).
     if hd flags AND NOT STORAGE_FLAG_ATTRIBUTION \<noteq> 0
     then Err (MalformedEnvelope ''unknown stored wrap flags'')
     else and_then (if hd flags AND STORAGE_FLAG_ATTRIBUTION \<noteq> 0
          then and_then (take_len_prefixed MAX_STORAGE_ATTRIBUTION r) (\<lambda>(json, r).
               and_then (ok_or (Option.bind (from_slice J json) block_from_json) (MalformedEnvelope ''stored attribution'')) (\<lambda>block.
               Ok (Some block, r)))
          else Ok (None, r)) (\<lambda>(attribution, r).
     and_then (take_len_prefixed MAX_ENVELOPE_CIPHERTEXT r) (\<lambda>(ciphertext, r).
     if r \<noteq> [] then Err (MalformedEnvelope ''trailing bytes in stored wrap'')
     else Ok \<lparr>w_version = hd version, w_ephemeral_pubkey = ephemeral, w_recipient = recipient, w_nonce = nonce,
              w_ciphertext = ciphertext, w_created_at = u64_from_le created_at, w_signature = signature,
              w_pow_nonce = u64_from_le pow_nonce, w_attribution = attribution\<rparr>))))))))))"

definition from_storage_bytes :: "json_codec \<Rightarrow> bytes \<Rightarrow> error + wrap" where
  "from_storage_bytes J b =
     (case b of
        [] \<Rightarrow> Err (MalformedEnvelope ''empty stored wrap'')
      | m # r \<Rightarrow>
          if m = WRAP_STORAGE_MAGIC_V1 then decode_storage_v1 J r
          else ok_or (Option.bind (from_slice J b) wrap_from_json) (MalformedEnvelope ''stored wrap''))"

definition is_storage_format :: "bytes \<Rightarrow> bool" where
  "is_storage_format b \<longleftrightarrow> b \<noteq> [] \<and> hd b = WRAP_STORAGE_MAGIC_V1"


section \<open>Round trips\<close>

lemma compact_serialize_fits: "length bs \<le> MAX_ENVELOPE_CIPHERTEXT \<Longrightarrow> compact_serialize bs = Some (JStr (to_hex bs))"
  by (simp add: compact_serialize_def)

lemma compact_serialize_Some:
  "compact_serialize bs = Some j \<longleftrightarrow> length bs \<le> MAX_ENVELOPE_CIPHERTEXT \<and> j = JStr (to_hex bs)"
  by (auto simp: compact_serialize_def)

lemma fixed_hex [simp]:
  "length bs = n \<Longrightarrow> fixed_deserialize n (JStr (to_hex bs)) = Some bs"
  by (simp add: fixed_deserialize_def decode_nibbles_to_hex length_to_hex)

lemma compact_hex [simp]:
  "length bs \<le> MAX_ENVELOPE_CIPHERTEXT \<Longrightarrow> compact_deserialize (JStr (to_hex bs)) = Some bs"
  by (simp add: compact_deserialize_def decode_nibbles_to_hex length_to_hex)

lemma rumor_round_trip:
  assumes "length (ru_from r) = 32" "length (ru_to r) = 32" "rumor_to_json r = Some j"
  shows "rumor_from_json j = Some r"
  using assms
  by (auto simp: rumor_to_json_def rumor_from_json_def struct_fields_def field_def bind_eq_Some_conv compact_serialize_Some)

lemma seal_round_trip:
  assumes "length (sl_sender_pubkey s) = 32" "length (sl_nonce s) = 24" "length (sl_signature s) = 64"
    and "case sl_attribution_sk s of None \<Rightarrow> True | Some sk \<Rightarrow> length sk = 32"
    and "seal_to_json s = Some j"
  shows "seal_from_json j = Some s"
  using assms
  by (cases "sl_attribution_sk s")
    (auto simp: seal_to_json_def seal_from_json_def struct_fields_def field_def field_or_def json_option_def
      bind_eq_Some_conv compact_serialize_Some)

definition block_wf :: "attribution_block \<Rightarrow> bool" where
  "block_wf b = (case b of
     V2 b \<Rightarrow> length (b2_e_pk b) = 32 \<and> length (b2_nonce b) = 24 \<and> fits_u32 (b2_ciphertext b)
   | V3 b \<Rightarrow> b3_block_version b = ATTRIBUTION_BLOCK_VERSION \<and> ck_purpose (b3_key_id b) = Attribution
       \<and> key_id_wf (b3_key_id b) \<and> length (b3_compliance_key_digest b) = 32 \<and> length (b3_e_pk b) = 32
       \<and> length (b3_nonce b) = 24 \<and> length (b3_ciphertext b) = ATTRIBUTION_CIPHERTEXT_LEN)"

lemma purpose_read [simp]:
  "unit_variant purpose_name [Attribution, NetworkTrace, IdentityTrace] (JStr (purpose_name p)) = Some p"
  by (cases p) (simp_all add: unit_variant_def)

lemma jurisdiction_read [simp]:
  "unit_variant jurisdiction_name [Us, Eu, Tr, Test] (JStr (jurisdiction_name p)) = Some p"
  by (cases p) (simp_all add: unit_variant_def)

lemma key_id_json_round_trip: "length (ck_authority k) = 32 \<Longrightarrow> key_id_from_json (key_id_to_json k) = Some k"
  by (simp add: key_id_from_json_def key_id_to_json_def struct_fields_def field_def)

lemma block_round_trip: "block_wf b \<Longrightarrow> block_from_json (block_to_json b) = Some b"
proof (cases b)
  case (V2 c)
  assume wf: "block_wf b"
  have "block_v3_from_json (block_to_json b) = None"
    by (simp add: V2 block_v3_from_json_def struct_fields_def)
  moreover have "block_v2_from_json (block_to_json b) = Some c"
    using wf by (simp add: V2 block_wf_def block_v2_from_json_def struct_fields_def field_def)
  ultimately show ?thesis by (simp add: block_from_json_def V2)
next
  case (V3 c)
  assume wf: "block_wf b"
  have "block_v3_from_json (block_to_json b) = Some c"
    using wf by (simp add: V3 block_wf_def block_v3_from_json_def struct_fields_def field_def key_id_json_round_trip key_id_wf_def)
  with wf show ?thesis by (simp add: block_from_json_def V3 block_wf_def key_id_validate_def key_id_wf_def)
qed

lemma name_lengths: "length (purpose_name p) < 20" "length (jurisdiction_name j) < 20"
  by (cases p; simp) (cases j; simp)

lemma key_id_json_wf: "key_id_wf k \<Longrightarrow> json_wf (key_id_to_json k)"
  using name_lengths(1) [of "ck_purpose k"] name_lengths(2) [of "ck_jurisdiction k"]
  by (auto simp: key_id_to_json_def key_id_wf_def fits_u32_def simp del: json_wf.simps(3))

lemma block_json_wf: "block_wf b \<Longrightarrow> json_wf (block_to_json b)"
  by (cases b) (auto simp: block_wf_def key_id_json_wf fits_u32_def ATTRIBUTION_CIPHERTEXT_LEN_def ATTRIBUTION_CLAIM_LEN_def
    simp del: json_wf.simps(3))

definition wrap_wf :: "wrap \<Rightarrow> bool" where
  "wrap_wf w \<longleftrightarrow> length (w_ephemeral_pubkey w) = 32 \<and> length (w_recipient w) = 32 \<and> length (w_nonce w) = 24
     \<and> length (w_signature w) = 64 \<and> (case w_attribution w of None \<Rightarrow> True | Some b \<Rightarrow> block_wf b)"

lemma compact_deserialize_bytes: "length bs \<le> MAX_ENVELOPE_CIPHERTEXT \<Longrightarrow> compact_deserialize (JBytes bs) = Some bs"
  by (simp add: compact_deserialize_def JBytes_def)

lemma wrap_json_round_trip:
  assumes "wrap_wf w" "length (w_ciphertext w) \<le> MAX_ENVELOPE_CIPHERTEXT"
  shows "\<exists>j. wrap_to_json w = Some j \<and> wrap_from_json j = Some w"
proof -
  define c where "c = (if w_version w = LEGACY_ENVELOPE_VERSION then JBytes (w_ciphertext w) else JStr (to_hex (w_ciphertext w)))"
  have c: "(if w_version w = LEGACY_ENVELOPE_VERSION then Some (JBytes (w_ciphertext w))
      else compact_serialize (w_ciphertext w)) = Some c" "compact_deserialize c = Some (w_ciphertext w)"
    using assms(2) by (simp_all add: c_def compact_serialize_fits compact_deserialize_bytes)
  have "block_to_json b \<noteq> JNull" for b by (cases b) simp_all
  then have "json_option block_from_json (block_to_json b) = Some (Some b)" if "w_attribution w = Some b" for b
    using block_round_trip [of b] assms(1) that by (cases "block_to_json b") (auto simp: json_option_def wrap_wf_def)
  then show ?thesis
    using assms(1) c(2) by (cases "w_attribution w")
      (simp_all add: wrap_to_json_def c(1) wrap_from_json_def struct_fields_def field_def field_or_def wrap_wf_def)
qed

lemma storage_take_append [simp]: "length b = n \<Longrightarrow> storage_take n (b @ r) = Ok (b, r)"
  by (auto simp: storage_take_def)

lemma take_len_prefixed_append [simp]:
  "length b \<le> m \<Longrightarrow> fits_u32 b \<Longrightarrow> take_len_prefixed m (lp32_le b @ r) = Ok (b, r)"
  by (simp add: take_len_prefixed_def lp32_le_def fits_u32_def unat_of_nat take_bit_nat_eq_self Let_def)

lemma decode_storage_parts:
  assumes "length e = 32" "length p = 32" "length n = 24" "length s = 64" "length c \<le> MAX_ENVELOPE_CIPHERTEXT"
    and "case a of None \<Rightarrow> f = [0] | Some b \<Rightarrow> \<exists>j. f = 1 # lp32_le j \<and> length j \<le> MAX_STORAGE_ATTRIBUTION
      \<and> Option.bind (from_slice J j) block_from_json = Some b"
  shows "decode_storage_v1 J ([v] @ e @ p @ n @ u64_le t @ u64_le w @ s @ f @ lp32_le c) =
    Ok \<lparr>w_version = v, w_ephemeral_pubkey = e, w_recipient = p, w_nonce = n, w_ciphertext = c, w_created_at = t,
        w_signature = s, w_pow_nonce = w, w_attribution = a\<rparr>"
proof -
  have "fits_u32 c" using assms(5) by (simp add: fits_u32_def envelope_consts)
  moreover have "length j \<le> MAX_STORAGE_ATTRIBUTION \<Longrightarrow> fits_u32 j" for j :: bytes
    by (simp add: fits_u32_def storage_consts)
  moreover have "storage_take (Suc 0) (x # r) = Ok ([x], r)" for x r by (simp add: storage_take_def)
  moreover note take_len_prefixed_append [OF assms(5) \<open>fits_u32 c\<close>, of "[]"]
  ultimately show ?thesis
    using assms by (cases a) (auto simp: decode_storage_v1_def storage_consts)
qed

lemma storage_take_Ok: "storage_take n r = Ok (b, s) \<longleftrightarrow> r = b @ s \<and> length b = n"
  by (auto simp: storage_take_def)

lemma take_len_prefixed_Ok:
  assumes "m < 2 ^ 32"
  shows "take_len_prefixed m r = Ok (b, s) \<longleftrightarrow> r = lp32_le b @ s \<and> length b \<le> m"
proof
  assume "take_len_prefixed m r = Ok (b, s)"
  then obtain l t where l: "r = l @ t" "length l = 4" "unat (u32_from_le l) \<le> m"
    "t = b @ s" "length b = unat (u32_from_le l)"
    by (auto simp: take_len_prefixed_def result_simps storage_take_Ok Let_def split: if_splits)
  moreover have "u32_le (word_of_nat (length b)) = l"
    using l(2,5) by (simp add: to_from_bytes)
  ultimately show "r = lp32_le b @ s \<and> length b \<le> m" by (simp add: lp32_le_def)
next
  assume "r = lp32_le b @ s \<and> length b \<le> m"
  with assms show "take_len_prefixed m r = Ok (b, s)" by (simp add: fits_u32_def)
qed

lemma storage_limits: "MAX_STORAGE_ATTRIBUTION < 2 ^ 32" "MAX_ENVELOPE_CIPHERTEXT < 2 ^ 32"
  by (simp_all add: storage_consts envelope_consts)

lemma flag_bits: "x AND NOT f = (0 :: u8) \<Longrightarrow> x AND f = 0 \<Longrightarrow> x = 0"
proof -
  assume "x AND NOT f = 0" "x AND f = 0"
  moreover have "x = (x AND NOT f) OR (x AND f)" by (rule bit_word_eqI) (auto simp: bit_simps)
  ultimately show "x = 0" by simp
qed

lemma decode_storage_canonical:
  assumes "decode_storage_v1 J r = Ok w" "w_attribution w = None"
  shows "to_storage_bytes J w = Ok (WRAP_STORAGE_MAGIC_V1 # r) \<and> wrap_wf w"
  using assms
  by (auto simp: decode_storage_v1_def result_simps storage_take_Ok take_len_prefixed_Ok [OF storage_limits(1)]
    take_len_prefixed_Ok [OF storage_limits(2)] to_storage_bytes_def wrap_wf_def to_from_bytes length_Suc_conv
    dest: flag_bits split: if_splits)

lemma stored_reads_back:
  assumes "json_contract J" "wrap_wf w" "to_storage_bytes J w = Ok b"
  shows "from_storage_bytes J b = Ok w" and "is_storage_format b"
proof -
  from assms(3) obtain a f where f: "b = WRAP_STORAGE_MAGIC_V1 # [w_version w] @ w_ephemeral_pubkey w @ w_recipient w
      @ w_nonce w @ u64_le (w_created_at w) @ u64_le (w_pow_nonce w) @ w_signature w @ f @ lp32_le (w_ciphertext w)"
    and a: "length (w_ciphertext w) \<le> MAX_ENVELOPE_CIPHERTEXT"
      "case w_attribution w of None \<Rightarrow> f = [0] | Some x \<Rightarrow> \<exists>j. f = 1 # lp32_le j \<and> length j \<le> MAX_STORAGE_ATTRIBUTION
        \<and> j = to_vec J (block_to_json x)"
    by (auto simp: to_storage_bytes_def result_simps STORAGE_FLAG_ATTRIBUTION_def Let_def split: if_splits option.splits)
  have "case w_attribution w of None \<Rightarrow> f = [0] | Some x \<Rightarrow> \<exists>j. f = 1 # lp32_le j \<and> length j \<le> MAX_STORAGE_ATTRIBUTION
      \<and> Option.bind (from_slice J j) block_from_json = Some x"
    using a(2) assms(1,2) block_json_wf block_round_trip
    by (auto simp: json_contract_def wrap_wf_def split: option.splits)
  from decode_storage_parts [OF _ _ _ _ a(1) this] assms(2)
  show "from_storage_bytes J b = Ok w" "is_storage_format b"
    by (simp_all add: from_storage_bytes_def is_storage_format_def f wrap_wf_def)
qed

text \<open>C34. A stored wrap reads back unchanged: decoding what \<^verbatim>\<open>to_storage_bytes\<close> wrote returns the same wrap.\<close>

theorem storage_round_trip:
  assumes "json_contract J" "wrap_wf w" "to_storage_bytes J w = Ok b"
  shows "from_storage_bytes J b = Ok w \<and> is_storage_format b"
  using stored_reads_back [OF assms] by blast

text \<open>The at-rest decoder is strict: every record it accepts without an attribution block is, byte for
  byte, what \<^verbatim>\<open>to_storage_bytes\<close> writes for the wrap it returned, so truncation, trailing bytes, unknown flags
  and over-long fields are all refused.\<close>

theorem storage_canonical:
  assumes "from_storage_bytes J b = Ok w" "is_storage_format b" "w_attribution w = None"
  shows "to_storage_bytes J w = Ok b \<and> wrap_wf w"
  using assms decode_storage_canonical [of J "tl b" w]
  by (cases b) (auto simp: from_storage_bytes_def is_storage_format_def)

text \<open>The wire form of a wrap reads back unchanged, for current wraps (hex ciphertext) and for legacy ones
  (byte-array ciphertext), with or without an attribution block.\<close>

theorem wrap_wire_round_trip:
  assumes "wrap_wf w" "length (w_ciphertext w) \<le> MAX_ENVELOPE_CIPHERTEXT"
  shows "\<exists>j. wrap_to_json w = Some j \<and> wrap_from_json j = Some w"
  using assms by (rule wrap_json_round_trip)

definition example_wrap :: wrap where
  "example_wrap = \<lparr>w_version = 3, w_ephemeral_pubkey = replicate 32 1, w_recipient = replicate 32 2,
     w_nonce = replicate 24 3, w_ciphertext = [9, 8, 7], w_created_at = 1700000000, w_signature = replicate 64 4,
     w_pow_nonce = 5, w_attribution = None\<rparr>"

lemma example_wrap_wf: "wrap_wf example_wrap" "w_attribution example_wrap = None"
  by (simp_all add: example_wrap_def wrap_wf_def)

lemma example_stored: "\<exists>b. to_storage_bytes toy_json example_wrap = Ok b"
  by (simp add: to_storage_bytes_def example_wrap_def envelope_consts)

theorem storage_round_trip_witness:
  "\<exists>b. to_storage_bytes toy_json example_wrap = Ok b \<and> from_storage_bytes toy_json b = Ok example_wrap"
  using example_stored storage_round_trip [OF toy_json_contract example_wrap_wf(1)] by blast

theorem storage_canonical_witness:
  "\<exists>b. from_storage_bytes toy_json b = Ok example_wrap \<and> to_storage_bytes toy_json example_wrap = Ok b"
proof -
  define b where "b = [0xB1, 3] @ replicate 32 1 @ replicate 32 2 @ replicate 24 3 @ u64_le 1700000000 @ u64_le 5
    @ replicate 64 4 @ [0] @ lp32_le [9, 8, 7 :: u8]"
  have "decode_storage_v1 toy_json (tl b) = Ok example_wrap"
    using decode_storage_parts [where e = "replicate 32 1" and p = "replicate 32 2" and n = "replicate 24 3" and s = "replicate 64 4"
      and c = "[9, 8, 7]" and a = None and f = "[0]" and J = toy_json and v = 3 and t = 1700000000 and w = 5]
    by (simp add: b_def example_wrap_def envelope_consts)
  then have "from_storage_bytes toy_json b = Ok example_wrap" "is_storage_format b"
    by (simp_all add: b_def from_storage_bytes_def is_storage_format_def storage_consts)
  with storage_canonical [OF this example_wrap_wf(2)] show ?thesis by blast
qed

theorem wrap_wire_round_trip_witness:
  "\<exists>j. wrap_to_json example_wrap = Some j \<and> wrap_from_json j = Some example_wrap"
  by (rule wrap_wire_round_trip [OF example_wrap_wf(1)]) (simp add: example_wrap_def envelope_consts)

end
