(* ===== verification/Envelope.thy ===== *)
theory Envelope
  imports Envelope_Wire Token
begin

text \<open>
  \<^verbatim>\<open>pigeonpost-core/src/envelope.rs\<close>: sealing and wrapping a message, the signed preimages and event
  identifiers, opening a wrap, and building and judging escrowed attribution. Random values the code
  draws are arguments; the cryptographic primitives and the JSON text layer are parameters.
\<close>

section \<open>Preimages, identifiers and padding\<close>

definition HKDF_INFO_SEAL :: bytes where "HKDF_INFO_SEAL = as_bytes ''pigeonpost/envelope/v1/seal''"
definition HKDF_INFO_WRAP :: bytes where "HKDF_INFO_WRAP = as_bytes ''pigeonpost/envelope/v1/wrap''"
definition SIG_DOMAIN_SEAL :: bytes where "SIG_DOMAIN_SEAL = as_bytes ''pigeonpost/envelope/v1/seal-sig''"
definition SIG_DOMAIN_WRAP_V2 :: bytes where "SIG_DOMAIN_WRAP_V2 = as_bytes ''pigeonpost/envelope/v1/wrap-sig''"
definition SIG_DOMAIN_WRAP_V3 :: bytes where "SIG_DOMAIN_WRAP_V3 = as_bytes ''pigeonpost/envelope/v3/wrap-sig''"
definition ATTR_BIND_DOMAIN :: bytes where "ATTR_BIND_DOMAIN = as_bytes ''pigeonpost/attribution-bind/v1''"
definition MAX_TIMESTAMP_JITTER_SECS :: u64 where "MAX_TIMESTAMP_JITTER_SECS = 2 * 24 * 60 * 60"
definition MAX_ATTRIBUTION_CLOCK_SKEW_MS :: u64 where "MAX_ATTRIBUTION_CLOCK_SKEW_MS = 5 * 60 * 1000"

definition pad :: "bytes \<Rightarrow> bytes" where
  "pad plaintext =
     (let total_len = ((length plaintext + 4 + (PAD_BLOCK - 1)) div PAD_BLOCK) * PAD_BLOCK;
          out = u32_le (word_of_nat (length plaintext)) @ plaintext
      in take total_len (out @ zeros (total_len - length out)))"

definition unpad :: "bytes \<Rightarrow> bytes" where
  "unpad padded =
     (if length padded < 4 then []
      else let len = unat (u32_from_le (take 4 padded)); fin = 4 + len in
        if length padded < fin then [] else take len (drop 4 padded))"

definition signing_payload :: "bytes \<Rightarrow> bytes \<Rightarrow> bytes \<Rightarrow> bytes" where
  "signing_payload domain nonce ciphertext = domain @ nonce @ ciphertext"

definition seal_signing_payload :: "bytes \<Rightarrow> bytes \<Rightarrow> bytes option \<Rightarrow> bytes" where
  "seal_signing_payload nonce ciphertext sk =
     signing_payload SIG_DOMAIN_SEAL nonce ciphertext @ (case sk of Some sk \<Rightarrow> 1 # sk | None \<Rightarrow> [0])"

definition u64_len :: "bytes \<Rightarrow> u64" where
  "u64_len b = word_of_nat (length b)"

definition wrap_signing_payload_v2 ::
  "u8 \<Rightarrow> bytes \<Rightarrow> u64 \<Rightarrow> bytes \<Rightarrow> bytes \<Rightarrow> attribution_block option \<Rightarrow> bytes" where
  "wrap_signing_payload_v2 version recipient created_at nonce ciphertext attribution =
     signing_payload SIG_DOMAIN_WRAP_V2 nonce ciphertext @ [version] @ recipient @ u64_le created_at
     @ (case attribution of
          Some (V2 b) \<Rightarrow> [1] @ u32_le (b2_epoch_id b) @ b2_e_pk b @ b2_nonce b @ u64_le (u64_len (b2_ciphertext b))
            @ b2_ciphertext b
        | Some (V3 b) \<Rightarrow> [1, b3_block_version b]
            @ (case key_id_encode (b3_key_id b) of Inr e \<Rightarrow> e | Inl _ \<Rightarrow> zeros COMPLIANCE_KEY_ID_LEN)
            @ b3_compliance_key_digest b @ b3_e_pk b @ b3_nonce b @ b3_ciphertext b
        | None \<Rightarrow> [0])"

definition wrap_signing_payload_v3 ::
  "u8 \<Rightarrow> bytes \<Rightarrow> bytes \<Rightarrow> u64 \<Rightarrow> bytes \<Rightarrow> bytes \<Rightarrow> attribution_block option \<Rightarrow> error + bytes" where
  "wrap_signing_payload_v3 version ephemeral recipient created_at nonce ciphertext attribution =
     and_then (case attribution of
         Some (V3 b) \<Rightarrow> and_then (map_err (key_id_encode (b3_key_id b)) (MalformedEnvelope ''attribution key id'')) (\<lambda>e.
           Ok ([1, b3_block_version b] @ e @ b3_compliance_key_digest b @ b3_e_pk b @ b3_nonce b @ b3_ciphertext b))
       | Some (V2 _) \<Rightarrow> Err (MalformedEnvelope ''v2 attribution on v3 envelope'')
       | None \<Rightarrow> Ok [0]) (\<lambda>block.
     Ok (SIG_DOMAIN_WRAP_V3 @ [version] @ ephemeral @ recipient @ nonce @ u64_be (u64_len ciphertext) @ ciphertext
         @ u64_be created_at @ block))"

definition wrap_id_v2 :: "crypto \<Rightarrow> wrap \<Rightarrow> bytes" where
  "wrap_id_v2 C w = sha256 C (as_bytes ''pigeonpost/wrap-id/v1'' @ [w_version w] @ w_ephemeral_pubkey w @ w_recipient w
     @ w_nonce w @ u64_le (u64_len (w_ciphertext w)) @ w_ciphertext w @ u64_le (w_created_at w) @ w_signature w)"

definition wrap_id_preimage_v3 :: "u8 \<Rightarrow> bytes \<Rightarrow> bytes \<Rightarrow> bytes \<Rightarrow> bytes \<Rightarrow> u64 \<Rightarrow> bytes" where
  "wrap_id_preimage_v3 version ephemeral recipient nonce ciphertext created_at =
     as_bytes ''pigeonpost/wrap-id/v3'' @ [version] @ ephemeral @ recipient @ nonce @ u64_be (u64_len ciphertext)
     @ ciphertext @ u64_be created_at"

definition wrap_id_v3 :: "crypto \<Rightarrow> u8 \<Rightarrow> bytes \<Rightarrow> bytes \<Rightarrow> bytes \<Rightarrow> bytes \<Rightarrow> u64 \<Rightarrow> bytes" where
  "wrap_id_v3 C version ephemeral recipient nonce ciphertext created_at =
     sha256 C (wrap_id_preimage_v3 version ephemeral recipient nonce ciphertext created_at)"

definition wrap_id :: "crypto \<Rightarrow> wrap \<Rightarrow> bytes" where
  "wrap_id C w =
     (if w_version w = LEGACY_ENVELOPE_VERSION then wrap_id_v2 C w
      else wrap_id_v3 C (w_version w) (w_ephemeral_pubkey w) (w_recipient w) (w_nonce w) (w_ciphertext w) (w_created_at w))"

definition stamp :: "crypto \<Rightarrow> wrap \<Rightarrow> u32 \<Rightarrow> u64 \<Rightarrow> error + wrap" where
  "stamp C w difficulty max_attempts =
     (if difficulty = 0 then Ok (w\<lparr>w_pow_nonce := 0\<rparr>)
      else and_then (ok_or (mine C (wrap_id C w) difficulty max_attempts) InsufficientWork) (\<lambda>n.
        Ok (w\<lparr>w_pow_nonce := n\<rparr>)))"

definition verify_work :: "crypto \<Rightarrow> wrap \<Rightarrow> u32 \<Rightarrow> error + unit" where
  "verify_work C w difficulty = pow_verify C (wrap_id C w) (w_pow_nonce w) difficulty"

definition seal_bind :: "crypto \<Rightarrow> bytes \<Rightarrow> bytes \<Rightarrow> bytes" where
  "seal_bind C nonce ct = sha256 C (ATTR_BIND_DOMAIN @ nonce @ u64_le (u64_len ct) @ ct)"

definition derive_key :: "crypto \<Rightarrow> bytes \<Rightarrow> bytes \<Rightarrow> bytes" where
  "derive_key C shared info = hkdf_sha256 C None shared info"

definition derive_attr_key_v3 :: "crypto \<Rightarrow> bytes \<Rightarrow> bytes \<Rightarrow> bytes \<Rightarrow> bytes" where
  "derive_attr_key_v3 C shared e_pk digest =
     hkdf_sha256 C (Some (attribution_hkdf_salt e_pk digest)) shared ATTRIBUTION_HKDF_INFO"

definition encrypt :: "crypto \<Rightarrow> bytes \<Rightarrow> bytes \<Rightarrow> bytes \<Rightarrow> u8 \<Rightarrow> error + bytes" where
  "encrypt C key nonce plaintext version = ok_or (aead_encrypt C key nonce [version] plaintext) DecryptionFailed"

definition decrypt :: "crypto \<Rightarrow> bytes \<Rightarrow> bytes \<Rightarrow> bytes \<Rightarrow> u8 \<Rightarrow> error + bytes" where
  "decrypt C key nonce ciphertext version = ok_or (aead_decrypt C key nonce [version] ciphertext) DecryptionFailed"

definition jitter :: "bytes \<Rightarrow> u64 \<Rightarrow> u64" where
  "jitter rnd now = saturating_sub now (u64_from_le rnd mod (MAX_TIMESTAMP_JITTER_SECS + 1))"

section \<open>Attribution\<close>

datatype attribution_outcome = Absent | Valid | Invalid

record trusted_attribution_key =
  tk_key_id :: compliance_key_id
  tk_public_key :: bytes
  tk_not_before_ms :: u64
  tk_not_after_ms :: u64

definition trusted_key_new ::
  "compliance_key_id \<Rightarrow> bytes \<Rightarrow> u64 \<Rightarrow> u64 \<Rightarrow> error + trusted_attribution_key" where
  "trusted_key_new k public_key not_before not_after =
     (if \<not> is_ok (validate_attribution_epoch k not_before not_after)
      then Err (MalformedEnvelope ''invalid trusted attribution key'')
      else Ok \<lparr>tk_key_id = k, tk_public_key = public_key, tk_not_before_ms = not_before, tk_not_after_ms = not_after\<rparr>)"

definition validate_public_attribution_v3 :: "attribution_block \<Rightarrow> error + unit" where
  "validate_public_attribution_v3 block =
     (case block of
        V2 _ \<Rightarrow> Err (MalformedEnvelope ''v2 attribution on v3 envelope'')
      | V3 b \<Rightarrow>
          if b3_block_version b \<noteq> ATTRIBUTION_BLOCK_VERSION \<or> ck_purpose (b3_key_id b) \<noteq> Attribution
             \<or> \<not> is_ok (key_id_validate (b3_key_id b))
          then Err (MalformedEnvelope ''attribution version or key id'')
          else if b3_e_pk b = zeros 32 then Err InvalidKey
          else if b3_compliance_key_digest b = zeros 32 then Err (MalformedEnvelope ''empty compliance key digest'')
          else Ok ())"

definition build_attribution_v3 ::
  "crypto \<Rightarrow> bytes \<Rightarrow> identity \<Rightarrow> u64 \<Rightarrow> bytes \<Rightarrow> compliance_key_id \<Rightarrow> bytes \<Rightarrow> bytes \<Rightarrow> bytes
    \<Rightarrow> error + attribution_block_v3" where
  "build_attribution_v3 C nonce sender now p_c key_id e_sk event_id recipient =
     (let ephemeral = from_seed e_sk; e_pk = x25519_public C ephemeral; digest = sha256 C p_c in
      and_then (x25519_agree C ephemeral p_c) (\<lambda>shared.
      let k_attr = derive_attr_key_v3 C shared e_pk digest; sent_at_ms = saturating_mul now 1000 in
      and_then (map_err (attribution_signing_preimage ATTRIBUTION_BLOCK_VERSION key_id digest e_pk event_id recipient sent_at_ms)
                 (MalformedEnvelope ''attribution context'')) (\<lambda>preimage.
      let claim = \<lparr>cl_sender_pubkey = verifying_key C sender, cl_sent_at_ms = sent_at_ms,
                   cl_signature = sign C sender preimage\<rparr> in
      and_then (map_err (attribution_aad ATTRIBUTION_BLOCK_VERSION key_id digest e_pk event_id recipient)
                 (MalformedEnvelope ''attribution context'')) (\<lambda>aad.
      and_then (ok_or (aead_encrypt C k_attr nonce aad (claim_encode claim)) DecryptionFailed) (\<lambda>ciphertext.
      if length ciphertext \<noteq> ATTRIBUTION_CIPHERTEXT_LEN
      then Err (MalformedEnvelope ''attribution ciphertext length'')
      else Ok \<lparr>b3_block_version = ATTRIBUTION_BLOCK_VERSION, b3_key_id = key_id, b3_compliance_key_digest = digest,
               b3_e_pk = e_pk, b3_nonce = nonce, b3_ciphertext = ciphertext\<rparr>)))))"

definition verify_attribution_claim ::
  "crypto \<Rightarrow> attribution_block \<Rightarrow> bytes \<Rightarrow> bytes \<Rightarrow> bytes \<Rightarrow> bytes \<Rightarrow> u64 \<Rightarrow> bytes \<Rightarrow> error + attribution_claim" where
  "verify_attribution_claim C block e_sk p_c event_id recipient created_at expected_sender =
     (case block of
        V2 _ \<Rightarrow> Err (MalformedEnvelope ''legacy attribution is not compliance-valid'')
      | V3 b \<Rightarrow>
        if b3_block_version b \<noteq> ATTRIBUTION_BLOCK_VERSION \<or> \<not> is_ok (attribution_epoch_end_ms (b3_key_id b))
        then Err (MalformedEnvelope ''attribution version or key id'')
        else let ephemeral = from_seed e_sk in
        if x25519_public C ephemeral \<noteq> b3_e_pk b then Err (MalformedEnvelope ''attribution key mismatch'')
        else if b3_compliance_key_digest b \<noteq> sha256 C p_c then Err (MalformedEnvelope ''compliance key digest mismatch'')
        else and_then (x25519_agree C ephemeral p_c) (\<lambda>shared.
          let k_attr = derive_attr_key_v3 C shared (b3_e_pk b) (b3_compliance_key_digest b) in
          and_then (map_err (attribution_aad (b3_block_version b) (b3_key_id b) (b3_compliance_key_digest b) (b3_e_pk b) event_id recipient)
                     (MalformedEnvelope ''attribution context'')) (\<lambda>aad.
          and_then (ok_or (aead_decrypt C k_attr (b3_nonce b) aad (b3_ciphertext b)) DecryptionFailed) (\<lambda>plain.
          and_then (map_err (claim_decode plain) (MalformedEnvelope ''attribution claim'')) (\<lambda>claim.
          if cl_sender_pubkey claim \<noteq> expected_sender then Err SenderMismatch
          else and_then (verifying_key_from_bytes C (cl_sender_pubkey claim)) (\<lambda>claimed_sender.
          and_then (map_err (attribution_signing_preimage (b3_block_version b) (b3_key_id b) (b3_compliance_key_digest b)
                       (b3_e_pk b) event_id recipient (cl_sent_at_ms claim)) (MalformedEnvelope ''attribution context'')) (\<lambda>preimage.
          and_then (verify C claimed_sender preimage (cl_signature claim)) (\<lambda>_.
          and_then (ok_or (checked_mul created_at 1000) StaleTimestamp) (\<lambda>created_at_ms.
          let latest = saturating_add (saturating_add created_at_ms (saturating_mul MAX_TIMESTAMP_JITTER_SECS 1000))
                         MAX_ATTRIBUTION_CLOCK_SKEW_MS in
          if cl_sent_at_ms claim < created_at_ms \<or> latest < cl_sent_at_ms claim then Err StaleTimestamp
          else if attribution_epoch_contains (b3_key_id b) (cl_sent_at_ms claim) \<noteq> Ok True then Err StaleTimestamp
          else Ok claim)))))))))"

definition verify_attribution ::
  "crypto \<Rightarrow> attribution_block \<Rightarrow> bytes \<Rightarrow> bytes \<Rightarrow> bytes \<Rightarrow> bytes \<Rightarrow> u64 \<Rightarrow> bytes \<Rightarrow> error + unit" where
  "verify_attribution C block e_sk p_c event_id recipient created_at expected_sender =
     and_then (verify_attribution_claim C block e_sk p_c event_id recipient created_at expected_sender) (\<lambda>_. Ok ())"

section \<open>Publishing and opening\<close>

text \<open>The random values one wrap consumes, in the order the code draws them.\<close>

record wrap_entropy =
  we_seal_nonce :: bytes
  we_attribution_seed :: bytes
  we_ephemeral_seed :: bytes
  we_wrap_nonce :: bytes
  we_jitter :: bytes
  we_attribution_nonce :: bytes

definition verify_public :: "crypto \<Rightarrow> wrap \<Rightarrow> error + unit" where
  "verify_public C w =
     (if w_version w \<noteq> ENVELOPE_VERSION then Err (MalformedEnvelope ''v3 required for publish'')
      else and_then (verifying_key_from_bytes C (w_recipient w)) (\<lambda>_.
      and_then (verifying_key_from_bytes C (w_ephemeral_pubkey w)) (\<lambda>ephemeral.
      if length (w_ciphertext w) \<le> 16 \<or> \<not> PAD_BLOCK dvd length (w_ciphertext w) - 16
      then Err (MalformedEnvelope ''outer ciphertext length'')
      else and_then (case w_attribution w of Some b \<Rightarrow> validate_public_attribution_v3 b | None \<Rightarrow> Ok ()) (\<lambda>_.
      and_then (wrap_signing_payload_v3 (w_version w) (w_ephemeral_pubkey w) (w_recipient w) (w_created_at w) (w_nonce w)
                  (w_ciphertext w) (w_attribution w)) (\<lambda>payload.
      verify C ephemeral payload (w_signature w))))))"

definition wrap_inner ::
  "crypto \<Rightarrow> json_codec \<Rightarrow> wrap_entropy \<Rightarrow> identity \<Rightarrow> bytes \<Rightarrow> string \<Rightarrow> u64 \<Rightarrow> (bytes \<times> compliance_key_id) option
    \<Rightarrow> error + wrap" where
  "wrap_inner C J E sender recipient body now compliance =
     (if MAX_PLAINTEXT < length body then Err TooLarge
      else let rumor = \<lparr>ru_from = verifying_key C sender, ru_to = recipient, ru_created_at = now, ru_body = body\<rparr> in
      and_then (ok_or (map_option (to_vec J) (rumor_to_json rumor)) (MalformedEnvelope ''rumor'')) (\<lambda>rumor_bytes.
      and_then (agree C sender recipient) (\<lambda>shared.
      let seal_key = derive_key C shared HKDF_INFO_SEAL in
      and_then (encrypt C seal_key (we_seal_nonce E) (pad rumor_bytes) ENVELOPE_VERSION) (\<lambda>seal_ct.
      let attribution_sk = map_option (\<lambda>_. we_attribution_seed E) compliance;
          seal = \<lparr>sl_sender_pubkey = verifying_key C sender, sl_nonce = we_seal_nonce E, sl_ciphertext = seal_ct,
                  sl_attribution_sk = attribution_sk,
                  sl_signature = sign C sender (seal_signing_payload (we_seal_nonce E) seal_ct attribution_sk)\<rparr> in
      and_then (ok_or (map_option (to_vec J) (seal_to_json seal)) (MalformedEnvelope ''seal'')) (\<lambda>seal_bytes.
      let ephemeral = from_seed (we_ephemeral_seed E) in
      and_then (agree C ephemeral recipient) (\<lambda>shared.
      let wrap_key = derive_key C shared HKDF_INFO_WRAP; wrap_nonce = we_wrap_nonce E in
      and_then (encrypt C wrap_key wrap_nonce (pad seal_bytes) ENVELOPE_VERSION) (\<lambda>wrap_ct.
      let created_at = jitter (we_jitter E) now; ephemeral_pubkey = verifying_key C ephemeral;
          event_id = wrap_id_v3 C ENVELOPE_VERSION ephemeral_pubkey recipient wrap_nonce wrap_ct created_at in
      and_then (case (compliance, attribution_sk) of
          (Some (p_c, key_id), Some e_sk) \<Rightarrow>
            and_then (build_attribution_v3 C (we_attribution_nonce E) sender now p_c key_id e_sk event_id recipient)
              (\<lambda>b. Ok (Some (V3 b)))
        | (None, None) \<Rightarrow> Ok None
        | _ \<Rightarrow> Err (MalformedEnvelope ''attribution construction'')) (\<lambda>attribution.
      and_then (wrap_signing_payload_v3 ENVELOPE_VERSION ephemeral_pubkey recipient created_at wrap_nonce wrap_ct attribution) (\<lambda>payload.
      Ok \<lparr>w_version = ENVELOPE_VERSION, w_ephemeral_pubkey = ephemeral_pubkey, w_recipient = recipient,
          w_nonce = wrap_nonce, w_ciphertext = wrap_ct, w_created_at = created_at, w_signature = sign C ephemeral payload,
          w_pow_nonce = 0, w_attribution = attribution\<rparr>)))))))))"

definition wrap_message ::
  "crypto \<Rightarrow> json_codec \<Rightarrow> wrap_entropy \<Rightarrow> identity \<Rightarrow> bytes \<Rightarrow> string \<Rightarrow> u64 \<Rightarrow> error + wrap" where
  "wrap_message C J E sender recipient body now = wrap_inner C J E sender recipient body now None"

definition wrap_attributed ::
  "crypto \<Rightarrow> json_codec \<Rightarrow> wrap_entropy \<Rightarrow> identity \<Rightarrow> bytes \<Rightarrow> string \<Rightarrow> u64 \<Rightarrow> bytes \<Rightarrow> compliance_key_id
    \<Rightarrow> error + wrap" where
  "wrap_attributed C J E sender recipient body now p_c key_id =
     and_then (ok_or (checked_mul now 1000) (MalformedEnvelope ''invalid attribution send time'')) (\<lambda>sent_at_ms.
     if attribution_epoch_contains key_id sent_at_ms \<noteq> Ok True
     then Err (MalformedEnvelope ''invalid attribution key id'')
     else wrap_inner C J E sender recipient body now (Some (p_c, key_id)))"

definition judge_attribution ::
  "crypto \<Rightarrow> wrap \<Rightarrow> seal \<Rightarrow> bytes option \<Rightarrow> trusted_attribution_key option \<Rightarrow> attribution_outcome" where
  "judge_attribution C w seal expected_p_c trusted =
     (case (w_attribution w, sl_attribution_sk seal) of
        (None, _) \<Rightarrow> Absent
      | (Some block, sk) \<Rightarrow>
          if w_version w = LEGACY_ENVELOPE_VERSION then Invalid
          else if w_version w \<noteq> ENVELOPE_VERSION then Invalid
          else (case (sk, expected_p_c) of
              (Some e_sk, Some p_c) \<Rightarrow>
                (case verify_attribution_claim C block e_sk p_c (wrap_id C w) (w_recipient w) (w_created_at w) (sl_sender_pubkey seal) of
                   Inl _ \<Rightarrow> Invalid
                 | Inr claim \<Rightarrow>
                     if (case trusted of None \<Rightarrow> True
                         | Some key \<Rightarrow> (case as_v3 block of None \<Rightarrow> False | Some b \<Rightarrow> b3_key_id b = tk_key_id key)
                             \<and> tk_not_before_ms key \<le> cl_sent_at_ms claim \<and> cl_sent_at_ms claim < tk_not_after_ms key)
                     then Valid else Invalid)
            | _ \<Rightarrow> Invalid))"

definition open_attributed_inner ::
  "crypto \<Rightarrow> json_codec \<Rightarrow> identity \<Rightarrow> wrap \<Rightarrow> bytes option \<Rightarrow> trusted_attribution_key option
    \<Rightarrow> error + bytes \<times> string \<times> attribution_outcome" where
  "open_attributed_inner C J recipient w expected_p_c trusted =
     (if w_version w \<noteq> LEGACY_ENVELOPE_VERSION \<and> w_version w \<noteq> ENVELOPE_VERSION
      then Err (MalformedEnvelope ''unsupported version'')
      else if w_recipient w \<noteq> verifying_key C recipient then Err (MalformedEnvelope ''not addressed to this key'')
      else and_then (verifying_key_from_bytes C (w_ephemeral_pubkey w)) (\<lambda>ephemeral.
      and_then (if w_version w = LEGACY_ENVELOPE_VERSION
         then Ok (wrap_signing_payload_v2 (w_version w) (w_recipient w) (w_created_at w) (w_nonce w) (w_ciphertext w) (w_attribution w))
         else wrap_signing_payload_v3 (w_version w) (w_ephemeral_pubkey w) (w_recipient w) (w_created_at w) (w_nonce w)
                (w_ciphertext w) (w_attribution w)) (\<lambda>payload.
      and_then (verify C ephemeral payload (w_signature w)) (\<lambda>_.
      and_then (agree C recipient ephemeral) (\<lambda>shared.
      let wrap_key = derive_key C shared HKDF_INFO_WRAP in
      and_then (decrypt C wrap_key (w_nonce w) (w_ciphertext w) (w_version w)) (\<lambda>padded_seal.
      and_then (ok_or (Option.bind (from_slice J (unpad padded_seal)) seal_from_json) (MalformedEnvelope ''seal'')) (\<lambda>seal.
      and_then (verifying_key_from_bytes C (sl_sender_pubkey seal)) (\<lambda>sender.
      and_then (verify C sender (seal_signing_payload (sl_nonce seal) (sl_ciphertext seal) (sl_attribution_sk seal)) (sl_signature seal)) (\<lambda>_.
      and_then (agree C recipient sender) (\<lambda>shared.
      let seal_key = derive_key C shared HKDF_INFO_SEAL in
      and_then (decrypt C seal_key (sl_nonce seal) (sl_ciphertext seal) (w_version w)) (\<lambda>padded_rumor.
      and_then (ok_or (Option.bind (from_slice J (unpad padded_rumor)) rumor_from_json) (MalformedEnvelope ''rumor'')) (\<lambda>rumor.
      if ru_from rumor \<noteq> sl_sender_pubkey seal then Err SenderMismatch
      else if ru_to rumor \<noteq> verifying_key C recipient then Err (MalformedEnvelope ''rumor addressed elsewhere'')
      else Ok (sender, ru_body rumor, judge_attribution C w seal expected_p_c trusted)))))))))))))"

definition open_attributed ::
  "crypto \<Rightarrow> json_codec \<Rightarrow> identity \<Rightarrow> wrap \<Rightarrow> bytes option \<Rightarrow> error + bytes \<times> string \<times> attribution_outcome" where
  "open_attributed C J recipient w expected_p_c = open_attributed_inner C J recipient w expected_p_c None"

definition open_attributed_trusted ::
  "crypto \<Rightarrow> json_codec \<Rightarrow> identity \<Rightarrow> wrap \<Rightarrow> trusted_attribution_key option
    \<Rightarrow> error + bytes \<times> string \<times> attribution_outcome" where
  "open_attributed_trusted C J recipient w trusted =
     open_attributed_inner C J recipient w (map_option tk_public_key trusted) trusted"

definition open_wrap :: "crypto \<Rightarrow> json_codec \<Rightarrow> identity \<Rightarrow> wrap \<Rightarrow> error + bytes \<times> string" where
  "open_wrap C J recipient w =
     and_then (open_attributed C J recipient w None) (\<lambda>(sender, body, _). Ok (sender, body))"

section \<open>Padding\<close>

lemma pad_eq:
  "\<exists>k. pad m = u32_le (word_of_nat (length m)) @ m @ zeros k \<and> PAD_BLOCK dvd 4 + (length m + k) \<and> k < PAD_BLOCK"
proof -
  define t where "t = ((length m + 4 + (PAD_BLOCK - 1)) div PAD_BLOCK) * PAD_BLOCK"
  have "length m + 4 \<le> t" "t < length m + 4 + PAD_BLOCK"
    unfolding t_def PAD_BLOCK_def by linarith+
  moreover have "pad m = take t (u32_le (word_of_nat (length m)) @ m @ zeros (t - (length m + 4)))"
    by (simp only: pad_def Let_def t_def [symmetric]) (simp add: add.commute)
  moreover have "PAD_BLOCK dvd t" by (simp add: t_def)
  ultimately have "pad m = u32_le (word_of_nat (length m)) @ m @ zeros (t - (length m + 4))
      \<and> PAD_BLOCK dvd 4 + (length m + (t - (length m + 4))) \<and> t - (length m + 4) < PAD_BLOCK"
    by auto
  then show ?thesis by blast
qed

lemma unpad_pad:
  assumes "length m < 2 ^ 32"
  shows "unpad (pad m) = m"
proof -
  obtain k where "pad m = u32_le (word_of_nat (length m)) @ m @ zeros k" using pad_eq by blast
  then show ?thesis
    using assms by (simp add: unpad_def Let_def unat_of_nat take_bit_nat_eq_self)
qed

lemma pad_length: "PAD_BLOCK dvd length (pad m)" "length m + 4 \<le> length (pad m)" "length (pad m) < length m + 4 + PAD_BLOCK"
proof -
  obtain k where k: "pad m = u32_le (word_of_nat (length m)) @ m @ zeros k" "PAD_BLOCK dvd 4 + (length m + k)" "k < PAD_BLOCK"
    using pad_eq by blast
  then have "length (pad m) = 4 + (length m + k)" by simp
  with k show "PAD_BLOCK dvd length (pad m)" "length m + 4 \<le> length (pad m)" "length (pad m) < length m + 4 + PAD_BLOCK"
    by simp_all
qed

section \<open>Opening what was wrapped\<close>

abbreviation sealed_by :: "crypto \<Rightarrow> wrap_entropy \<Rightarrow> identity \<Rightarrow> bytes \<Rightarrow> bytes option \<Rightarrow> seal" where
  "sealed_by C E sender seal_ct sk \<equiv> \<lparr>sl_sender_pubkey = verifying_key C sender, sl_nonce = we_seal_nonce E,
     sl_ciphertext = seal_ct, sl_attribution_sk = sk,
     sl_signature = sign C sender (seal_signing_payload (we_seal_nonce E) seal_ct sk)\<rparr>"

lemma wrap_inner_Ok:
  assumes "wrap_inner C J E sender recipient body now compliance = Ok w"
  obtains rj shared seal_ct sj shared' wrap_ct payload where
    "length body \<le> MAX_PLAINTEXT"
    "rumor_to_json \<lparr>ru_from = verifying_key C sender, ru_to = recipient, ru_created_at = now, ru_body = body\<rparr> = Some rj"
    "agree C sender recipient = Ok shared"
    "encrypt C (derive_key C shared HKDF_INFO_SEAL) (we_seal_nonce E) (pad (to_vec J rj)) ENVELOPE_VERSION = Ok seal_ct"
    "seal_to_json (sealed_by C E sender seal_ct (map_option (\<lambda>_. we_attribution_seed E) compliance)) = Some sj"
    "agree C (from_seed (we_ephemeral_seed E)) recipient = Ok shared'"
    "encrypt C (derive_key C shared' HKDF_INFO_WRAP) (we_wrap_nonce E) (pad (to_vec J sj)) ENVELOPE_VERSION = Ok wrap_ct"
    "w_version w = ENVELOPE_VERSION" "w_recipient w = recipient" "w_nonce w = we_wrap_nonce E" "w_ciphertext w = wrap_ct"
    "w_ephemeral_pubkey w = verifying_key C (from_seed (we_ephemeral_seed E))"
    "w_created_at w = jitter (we_jitter E) now" "w_pow_nonce w = 0"
    "wrap_signing_payload_v3 ENVELOPE_VERSION (w_ephemeral_pubkey w) recipient (w_created_at w) (w_nonce w) (w_ciphertext w) (w_attribution w) = Ok payload"
    "w_signature w = sign C (from_seed (we_ephemeral_seed E)) payload"
    "case compliance of None \<Rightarrow> w_attribution w = None
     | Some (p_c, key_id) \<Rightarrow> \<exists>b. w_attribution w = Some (V3 b)
         \<and> build_attribution_v3 C (we_attribution_nonce E) sender now p_c key_id (we_attribution_seed E) (wrap_id C w) recipient = Ok b"
  using assms
  by (auto simp: wrap_inner_def result_simps Let_def wrap_id_def envelope_consts split: if_splits option.splits)

lemma rumor_json_wf:
  assumes "rumor_to_json r = Some j" "length (ru_from r) = 32" "length (ru_to r) = 32" "length (ru_body r) \<le> MAX_PLAINTEXT"
  shows "json_wf j \<and> json_size j < 2 ^ 31"
  using assms text_size_bounds(2) [of "ru_body r"]
  by (auto simp: rumor_to_json_def bind_eq_Some_conv compact_serialize_Some fits_u32_def envelope_consts simp del: json_wf.simps(3))

lemma seal_json_wf:
  assumes "seal_to_json s = Some j" "length (sl_sender_pubkey s) = 32" "length (sl_nonce s) = 24" "length (sl_signature s) = 64"
    "case sl_attribution_sk s of None \<Rightarrow> True | Some sk \<Rightarrow> length sk = 32"
  shows "json_wf j \<and> json_size j < 2 ^ 31"
  using assms
  by (auto simp: seal_to_json_def bind_eq_Some_conv compact_serialize_Some fits_u32_def envelope_consts split: option.splits)

lemma json_read_back:
  assumes "json_contract J" "json_wf j" "json_size j < 2 ^ 31"
  shows "from_slice J (unpad (pad (to_vec J j))) = Some j"
proof -
  have "length (to_vec J j) \<le> json_size j" using assms(1,2) by (simp add: json_contract_def)
  then have "length (to_vec J j) < 2 ^ 32" using assms(3) by simp
  then show ?thesis using assms by (simp add: unpad_pad json_contract_def)
qed

lemma decrypt_encrypt: "aead_contract C \<Longrightarrow> encrypt C k n m v = Ok c \<Longrightarrow> decrypt C k n c v = Ok m"
  by (auto simp: aead_contract_def encrypt_def decrypt_def) (metis option.inject)

definition entropy_wf :: "wrap_entropy \<Rightarrow> bool" where
  "entropy_wf E \<longleftrightarrow> length (we_seal_nonce E) = 24 \<and> length (we_attribution_seed E) = 32
     \<and> length (we_ephemeral_seed E) = 32 \<and> length (we_wrap_nonce E) = 24 \<and> length (we_jitter E) = 8
     \<and> length (we_attribution_nonce E) = 24"

lemma agree_back:
  assumes "agreement_contract C" "length (seed a) = 32" "length (seed b) = 32" "agree C a (verifying_key C b) = Ok k"
  shows "agree C b (verifying_key C a) = Ok k"
  using agree_symmetric [OF assms(1-3)] assms(4) by auto

lemma open_wrapped:
  assumes "signature_contract C" "agreement_contract C" "aead_contract C" "json_contract J"
    and "length (seed sender) = 32" "length (seed R) = 32" "entropy_wf E"
    and "wrap_inner C J E sender (verifying_key C R) body now compliance = Ok w"
  shows "\<exists>seal_ct. open_attributed_inner C J R w p_c trusted =
    Ok (verifying_key C sender, body,
        judge_attribution C w (sealed_by C E sender seal_ct (map_option (\<lambda>_. we_attribution_seed E) compliance)) p_c trusted)"
  using assms(8)
proof (rule wrap_inner_Ok)
  fix rj shared seal_ct sj shared' wrap_ct payload
  let ?seal = "sealed_by C E sender seal_ct (map_option (\<lambda>_. we_attribution_seed E) compliance)"
  assume "length body \<le> MAX_PLAINTEXT" and
    rj: "rumor_to_json \<lparr>ru_from = verifying_key C sender, ru_to = verifying_key C R, ru_created_at = now, ru_body = body\<rparr> = Some rj"
    and a: "agree C sender (verifying_key C R) = Ok shared"
    and enc: "encrypt C (derive_key C shared HKDF_INFO_SEAL) (we_seal_nonce E) (pad (to_vec J rj)) ENVELOPE_VERSION = Ok seal_ct"
    and sj: "seal_to_json ?seal = Some sj"
    and a': "agree C (from_seed (we_ephemeral_seed E)) (verifying_key C R) = Ok shared'"
    and enc': "encrypt C (derive_key C shared' HKDF_INFO_WRAP) (we_wrap_nonce E) (pad (to_vec J sj)) ENVELOPE_VERSION = Ok wrap_ct"
    and w: "w_version w = ENVELOPE_VERSION" "w_recipient w = verifying_key C R" "w_nonce w = we_wrap_nonce E" "w_ciphertext w = wrap_ct"
      "w_ephemeral_pubkey w = verifying_key C (from_seed (we_ephemeral_seed E))"
    and payload: "wrap_signing_payload_v3 ENVELOPE_VERSION (w_ephemeral_pubkey w) (verifying_key C R) (w_created_at w) (w_nonce w) (w_ciphertext w) (w_attribution w) = Ok payload"
      "w_signature w = sign C (from_seed (we_ephemeral_seed E)) payload"
  have E: "length (we_seal_nonce E) = 24" "length (we_attribution_seed E) = 32" "length (seed (from_seed (we_ephemeral_seed E))) = 32"
    using assms(7) by (simp_all add: entropy_wf_def from_seed_def)
  note s = signature_contractD [OF assms(1,5)] and r = signature_contractD [OF assms(1,6)] and e = signature_contractD [OF assms(1) E(3)]
  have "from_slice J (unpad (pad (to_vec J rj))) = Some rj"
    using rumor_json_wf [OF rj] json_read_back [OF assms(4)] s(1) r(1) \<open>length body \<le> MAX_PLAINTEXT\<close> by simp
  moreover have "rumor_from_json rj = Some \<lparr>ru_from = verifying_key C sender, ru_to = verifying_key C R, ru_created_at = now, ru_body = body\<rparr>"
    using rumor_round_trip [OF _ _ rj] s(1) r(1) by simp
  moreover have sk: "case sl_attribution_sk ?seal of None \<Rightarrow> True | Some sk \<Rightarrow> length sk = 32"
    using E(2) by (auto split: option.splits)
  then have "from_slice J (unpad (pad (to_vec J sj))) = Some sj"
    using seal_json_wf [OF sj] json_read_back [OF assms(4)] s(1,3) E(1) by simp
  moreover have "seal_from_json sj = Some ?seal"
    using seal_round_trip [OF _ _ _ _ sj] sk s(1,3) E(1) by simp
  moreover note decrypt_encrypt [OF assms(3) enc] decrypt_encrypt [OF assms(3) enc']
    agree_back [OF assms(2,5,6) a] agree_back [OF assms(2) E(3) assms(6) a']
  ultimately have "open_attributed_inner C J R w p_c trusted = Ok (verifying_key C sender, body, judge_attribution C w ?seal p_c trusted)"
    using w payload s e by (simp add: open_attributed_inner_def Let_def) (simp add: envelope_consts)
  then show ?thesis by blast
qed

section \<open>Attribution round trip\<close>

lemma epoch_contains_True:
  "attribution_epoch_contains k t = Ok True \<longleftrightarrow>
     (\<exists>e. attribution_epoch_end_ms k = Ok e \<and> ck_epoch_start_ms k \<le> t \<and> t < e)"
  by (auto simp: attribution_epoch_contains_def result_simps)

lemma jitter_bounds: "unat (jitter rnd now) \<le> unat now" "unat now \<le> unat (jitter rnd now) + 172800"
proof -
  have "u64_from_le rnd mod 172801 < 172801" by (rule word_mod_less_divisor) (simp add: word_gt_0)
  then have "unat (u64_from_le rnd mod 172801) \<le> 172800" by (simp add: word_less_nat_alt)
  then show "unat (jitter rnd now) \<le> unat now" "unat now \<le> unat (jitter rnd now) + 172800"
    by (auto simp: jitter_def MAX_TIMESTAMP_JITTER_SECS_def unat_saturating_sub)
qed

lemma sent_time_window:
  assumes "checked_mul now 1000 = Some sent" "created = jitter rnd now"
  shows "\<exists>c. checked_mul created 1000 = Some c \<and> c \<le> sent
    \<and> \<not> saturating_add (saturating_add c (saturating_mul MAX_TIMESTAMP_JITTER_SECS 1000)) MAX_ATTRIBUTION_CLOCK_SKEW_MS < sent"
proof -
  have j: "unat created \<le> unat now" "unat now \<le> unat created + 172800"
    using jitter_bounds [where rnd = rnd and now = now] by (simp_all add: assms(2))
  have now: "unat now * 1000 < 2 ^ 64" "unat sent = unat now * 1000"
    using assms(1) checked_mul_Some [OF assms(1)] by (auto simp: checked_mul_def split: if_splits)
  then have fits: "unat created * 1000 < 2 ^ 64" using j(1) by linarith
  define c where "c = created * 1000"
  have c: "checked_mul created 1000 = Some c" using fits by (simp add: checked_mul_def c_def)
  from checked_mul_Some [OF this] have uc: "unat c = unat created * 1000" by simp
  have "saturating_mul MAX_TIMESTAMP_JITTER_SECS 1000 = (172800000 :: u64)"
    by (simp add: saturating_mul_def MAX_TIMESTAMP_JITTER_SECS_def)
  then have "\<not> saturating_add (saturating_add c (saturating_mul MAX_TIMESTAMP_JITTER_SECS 1000)) MAX_ATTRIBUTION_CLOCK_SKEW_MS < sent"
    using j(2) uc now unat_lt2p [of sent]
    by (simp add: word_less_nat_alt unat_saturating_add MAX_ATTRIBUTION_CLOCK_SKEW_MS_def)
  moreover have "c \<le> sent" using uc now(2) j(1) by (simp add: word_le_nat_alt)
  ultimately show ?thesis using c by blast
qed

lemma build_verifies:
  assumes "signature_contract C" "aead_contract C" "length (seed sender) = 32"
    and "checked_mul now 1000 = Some sent" "attribution_epoch_contains key_id sent = Ok True"
    and "build_attribution_v3 C nonce sender now p_c key_id e_sk event_id recipient = Ok b"
  shows "\<exists>claim. verify_attribution_claim C (V3 b) e_sk p_c event_id recipient (jitter rnd now) (verifying_key C sender) = Ok claim
    \<and> cl_sent_at_ms claim = sent"
proof -
  have sat: "saturating_mul now 1000 = sent"
    using assms(4) by (auto simp: checked_mul_def saturating_mul_def split: if_splits)
  obtain ep where ep: "attribution_epoch_end_ms key_id = Ok ep" using assms(5) by (auto simp: epoch_contains_True)
  obtain c where c: "checked_mul (jitter rnd now) 1000 = Some c" "c \<le> sent"
    "\<not> saturating_add (saturating_add c (saturating_mul MAX_TIMESTAMP_JITTER_SECS 1000)) MAX_ATTRIBUTION_CLOCK_SKEW_MS < sent"
    using sent_time_window [OF assms(4) refl] by blast
  note s = signature_contractD [OF assms(1,3)]
  let ?e = "x25519_public C (from_seed e_sk)" and ?d = "sha256 C p_c"
  from assms(6) obtain shared preimage aad ct where
    b: "x25519_agree C (from_seed e_sk) p_c = Ok shared"
      "attribution_signing_preimage ATTRIBUTION_BLOCK_VERSION key_id ?d ?e event_id recipient sent = Ok preimage"
      "attribution_aad ATTRIBUTION_BLOCK_VERSION key_id ?d ?e event_id recipient = Ok aad"
      "aead_encrypt C (derive_attr_key_v3 C shared ?e ?d) nonce aad
         (claim_encode \<lparr>cl_sender_pubkey = verifying_key C sender, cl_sent_at_ms = sent, cl_signature = sign C sender preimage\<rparr>) = Some ct"
      "b = \<lparr>b3_block_version = ATTRIBUTION_BLOCK_VERSION, b3_key_id = key_id, b3_compliance_key_digest = ?d,
            b3_e_pk = ?e, b3_nonce = nonce, b3_ciphertext = ct\<rparr>"
    by (auto simp: build_attribution_v3_def result_simps Let_def sat split: if_splits)
  let ?claim = "\<lparr>cl_sender_pubkey = verifying_key C sender, cl_sent_at_ms = sent, cl_signature = sign C sender preimage\<rparr>"
  have "aead_decrypt C (derive_attr_key_v3 C shared ?e ?d) nonce aad ct = Some (claim_encode ?claim)"
    using assms(2) b(4) by (auto simp: aead_contract_def) (metis option.inject)
  moreover have "claim_decode (claim_encode ?claim) = Ok ?claim"
    using claim_codec.enc_dec [of ?claim] s(1,3) by (simp add: claim_wf_def)
  ultimately have "verify_attribution_claim C (V3 b) e_sk p_c event_id recipient (jitter rnd now) (verifying_key C sender) = Ok ?claim"
    using b c s assms(5) by (simp add: verify_attribution_claim_def Let_def ep)
  then show ?thesis by auto
qed

section \<open>Wrapping always succeeds\<close>

lemma rumor_json_total:
  assumes "length (ru_from r) = 32" "length (ru_to r) = 32"
  shows "\<exists>j. rumor_to_json r = Some j \<and> json_size j \<le> 2000 + 6 * length (ru_body r)"
  using assms text_size_bounds(2) [of "ru_body r"] by (simp add: rumor_to_json_def compact_serialize_def envelope_consts length_to_hex)

lemma encrypt_total:
  assumes "aead_contract C"
  shows "\<exists>c. encrypt C k n m v = Ok c \<and> length c = length m + 16"
proof -
  obtain c where "aead_encrypt C k n [v] m = Some c \<and> length c = length m + 16"
    using assms unfolding aead_contract_def by blast
  then show ?thesis by (simp add: encrypt_def)
qed

lemma build_total:
  assumes "signature_contract C" "aead_contract C" "length (seed sender) = 32" "key_id_wf key_id"
    and "x25519_agree C (from_seed e_sk) p_c = Ok shared"
  shows "\<exists>b. build_attribution_v3 C nonce sender now p_c key_id e_sk event_id recipient = Ok b \<and> b3_key_id b = key_id"
proof -
  obtain preimage aad where p:
    "attribution_signing_preimage ATTRIBUTION_BLOCK_VERSION key_id (sha256 C p_c) (x25519_public C (from_seed e_sk)) event_id recipient
      (saturating_mul now 1000) = Ok preimage"
    "attribution_aad ATTRIBUTION_BLOCK_VERSION key_id (sha256 C p_c) (x25519_public C (from_seed e_sk)) event_id recipient = Ok aad"
    using assms(4) by (simp add: attribution_signing_preimage_def attribution_aad_def validate_block_version_def key_id_encode_wf)
  let ?claim = "claim_encode \<lparr>cl_sender_pubkey = verifying_key C sender, cl_sent_at_ms = saturating_mul now 1000,
      cl_signature = sign C sender preimage\<rparr>"
  have "length ?claim = 104" using signature_contractD [OF assms(1,3)] by (simp add: claim_encode_def)
  moreover obtain c where "aead_encrypt C (derive_attr_key_v3 C shared (x25519_public C (from_seed e_sk)) (sha256 C p_c)) nonce aad ?claim = Some c"
      "length c = length ?claim + 16"
    using assms(2) unfolding aead_contract_def by blast
  ultimately show ?thesis
    using p assms(5) by (simp add: build_attribution_v3_def Let_def ATTRIBUTION_CIPHERTEXT_LEN_def ATTRIBUTION_CLAIM_LEN_def)
qed

lemma wrap_inner_total:
  assumes "signature_contract C" "agreement_contract C" "aead_contract C" "json_contract J"
    and "length (seed sender) = 32" "length (seed R) = 32" "entropy_wf E" "length body \<le> MAX_PLAINTEXT"
    and "case compliance of None \<Rightarrow> True | Some (p_c, key_id) \<Rightarrow>
      key_id_wf key_id \<and> is_ok (x25519_agree C (from_seed (we_attribution_seed E)) p_c)"
  shows "\<exists>w. wrap_inner C J E sender (verifying_key C R) body now compliance = Ok w"
proof -
  note s = signature_contractD [OF assms(1,5)] and r = signature_contractD [OF assms(1,6)]
  let ?rumor = "\<lparr>ru_from = verifying_key C sender, ru_to = verifying_key C R, ru_created_at = now, ru_body = body\<rparr>"
  obtain rj where rj: "rumor_to_json ?rumor = Some rj" "json_size rj \<le> 2000 + 6 * length body"
    using rumor_json_total [of ?rumor] s(1) r(1) by auto
  obtain k where k: "agree C sender (verifying_key C R) = Ok k" using agree_symmetric [OF assms(2,5,6)] by blast
  obtain k' where k': "agree C (from_seed (we_ephemeral_seed E)) (verifying_key C R) = Ok k'"
    using agree_symmetric [OF assms(2) _ assms(6), of "from_seed (we_ephemeral_seed E)"] assms(7)
    by (auto simp: entropy_wf_def from_seed_def)
  obtain sct where sct: "encrypt C (derive_key C k HKDF_INFO_SEAL) (we_seal_nonce E) (pad (to_vec J rj)) ENVELOPE_VERSION = Ok sct"
    "length sct = length (pad (to_vec J rj)) + 16" using encrypt_total [OF assms(3)] by blast
  have "length (to_vec J rj) \<le> json_size rj"
    using rumor_json_wf [OF rj(1)] s(1) r(1) assms(4,8) by (simp add: json_contract_def)
  then have "length sct \<le> MAX_ENVELOPE_CIPHERTEXT"
    using pad_length(3) [of "to_vec J rj"] rj(2) assms(8) sct(2) by (simp add: envelope_consts)
  then obtain sj where sj: "seal_to_json (sealed_by C E sender sct (map_option (\<lambda>_. we_attribution_seed E) compliance)) = Some sj"
    using s(1,3) assms(7)
    by (cases compliance) (simp_all add: seal_to_json_def compact_serialize_def entropy_wf_def envelope_consts)
  obtain wct where wct: "encrypt C (derive_key C k' HKDF_INFO_WRAP) (we_wrap_nonce E) (pad (to_vec J sj)) ENVELOPE_VERSION = Ok wct"
    using encrypt_total [OF assms(3)] by blast
  show ?thesis
  proof (cases compliance)
    case None
    then show ?thesis using assms(8) rj k sct sj k' wct
      by (simp add: wrap_inner_def Let_def wrap_signing_payload_v3_def)
  next
    case (Some c)
    obtain p_c key_id where c: "c = (p_c, key_id)" by (cases c)
    then obtain sh where wf: "key_id_wf key_id" and sh: "x25519_agree C (from_seed (we_attribution_seed E)) p_c = Ok sh"
      using assms(9) Some by (auto simp: is_ok_iff)
    let ?id = "wrap_id_v3 C ENVELOPE_VERSION (verifying_key C (from_seed (we_ephemeral_seed E))) (verifying_key C R) (we_wrap_nonce E) wct
      (jitter (we_jitter E) now)"
    obtain b where "build_attribution_v3 C (we_attribution_nonce E) sender now p_c key_id (we_attribution_seed E) ?id (verifying_key C R) = Ok b"
        "b3_key_id b = key_id"
      using build_total [OF assms(1,3,5) wf sh] by blast
    with Some c assms(8) rj k sct sj k' wct key_id_encode_wf [OF wf] show ?thesis
      by (simp add: wrap_inner_def Let_def wrap_signing_payload_v3_def)
  qed
qed

section \<open>What the wrap signature binds\<close>

lemma u64_len_inject:
  assumes "length x \<le> MAX_ENVELOPE_CIPHERTEXT" "length y \<le> MAX_ENVELOPE_CIPHERTEXT"
  shows "u64_len x = u64_len y \<longleftrightarrow> length x = length y"
proof -
  have "unat (u64_len x) = length x" "unat (u64_len y) = length y"
    using assms by (simp_all add: u64_len_def envelope_consts unat_of_nat take_bit_nat_eq_self)
  then show ?thesis by (metis u64_len_def)
qed

lemma ciphertext_field_cancel:
  assumes "length x \<le> MAX_ENVELOPE_CIPHERTEXT" "length y \<le> MAX_ENVELOPE_CIPHERTEXT"
  shows "u64_be (u64_len x) @ x @ r = u64_be (u64_len y) @ y @ s \<longleftrightarrow> x = y \<and> r = s"
proof
  assume eq: "u64_be (u64_len x) @ x @ r = u64_be (u64_len y) @ y @ s"
  then have "length x = length y" using u64_len_inject [OF assms] by simp
  with eq show "x = y \<and> r = s" by simp
qed simp

definition public_payload :: "wrap \<Rightarrow> error + bytes" where
  "public_payload w = wrap_signing_payload_v3 (w_version w) (w_ephemeral_pubkey w) (w_recipient w) (w_created_at w)
     (w_nonce w) (w_ciphertext w) (w_attribution w)"

abbreviation block_field :: "attribution_block_v3 \<Rightarrow> bytes \<Rightarrow> bytes" where
  "block_field b e \<equiv> [1, b3_block_version b] @ e @ b3_compliance_key_digest b @ b3_e_pk b @ b3_nonce b @ b3_ciphertext b"

lemma public_payload_Ok:
  assumes "public_payload w = Ok m"
  obtains t where "m = SIG_DOMAIN_WRAP_V3 @ [w_version w] @ w_ephemeral_pubkey w @ w_recipient w @ w_nonce w
      @ u64_be (u64_len (w_ciphertext w)) @ w_ciphertext w @ u64_be (w_created_at w) @ t"
    "w_attribution w = None \<and> t = [0]
     \<or> (\<exists>b e. w_attribution w = Some (V3 b) \<and> key_id_encode (b3_key_id b) = Ok e \<and> t = block_field b e)"
  using assms
  by (auto simp: public_payload_def wrap_signing_payload_v3_def result_simps split: option.splits attribution_block.splits)

lemma block_field_inject:
  assumes "block_wf (V3 b)" "block_wf (V3 c)" "key_id_encode (b3_key_id b) = Ok e" "key_id_encode (b3_key_id c) = Ok f"
    and "block_field b e = block_field c f"
  shows "b = c"
proof -
  have len: "length e = 47" "length f = 47"
    using assms(1-4) by (auto simp: block_wf_def key_id_wf_def intro: key_id_encode_length)
  then have ef: "e = f" and rest: "b3_compliance_key_digest b = b3_compliance_key_digest c" "b3_e_pk b = b3_e_pk c"
      "b3_nonce b = b3_nonce c" "b3_ciphertext b = b3_ciphertext c" "b3_block_version b = b3_block_version c"
    using assms(1,2,5) by (auto simp: block_wf_def)
  from ef have "b3_key_id b = b3_key_id c"
    using assms(1-4) key_id_codec.enc_inj_on [of "b3_key_id b" "b3_key_id c"] by (simp add: block_wf_def)
  with rest show ?thesis by simp
qed

lemma public_payload_inject:
  assumes "wrap_wf w" "wrap_wf v" "public_payload w = Ok m" "public_payload v = Ok m"
    and "length (w_ciphertext w) \<le> MAX_ENVELOPE_CIPHERTEXT" "length (w_ciphertext v) \<le> MAX_ENVELOPE_CIPHERTEXT"
  shows "v = w\<lparr>w_signature := w_signature v, w_pow_nonce := w_pow_nonce v\<rparr>"
proof -
  obtain t where t: "m = SIG_DOMAIN_WRAP_V3 @ [w_version w] @ w_ephemeral_pubkey w @ w_recipient w @ w_nonce w
      @ u64_be (u64_len (w_ciphertext w)) @ w_ciphertext w @ u64_be (w_created_at w) @ t"
    "w_attribution w = None \<and> t = [0]
     \<or> (\<exists>b e. w_attribution w = Some (V3 b) \<and> key_id_encode (b3_key_id b) = Ok e \<and> t = block_field b e)"
    using assms(3) by (rule public_payload_Ok)
  obtain s where s: "m = SIG_DOMAIN_WRAP_V3 @ [w_version v] @ w_ephemeral_pubkey v @ w_recipient v @ w_nonce v
      @ u64_be (u64_len (w_ciphertext v)) @ w_ciphertext v @ u64_be (w_created_at v) @ s"
    "w_attribution v = None \<and> s = [0]
     \<or> (\<exists>b e. w_attribution v = Some (V3 b) \<and> key_id_encode (b3_key_id b) = Ok e \<and> s = block_field b e)"
    using assms(4) by (rule public_payload_Ok)
  have "w_version w = w_version v \<and> w_ephemeral_pubkey w = w_ephemeral_pubkey v \<and> w_recipient w = w_recipient v
      \<and> w_nonce w = w_nonce v \<and> u64_be (u64_len (w_ciphertext w)) @ w_ciphertext w @ (u64_be (w_created_at w) @ t)
        = u64_be (u64_len (w_ciphertext v)) @ w_ciphertext v @ (u64_be (w_created_at v) @ s)"
    using t(1) s(1) assms(1,2) by (simp add: wrap_wf_def)
  then have core: "w_version w = w_version v" "w_ephemeral_pubkey w = w_ephemeral_pubkey v" "w_recipient w = w_recipient v"
      "w_nonce w = w_nonce v" "w_ciphertext w = w_ciphertext v" "w_created_at w = w_created_at v" "t = s"
    by (simp_all add: ciphertext_field_cancel [OF assms(5,6)])
  have "w_attribution w = w_attribution v"
    using t(2) s(2) core(7) assms(1,2) block_field_inject by (force simp: wrap_wf_def)
  with core show ?thesis by simp
qed

section \<open>Properties\<close>

lemma judge_legacy: "w_version w = LEGACY_ENVELOPE_VERSION \<Longrightarrow> judge_attribution C w seal p_c trusted \<noteq> Valid"
  by (auto simp: judge_attribution_def split: option.splits)

lemma delivered:
  assumes "signature_contract C" "agreement_contract C" "aead_contract C" "json_contract J"
    and "length (seed sender) = 32" "length (seed R) = 32" "entropy_wf E"
  shows "if length body \<le> MAX_PLAINTEXT
    then \<exists>w. wrap_message C J E sender (verifying_key C R) body now = Ok w \<and> verify_public C w = Ok ()
      \<and> open_wrap C J R w = Ok (verifying_key C sender, body)
    else wrap_message C J E sender (verifying_key C R) body now = Err TooLarge"
proof (cases "length body \<le> MAX_PLAINTEXT")
  case True
  obtain w where w: "wrap_inner C J E sender (verifying_key C R) body now None = Ok w"
    using wrap_inner_total [OF assms True, of None now] by auto
  have "open_wrap C J R w = Ok (verifying_key C sender, body)"
    using open_wrapped [OF assms w, of None None] by (auto simp: open_wrap_def open_attributed_def)
  moreover have "verify_public C w = Ok ()"
    using w
  proof (rule wrap_inner_Ok)
    fix sj shared' wrap_ct payload
    assume enc: "encrypt C (derive_key C shared' HKDF_INFO_WRAP) (we_wrap_nonce E) (pad (to_vec J sj)) ENVELOPE_VERSION = Ok wrap_ct"
      and eq: "w_version w = ENVELOPE_VERSION" "w_recipient w = verifying_key C R" "w_ciphertext w = wrap_ct"
        "w_ephemeral_pubkey w = verifying_key C (from_seed (we_ephemeral_seed E))"
        "case None of None \<Rightarrow> w_attribution w = None | Some (p, k) \<Rightarrow> \<exists>b. w_attribution w = Some (V3 b)
         \<and> build_attribution_v3 C (we_attribution_nonce E) sender now p k (we_attribution_seed E) (wrap_id C w) (verifying_key C R) = Ok b"
      and payload: "wrap_signing_payload_v3 ENVELOPE_VERSION (w_ephemeral_pubkey w) (verifying_key C R) (w_created_at w) (w_nonce w) (w_ciphertext w) (w_attribution w) = Ok payload"
        "w_signature w = sign C (from_seed (we_ephemeral_seed E)) payload"
    have "length (seed (from_seed (we_ephemeral_seed E))) = 32" using assms(7) by (simp add: entropy_wf_def from_seed_def)
    note e = signature_contractD [OF assms(1) this] and r = signature_contractD [OF assms(1,6)]
    have "length wrap_ct = length (pad (to_vec J sj)) + 16"
      using encrypt_total [OF assms(3)] enc by (metis sum.inject(2))
    then have "16 < length wrap_ct" "PAD_BLOCK dvd length wrap_ct - 16"
      using pad_length [of "to_vec J sj"] by auto
    then show ?thesis
      using eq payload e r by (simp add: verify_public_def)
  qed
  ultimately show ?thesis using w True by (auto simp: wrap_message_def)
qed (simp add: wrap_message_def wrap_inner_def)

text \<open>C7. A message of at most 64 KiB can always be sealed and wrapped, the wrap passes the public checks of a
  loft, and the recipient opens it to exactly the sender's key and the body; a longer message is refused.\<close>

theorem wrap_delivers:
  assumes "signature_contract C" "agreement_contract C" "aead_contract C" "json_contract J"
    and "length (seed sender) = 32" "length (seed R) = 32" "entropy_wf E"
  shows "if length body \<le> MAX_PLAINTEXT
    then \<exists>w. wrap_message C J E sender (verifying_key C R) body now = Ok w \<and> verify_public C w = Ok ()
      \<and> open_wrap C J R w = Ok (verifying_key C sender, body)
    else wrap_message C J E sender (verifying_key C R) body now = Err TooLarge"
  using assms by (rule delivered)

lemma attributed_judged:
  assumes "signature_contract C" "agreement_contract C" "aead_contract C" "json_contract J"
    and "length (seed sender) = 32" "length (seed R) = 32" "entropy_wf E"
    and "wrap_attributed C J E sender (verifying_key C R) body now p_c key_id = Ok w"
    and "trusted_key_new key_id p_c not_before not_after = Ok trusted"
  shows "\<exists>seal. judge_attribution C w seal (Some p_c) (Some trusted) = Valid
    \<and> open_attributed_trusted C J R w (Some trusted) = Ok (verifying_key C sender, body, Valid)"
proof -
  obtain sent where sent: "checked_mul now 1000 = Some sent" "attribution_epoch_contains key_id sent = Ok True"
    and w: "wrap_inner C J E sender (verifying_key C R) body now (Some (p_c, key_id)) = Ok w"
    using assms(8) by (auto simp: wrap_attributed_def result_simps split: if_splits)
  obtain seal_ct where o: "open_attributed_inner C J R w (Some p_c) (Some trusted) = Ok (verifying_key C sender, body,
      judge_attribution C w (sealed_by C E sender seal_ct (Some (we_attribution_seed E))) (Some p_c) (Some trusted))"
    using open_wrapped [OF assms(1-7) w] by auto
  obtain b where b: "w_attribution w = Some (V3 b)" "w_version w = ENVELOPE_VERSION" "w_recipient w = verifying_key C R"
      "w_created_at w = jitter (we_jitter E) now" and
      build: "build_attribution_v3 C (we_attribution_nonce E) sender now p_c key_id (we_attribution_seed E) (wrap_id C w) (verifying_key C R) = Ok b"
    using wrap_inner_Ok [OF w] by force
  have "b3_key_id b = key_id" using build by (auto simp: build_attribution_v3_def result_simps Let_def split: if_splits)
  moreover have t: "tk_key_id trusted = key_id" "tk_public_key trusted = p_c"
    "tk_not_before_ms trusted \<le> sent" "sent < tk_not_after_ms trusted"
    using assms(9) sent(2)
    by (auto simp: trusted_key_new_def validate_attribution_epoch_def is_ok_iff result_simps epoch_contains_True split: if_splits)
  moreover obtain claim where "verify_attribution_claim C (V3 b) (we_attribution_seed E) p_c (wrap_id C w) (verifying_key C R)
      (jitter (we_jitter E) now) (verifying_key C sender) = Ok claim" "cl_sent_at_ms claim = sent"
    using build_verifies [OF assms(1,3,5) sent build] by blast
  ultimately have "judge_attribution C w (sealed_by C E sender seal_ct (Some (we_attribution_seed E))) (Some p_c) (Some trusted) = Valid"
    using b by (simp add: judge_attribution_def envelope_consts)
  with o t(2) show ?thesis by (auto simp: open_attributed_trusted_def)
qed

text \<open>An attributed message opens as attributed: when the sender escrowed to the registry key of the month
  of sending, the recipient that trusts that key judges the block valid, whatever jitter was applied.\<close>

theorem attributed_wrap_valid:
  assumes "signature_contract C" "agreement_contract C" "aead_contract C" "json_contract J"
    and "length (seed sender) = 32" "length (seed R) = 32" "entropy_wf E"
    and "wrap_attributed C J E sender (verifying_key C R) body now p_c key_id = Ok w"
    and "trusted_key_new key_id p_c not_before not_after = Ok trusted"
  shows "open_attributed_trusted C J R w (Some trusted) = Ok (verifying_key C sender, body, Valid)"
  using attributed_judged [OF assms] by blast

text \<open>C32. Opening authenticates the sender: the reported key signed the seal that was inside the wrap, the rumor
  names that key as its author and the recipient as its addressee, and the wrap was addressed to the recipient
  and signed by its ephemeral key over every public field.\<close>

theorem opened_message_authentic:
  assumes "open_attributed_inner C J R w p_c trusted = Ok (k, body, a)"
  shows "\<exists>shared padded seal shared' padded' rumor m.
    w_recipient w = verifying_key C R \<and> ed_verify_strict C (w_ephemeral_pubkey w) m (w_signature w)
    \<and> (w_version w = ENVELOPE_VERSION \<longrightarrow> public_payload w = Ok m)
    \<and> agree C R (w_ephemeral_pubkey w) = Ok shared
    \<and> decrypt C (derive_key C shared HKDF_INFO_WRAP) (w_nonce w) (w_ciphertext w) (w_version w) = Ok padded
    \<and> Option.bind (from_slice J (unpad padded)) seal_from_json = Some seal
    \<and> ed_verify_strict C k (seal_signing_payload (sl_nonce seal) (sl_ciphertext seal) (sl_attribution_sk seal)) (sl_signature seal)
    \<and> agree C R k = Ok shared'
    \<and> decrypt C (derive_key C shared' HKDF_INFO_SEAL) (sl_nonce seal) (sl_ciphertext seal) (w_version w) = Ok padded'
    \<and> Option.bind (from_slice J (unpad padded')) rumor_from_json = Some rumor
    \<and> sl_sender_pubkey seal = k \<and> ru_from rumor = k \<and> ru_to rumor = verifying_key C R \<and> ru_body rumor = body
    \<and> (w_version w = LEGACY_ENVELOPE_VERSION \<longrightarrow> a \<noteq> Valid)"
  using assms
  by (auto simp: open_attributed_inner_def public_payload_def result_simps Let_def verify_Ok verifying_key_from_bytes_Ok
      judge_legacy ENVELOPE_VERSION_def LEGACY_ENVELOPE_VERSION_def split: if_splits)

text \<open>C30. Attribution reported as valid is independently verifiable: the claim decrypts under the escrow key, names
  the authenticated sender, and carries that sender's signature over the key identifier, the digest of the
  compliance key, this event's identifier and recipient and a send time inside the key's calendar month and
  at most two days and five minutes after the visible time.\<close>

theorem valid_attribution_proves:
  assumes "judge_attribution C w seal p_c trusted = Valid"
  shows "\<exists>b key (claim :: attribution_claim) preimage.
    w_attribution w = Some (V3 b) \<and> w_version w = ENVELOPE_VERSION \<and> p_c = Some key
    \<and> b3_compliance_key_digest b = sha256 C key
    \<and> cl_sender_pubkey claim = sl_sender_pubkey seal
    \<and> attribution_signing_preimage (b3_block_version b) (b3_key_id b) (sha256 C key) (b3_e_pk b) (wrap_id C w)
        (w_recipient w) (cl_sent_at_ms claim) = Ok preimage
    \<and> ed_verify_strict C (sl_sender_pubkey seal) preimage (cl_signature claim)
    \<and> attribution_epoch_contains (b3_key_id b) (cl_sent_at_ms claim) = Ok True
    \<and> unat (w_created_at w) * 1000 \<le> unat (cl_sent_at_ms claim)
    \<and> unat (cl_sent_at_ms claim) \<le> unat (w_created_at w) * 1000 + 172800000 + 300000
    \<and> (\<forall>t. trusted = Some t \<longrightarrow> b3_key_id b = tk_key_id t \<and> tk_not_before_ms t \<le> cl_sent_at_ms claim
        \<and> cl_sent_at_ms claim < tk_not_after_ms t)"
proof -
  obtain block e_sk key claim where j: "w_attribution w = Some block" "w_version w = ENVELOPE_VERSION" "p_c = Some key"
      "verify_attribution_claim C block e_sk key (wrap_id C w) (w_recipient w) (w_created_at w) (sl_sender_pubkey seal) = Ok claim"
      "\<forall>t. trusted = Some t \<longrightarrow> (\<exists>b. as_v3 block = Some b \<and> b3_key_id b = tk_key_id t)
        \<and> tk_not_before_ms t \<le> cl_sent_at_ms claim \<and> cl_sent_at_ms claim < tk_not_after_ms t"
    using assms by (auto simp: judge_attribution_def split: option.splits sum.splits if_splits)
  obtain b where b: "block = V3 b" using j(4) by (cases block) (auto simp: verify_attribution_claim_def)
  obtain preimage c where v: "b3_compliance_key_digest b = sha256 C key" "cl_sender_pubkey claim = sl_sender_pubkey seal"
      "attribution_signing_preimage (b3_block_version b) (b3_key_id b) (sha256 C key) (b3_e_pk b) (wrap_id C w) (w_recipient w) (cl_sent_at_ms claim) = Ok preimage"
      "ed_verify_strict C (sl_sender_pubkey seal) preimage (cl_signature claim)"
      "attribution_epoch_contains (b3_key_id b) (cl_sent_at_ms claim) = Ok True"
      "checked_mul (w_created_at w) 1000 = Some c" "\<not> cl_sent_at_ms claim < c"
      "\<not> saturating_add (saturating_add c (saturating_mul MAX_TIMESTAMP_JITTER_SECS 1000)) MAX_ATTRIBUTION_CLOCK_SKEW_MS < cl_sent_at_ms claim"
    using j(4) by (auto simp: b verify_attribution_claim_def Let_def result_simps verify_Ok verifying_key_from_bytes_Ok split: if_splits)
  have c: "unat c = unat (w_created_at w) * 1000" using checked_mul_Some [OF v(6)] by simp
  have "saturating_mul MAX_TIMESTAMP_JITTER_SECS 1000 = (172800000 :: u64)"
    by (simp add: saturating_mul_def MAX_TIMESTAMP_JITTER_SECS_def)
  then have hi: "unat (cl_sent_at_ms claim) \<le> unat c + 172800000 + 300000"
    using v(8) by (auto simp: word_less_nat_alt unat_saturating_add MAX_ATTRIBUTION_CLOCK_SKEW_MS_def min_less_iff_disj)
  have lo: "unat c \<le> unat (cl_sent_at_ms claim)" using v(7) by (simp add: word_less_nat_alt)
  show ?thesis
    by (rule exI [of _ b], rule exI [of _ key], rule exI [of _ claim], rule exI [of _ preimage])
      (use j(1,2,3,5) v(1-5) c hi lo in \<open>simp add: b\<close>)
qed

text \<open>C31. The outer signature covers every public field: two well-formed wraps with the same signed preimage differ
  at most in the signature and the stamp, so stripping or swapping an attribution block, a recipient or a
  ciphertext changes the signed message; and they have the same event identifier.\<close>

theorem wrap_signature_binds:
  assumes "verify_public C w = Ok ()" "wrap_wf w" "wrap_wf v" "public_payload v = public_payload w"
    and "length (w_ciphertext w) \<le> MAX_ENVELOPE_CIPHERTEXT" "length (w_ciphertext v) \<le> MAX_ENVELOPE_CIPHERTEXT"
  shows "(\<exists>m. public_payload w = Ok m \<and> ed_verify_strict C (w_ephemeral_pubkey w) m (w_signature w))
    \<and> v = w\<lparr>w_signature := w_signature v, w_pow_nonce := w_pow_nonce v\<rparr> \<and> wrap_id C v = wrap_id C w"
proof -
  obtain m where m: "public_payload w = Ok m" "ed_verify_strict C (w_ephemeral_pubkey w) m (w_signature w)"
      "w_version w = ENVELOPE_VERSION"
    using assms(1) by (auto simp: verify_public_def public_payload_def result_simps verify_Ok verifying_key_from_bytes_Ok split: if_splits)
  have v: "v = w\<lparr>w_signature := w_signature v, w_pow_nonce := w_pow_nonce v\<rparr>"
    using public_payload_inject [OF assms(2,3) m(1) _ assms(5,6)] assms(4) m(1) by simp
  have "w_version v = w_version w" "w_ephemeral_pubkey v = w_ephemeral_pubkey w" "w_recipient v = w_recipient w"
      "w_nonce v = w_nonce w" "w_ciphertext v = w_ciphertext w" "w_created_at v = w_created_at w"
    using arg_cong [OF v, of w_version] arg_cong [OF v, of w_ephemeral_pubkey] arg_cong [OF v, of w_recipient]
      arg_cong [OF v, of w_nonce] arg_cong [OF v, of w_ciphertext] arg_cong [OF v, of w_created_at] by simp_all
  then have "wrap_id C v = wrap_id C w" using m(3) by (simp add: wrap_id_def envelope_consts)
  with m v show ?thesis by blast
qed

definition id_preimage :: "wrap \<Rightarrow> bytes" where
  "id_preimage w = wrap_id_preimage_v3 (w_version w) (w_ephemeral_pubkey w) (w_recipient w) (w_nonce w) (w_ciphertext w) (w_created_at w)"

lemma verify_public_nonce: "verify_public C (w\<lparr>w_pow_nonce := n\<rparr>) = verify_public C w"
  by (simp add: verify_public_def cong: if_cong option.case_cong)

lemma wrap_id_nonce: "wrap_id C (w\<lparr>w_pow_nonce := n\<rparr>) = wrap_id C w"
  by (simp add: wrap_id_def wrap_id_v2_def)

lemma stamp_work:
  "case stamp C w difficulty attempts of
     Ok x \<Rightarrow> wrap_id C x = wrap_id C w \<and> verify_public C x = verify_public C w \<and> verify_work C x difficulty = Ok ()
   | Err e \<Rightarrow> e = InsufficientWork
       \<and> (\<forall>n. unat n < unat attempts \<longrightarrow> verify_work C (w\<lparr>w_pow_nonce := n\<rparr>) difficulty = Err InsufficientWork)"
proof (cases "difficulty = 0")
  case True
  then show ?thesis by (simp add: stamp_def verify_work_def pow_verify_def wrap_id_nonce verify_public_nonce)
next
  case False
  show ?thesis
  proof (cases "mine C (wrap_id C w) difficulty attempts")
    case None
    have "\<not> difficulty \<le> work C (wrap_id C w) n" if "unat n < unat attempts" for n
    proof -
      have "n \<in> set (map word_of_nat [0..<unat attempts])" using that by (auto intro!: image_eqI [of _ _ "unat n"])
      with None show ?thesis unfolding mine_def find_None_iff by blast
    qed
    with None False show ?thesis by (simp add: stamp_def verify_work_def pow_verify_def wrap_id_nonce)
  next
    case (Some n)
    then have "difficulty \<le> work C (wrap_id C w) n" by (auto simp: mine_def find_Some_iff)
    with Some False show ?thesis by (simp add: stamp_def verify_work_def pow_verify_def wrap_id_nonce verify_public_nonce)
  qed
qed

text \<open>C33. Take two wraps of the current version whose fields have the lengths of the source's arrays and whose
  ciphertexts are within the wire limit, and suppose SHA-256 does not collide on their two identifier preimages. If
  they have the same event identifier, they agree in the ephemeral key, the recipient, the nonce, the ciphertext and the
  time of creation; signature, stamp and attribution are not part of the identifier. Stamping such a wrap keeps its
  identifier and its public checks and meets the difficulty it was mined for, and fails only when no nonce below the
  number of attempts meets it.\<close>

theorem wrap_id_binds:
  assumes "w_version w = ENVELOPE_VERSION" "w_version v = ENVELOPE_VERSION" "wrap_wf w" "wrap_wf v" "wrap_id C w = wrap_id C v"
    and "length (w_ciphertext w) \<le> MAX_ENVELOPE_CIPHERTEXT" "length (w_ciphertext v) \<le> MAX_ENVELOPE_CIPHERTEXT"
    and "inj_on (sha256 C) {id_preimage w, id_preimage v}"
  shows "w_ephemeral_pubkey w = w_ephemeral_pubkey v \<and> w_recipient w = w_recipient v \<and> w_nonce w = w_nonce v
    \<and> w_ciphertext w = w_ciphertext v \<and> w_created_at w = w_created_at v
    \<and> (case stamp C w difficulty attempts of
         Ok x \<Rightarrow> wrap_id C x = wrap_id C w \<and> verify_public C x = verify_public C w \<and> verify_work C x difficulty = Ok ()
       | Err e \<Rightarrow> e = InsufficientWork
           \<and> (\<forall>n. unat n < unat attempts \<longrightarrow> verify_work C (w\<lparr>w_pow_nonce := n\<rparr>) difficulty = Err InsufficientWork))"
proof -
  have "sha256 C (id_preimage w) = sha256 C (id_preimage v)"
    using assms(5) by (simp add: wrap_id_def wrap_id_v3_def id_preimage_def assms(1,2) envelope_consts)
  then have "id_preimage w = id_preimage v" by (rule inj_onD [OF assms(8)]) simp_all
  then have "w_ephemeral_pubkey w = w_ephemeral_pubkey v \<and> w_recipient w = w_recipient v \<and> w_nonce w = w_nonce v
      \<and> u64_be (u64_len (w_ciphertext w)) @ w_ciphertext w @ u64_be (w_created_at w)
        = u64_be (u64_len (w_ciphertext v)) @ w_ciphertext v @ u64_be (w_created_at v)"
    using assms(3,4) by (simp add: id_preimage_def wrap_id_preimage_v3_def wrap_wf_def)
  then show ?thesis using stamp_work [where C = C and w = w and difficulty = difficulty and attempts = attempts] by (simp add: ciphertext_field_cancel [OF assms(6,7)])
qed

section \<open>Size of a wrap\<close>

lemma seal_json_size:
  assumes "seal_to_json s = Some j" "length (sl_sender_pubkey s) = 32" "length (sl_nonce s) = 24" "length (sl_signature s) = 64"
    "case sl_attribution_sk s of None \<Rightarrow> True | Some sk \<Rightarrow> length sk = 32"
  shows "json_size j \<le> 1000 + 2 * length (sl_ciphertext s)"
  using assms
  by (auto simp: seal_to_json_def bind_eq_Some_conv compact_serialize_Some split: option.splits)

lemma encrypt_length:
  assumes "aead_contract C" "encrypt C k n m v = Ok c"
  shows "length c = length m + 16"
  using encrypt_total [OF assms(1), of k n m v] assms(2) by auto

lemma build_block_wf:
  assumes "build_attribution_v3 C nonce sender now p_c key_id e_sk event_id recipient = Ok b" "length nonce = 24"
    and "hash_contract C" "length (x25519_public C (from_seed e_sk)) = 32" "key_id_wf key_id" "ck_purpose key_id = Attribution"
  shows "block_wf (V3 b)"
  using assms by (auto simp: build_attribution_v3_def result_simps Let_def block_wf_def sha256_length split: if_splits)

lemma wrap_inner_bounds:
  assumes "signature_contract C" "agreement_contract C" "aead_contract C" "json_contract J"
    and "length (seed sender) = 32" "length (seed R) = 32" "entropy_wf E"
    and "wrap_inner C J E sender (verifying_key C R) body now compliance = Ok w"
  shows "length (w_ciphertext w) \<le> MAX_ENVELOPE_CIPHERTEXT \<and> (compliance = None \<longrightarrow> wrap_wf w)"
  using assms(8)
proof (rule wrap_inner_Ok)
  fix rj shared seal_ct sj shared' wrap_ct payload
  let ?seal = "sealed_by C E sender seal_ct (map_option (\<lambda>_. we_attribution_seed E) compliance)"
  assume b: "length body \<le> MAX_PLAINTEXT"
    and rj: "rumor_to_json \<lparr>ru_from = verifying_key C sender, ru_to = verifying_key C R, ru_created_at = now, ru_body = body\<rparr> = Some rj"
    and enc: "encrypt C (derive_key C shared HKDF_INFO_SEAL) (we_seal_nonce E) (pad (to_vec J rj)) ENVELOPE_VERSION = Ok seal_ct"
    and sj: "seal_to_json ?seal = Some sj"
    and enc': "encrypt C (derive_key C shared' HKDF_INFO_WRAP) (we_wrap_nonce E) (pad (to_vec J sj)) ENVELOPE_VERSION = Ok wrap_ct"
    and w: "w_recipient w = verifying_key C R" "w_nonce w = we_wrap_nonce E" "w_ciphertext w = wrap_ct"
      "w_ephemeral_pubkey w = verifying_key C (from_seed (we_ephemeral_seed E))"
      "w_signature w = sign C (from_seed (we_ephemeral_seed E)) payload"
    and att: "case compliance of None \<Rightarrow> w_attribution w = None
     | Some (p_c, key_id) \<Rightarrow> \<exists>b. w_attribution w = Some (V3 b)
         \<and> build_attribution_v3 C (we_attribution_nonce E) sender now p_c key_id (we_attribution_seed E) (wrap_id C w) (verifying_key C R) = Ok b"
  have E: "length (we_seal_nonce E) = 24" "length (we_attribution_seed E) = 32" "length (seed (from_seed (we_ephemeral_seed E))) = 32"
      "length (we_wrap_nonce E) = 24"
    using assms(7) by (simp_all add: entropy_wf_def from_seed_def)
  note s = signature_contractD [OF assms(1,5)] and r = signature_contractD [OF assms(1,6)] and e = signature_contractD [OF assms(1) E(3)]
  have "json_size rj \<le> 2000 + 6 * length body" using rumor_json_total [of "\<lparr>ru_from = verifying_key C sender, ru_to = verifying_key C R, ru_created_at = now, ru_body = body\<rparr>"] rj s(1) r(1) by simp
  moreover have "length (to_vec J rj) \<le> json_size rj"
    using rumor_json_wf [OF rj] s(1) r(1) b assms(4) by (simp add: json_contract_def)
  moreover have sk: "case sl_attribution_sk ?seal of None \<Rightarrow> True | Some sk \<Rightarrow> length sk = 32"
    using E(2) by (auto split: option.splits)
  then have "json_size sj \<le> 1000 + 2 * length seal_ct" "length (to_vec J sj) \<le> json_size sj"
    using seal_json_size [OF sj] seal_json_wf [OF sj] s(1,3) E(1) assms(4) by (simp_all add: json_contract_def)
  moreover note encrypt_length [OF assms(3) enc] encrypt_length [OF assms(3) enc']
    pad_length(3) [of "to_vec J rj"] pad_length(3) [of "to_vec J sj"]
  ultimately have "length wrap_ct \<le> MAX_ENVELOPE_CIPHERTEXT" using b by (simp add: envelope_consts)
  then show ?thesis using w e r E(4) att by (auto simp: wrap_wf_def)
qed

text \<open>Whatever the body (at most 64 KiB, escaped or not), the outer ciphertext stays below the decode ceiling, so
  the wrap has a wire form and a storage form and both read back to the same wrap.\<close>

theorem wrap_fits_the_wire:
  assumes "signature_contract C" "agreement_contract C" "aead_contract C" "json_contract J"
    and "length (seed sender) = 32" "length (seed R) = 32" "entropy_wf E"
    and "wrap_message C J E sender (verifying_key C R) body now = Ok w"
  shows "length (w_ciphertext w) \<le> MAX_ENVELOPE_CIPHERTEXT
    \<and> (\<exists>j. wrap_to_json w = Some j \<and> wrap_from_json j = Some w)
    \<and> (\<exists>b. to_storage_bytes J w = Ok b \<and> from_storage_bytes J b = Ok w)"
proof -
  have w: "length (w_ciphertext w) \<le> MAX_ENVELOPE_CIPHERTEXT" "wrap_wf w" "w_attribution w = None"
    using wrap_inner_bounds [OF assms(1-7)] assms(8) wrap_inner_Ok [OF assms(8) [unfolded wrap_message_def]]
    by (auto simp: wrap_message_def)
  then obtain b where "to_storage_bytes J w = Ok b" by (auto simp: to_storage_bytes_def)
  moreover from this have "from_storage_bytes J b = Ok w" by (rule stored_reads_back [OF assms(4) w(2)])
  ultimately show ?thesis using wrap_json_round_trip [OF w(2,1)] w(1) by blast
qed

section \<open>Witnesses\<close>

definition example_entropy :: wrap_entropy where
  "example_entropy = \<lparr>we_seal_nonce = replicate 24 1, we_attribution_seed = replicate 32 5, we_ephemeral_seed = replicate 32 3,
     we_wrap_nonce = replicate 24 4, we_jitter = replicate 8 6, we_attribution_nonce = replicate 24 7\<rparr>"

definition example_sender :: identity where "example_sender = from_seed (replicate 32 1)"
definition example_recipient :: identity where "example_recipient = from_seed (replicate 32 2)"
definition example_key_id :: compliance_key_id where
  "example_key_id = key_id_new Attribution Eu (replicate 32 7) 1706745600000 1"

lemma example_lengths: "length (seed example_sender) = 32" "length (seed example_recipient) = 32" "entropy_wf example_entropy"
  by (simp_all add: example_sender_def example_recipient_def example_entropy_def entropy_wf_def)

lemmas example_contracts = toy_contracts(2) toy_agreement_contract toy_contracts(3) toy_json_contract example_lengths

lemma example_message:
  "\<exists>w. wrap_message toy toy_json example_entropy example_sender (verifying_key toy example_recipient) ''hello'' 1700000000 = Ok w
    \<and> open_attributed_inner toy toy_json example_recipient w None None = Ok (verifying_key toy example_sender, ''hello'', Absent)"
proof -
  obtain w where w: "wrap_inner toy toy_json example_entropy example_sender (verifying_key toy example_recipient) ''hello'' 1700000000 None = Ok w"
    using wrap_inner_total [OF example_contracts, of "''hello''" None 1700000000] by (auto simp: envelope_consts)
  moreover have "w_attribution w = None" using wrap_inner_Ok [OF w] by auto
  ultimately show ?thesis
    using open_wrapped [OF example_contracts w, of None None] by (auto simp: wrap_message_def judge_attribution_def)
qed

theorem wrap_delivers_witness:
  "\<exists>w. wrap_message toy toy_json example_entropy example_sender (verifying_key toy example_recipient) ''hello'' 1700000000 = Ok w
    \<and> open_wrap toy toy_json example_recipient w = Ok (verifying_key toy example_sender, ''hello'')"
  using wrap_delivers [OF example_contracts, of "''hello''" 1700000000] by (auto simp: envelope_consts)

theorem opened_message_authentic_witness:
  "\<exists>w. w_recipient w = verifying_key toy example_recipient
    \<and> is_ok (open_attributed_inner toy toy_json example_recipient w None None)"
proof -
  obtain w where "open_attributed_inner toy toy_json example_recipient w None None = Ok (verifying_key toy example_sender, ''hello'', Absent)"
    using example_message by blast
  with opened_message_authentic [OF this] show ?thesis by auto
qed

theorem wrap_fits_the_wire_witness:
  "\<exists>w. wrap_message toy toy_json example_entropy example_sender (verifying_key toy example_recipient) ''hello'' 1700000000 = Ok w
    \<and> length (w_ciphertext w) \<le> MAX_ENVELOPE_CIPHERTEXT"
  using example_message wrap_fits_the_wire [OF example_contracts] by blast

theorem wrap_signature_binds_witness:
  "\<exists>w m. verify_public toy w = Ok () \<and> public_payload w = Ok m \<and> ed_verify_strict toy (w_ephemeral_pubkey w) m (w_signature w)"
proof -
  obtain w where w: "wrap_message toy toy_json example_entropy example_sender (verifying_key toy example_recipient) ''hello'' 1700000000 = Ok w"
      "verify_public toy w = Ok ()"
    using delivered [OF example_contracts, of "''hello''" 1700000000] by (auto simp: envelope_consts)
  then have b: "length (w_ciphertext w) \<le> MAX_ENVELOPE_CIPHERTEXT" "wrap_wf w"
    using wrap_inner_bounds [OF example_contracts] by (auto simp: wrap_message_def)
  from wrap_signature_binds [OF w(2) b(2,2) refl b(1,1)] w(2) show ?thesis by blast
qed

text \<open>Two different wraps, of different signature and stamp, share an identifier and so the fields it covers; a search
  of two nonces for 250 bits of work succeeds, and one of a single nonce does not.\<close>

definition example_resent :: "8 word \<Rightarrow> wrap" where
  "example_resent k = \<lparr>w_version = ENVELOPE_VERSION, w_ephemeral_pubkey = replicate 32 5, w_recipient = replicate 32 6,
     w_nonce = replicate 24 7, w_ciphertext = [1, 2, 3], w_created_at = 9, w_signature = replicate 64 k,
     w_pow_nonce = ucast k, w_attribution = None\<rparr>"

lemma toy_work:
  assumes "sha256 toy (POW_DOMAIN @ ident @ u64_le n) = zeros 31 @ [b]" "b \<noteq> 0"
  shows "work toy ident n = word_of_nat (248 + leading_zeros8 b)"
proof -
  have "leading_zero_bits (zeros k @ [b]) = 8 * k + leading_zeros8 b" for k
    by (induction k) (simp_all add: assms(2))
  then show ?thesis using assms(1) by (simp add: work_def)
qed

lemma example_mined:
  "mine toy (wrap_id toy (example_resent 1)) 250 2 = Some 1" "mine toy (wrap_id toy (example_resent 1)) 250 1 = None"
proof -
  have id: "wrap_id toy (example_resent 1) = zeros 31 @ [138]" by code_simp
  have "sha256 toy (POW_DOMAIN @ (zeros 31 @ [138]) @ u64_le 0) = zeros 31 @ [131]"
    "sha256 toy (POW_DOMAIN @ (zeros 31 @ [138]) @ u64_le 1) = zeros 31 @ [14]"
    "leading_zeros8 131 = 0" "leading_zeros8 14 = 4" by code_simp+
  then have "work toy (zeros 31 @ [138]) 0 = 248" "work toy (zeros 31 @ [138]) 1 = 252" by (simp_all add: toy_work)
  then show "mine toy (wrap_id toy (example_resent 1)) 250 2 = Some 1" "mine toy (wrap_id toy (example_resent 1)) 250 1 = None"
    using upt_rec [of 0 2] upt_rec [of 1 2] by (simp_all add: id mine_def)
qed

theorem wrap_id_binds_witness:
  "example_resent 1 \<noteq> example_resent 2 \<and> wrap_id toy (example_resent 1) = wrap_id toy (example_resent 2)
    \<and> w_ciphertext (example_resent 1) = w_ciphertext (example_resent 2)
    \<and> (\<exists>x. stamp toy (example_resent 1) 250 2 = Ok x \<and> wrap_id toy x = wrap_id toy (example_resent 1) \<and> verify_work toy x 250 = Ok ())
    \<and> verify_work toy ((example_resent 1)\<lparr>w_pow_nonce := 0\<rparr>) 250 = Err InsufficientWork"
proof -
  have w: "w_version (example_resent k) = ENVELOPE_VERSION" "wrap_wf (example_resent k)"
    "length (w_ciphertext (example_resent k)) \<le> MAX_ENVELOPE_CIPHERTEXT" "id_preimage (example_resent k) = id_preimage (example_resent 1)"
    "wrap_id toy (example_resent 1) = wrap_id toy (example_resent 2)" for k
    by (simp_all add: example_resent_def wrap_wf_def envelope_consts id_preimage_def wrap_id_def wrap_id_v3_def)
  have i: "inj_on (sha256 toy) {id_preimage (example_resent 1), id_preimage (example_resent 2)}" by (simp add: w(4) [of 2])
  note b = wrap_id_binds [OF w(1) w(1) w(2) w(2) w(5) w(3) w(3) i]
  have "is_ok (stamp toy (example_resent 1) 250 2)" "\<not> is_ok (stamp toy (example_resent 1) 250 1)"
    using example_mined by (simp_all add: stamp_def)
  then obtain x where x: "stamp toy (example_resent 1) 250 2 = Ok x" and "\<not> is_ok (stamp toy (example_resent 1) 250 1)"
    by (auto simp: is_ok_iff)
  then have "\<exists>e. stamp toy (example_resent 1) 250 1 = Err e" by (cases "stamp toy (example_resent 1) 250 1") (simp_all add: is_ok_iff)
  then have "verify_work toy ((example_resent 1)\<lparr>w_pow_nonce := 0\<rparr>) 250 = Err InsufficientWork"
    using b [where difficulty = 250 and attempts = 1] by auto
  moreover have "example_resent 1 \<noteq> example_resent 2" by (simp add: example_resent_def)
  ultimately show ?thesis using b [where difficulty = 250 and attempts = 2] x w(5) by auto
qed

lemma example_attributed:
  "\<exists>w t. wrap_attributed toy toy_json example_entropy example_sender (verifying_key toy example_recipient) ''hello'' 1707000000
      (replicate 32 9) example_key_id = Ok w
    \<and> trusted_key_new example_key_id (replicate 32 9) 1706745600000 1709251200000 = Ok t"
proof -
  have sent: "checked_mul (1707000000 :: u64) 1000 = Some 1707000000000" by (simp add: checked_mul_def)
  have ep: "attribution_epoch_contains example_key_id 1707000000000 = Ok True"
    using example_epoch_end by (simp add: epoch_contains_True example_key_id_def key_id_new_def word_le_nat_alt word_less_nat_alt)
  have wf: "key_id_wf example_key_id" by (simp add: example_key_id_def key_id_new_def key_id_wf_def)
  have "is_ok (x25519_agree toy (from_seed (we_attribution_seed example_entropy)) (replicate 32 9))" by code_simp
  with wf obtain w where "wrap_inner toy toy_json example_entropy example_sender (verifying_key toy example_recipient) ''hello'' 1707000000
      (Some (replicate 32 9, example_key_id)) = Ok w"
    using wrap_inner_total [OF example_contracts, of "''hello''" "Some (replicate 32 9, example_key_id)" 1707000000]
    by (auto simp: envelope_consts)
  moreover obtain t where "trusted_key_new example_key_id (replicate 32 9) 1706745600000 1709251200000 = Ok t"
    using example_epoch_end by (simp add: trusted_key_new_def validate_attribution_epoch_def example_key_id_def) (simp add: key_id_new_def)
  ultimately show ?thesis using sent ep by (simp add: wrap_attributed_def)
qed

theorem attributed_wrap_valid_witness:
  "\<exists>w t. open_attributed_trusted toy toy_json example_recipient w (Some t) = Ok (verifying_key toy example_sender, ''hello'', Valid)"
  using example_attributed attributed_wrap_valid [OF example_contracts] by blast

theorem valid_attribution_proves_witness:
  "\<exists>w seal p_c t. judge_attribution toy w seal p_c t = Valid \<and> w_version w = ENVELOPE_VERSION"
proof -
  obtain w seal p_c t where j: "judge_attribution toy w seal p_c t = Valid"
    using example_attributed attributed_judged [OF example_contracts] by blast
  from valid_attribution_proves [OF this] have "w_version w = ENVELOPE_VERSION" by blast
  with j show ?thesis by blast
qed

end
