(* ===== verification/Loft_Error.thy ===== *)
theory Loft_Error
  imports Core_Error
begin

text \<open>
  \<^verbatim>\<open>pigeonpost-loft/src/error.rs\<close>: the errors of a loft and the HTTP response each one becomes. The
  payloads that SQLite, \<^verbatim>\<open>serde_json\<close> and the operating system attach to their own errors never reach a
  response and are not kept.
\<close>

datatype loft_error =
    Core error
  | Storage
  | Serialization
  | AtCapacity
  | RateLimited
  | Overloaded
  | PolicyChanged
  | AttributionRejected
  | AttributionUnavailable
  | TraceUnavailable
  | TraceMetadata
  | NotReady
  | UnsupportedSchema nat nat
  | Configuration string
  | NotFound
  | Io

text \<open>The \<^verbatim>\<open>?\<close> operator on a core result inside the loft.\<close>

definition from_core :: "error + 'a \<Rightarrow> loft_error + 'a" where
  "from_core r = (case r of Inl e \<Rightarrow> Inl (Core e) | Inr x \<Rightarrow> Inr x)"

lemma from_core_simps [simp, result_simps]: "from_core (Ok x) = Ok x" "from_core (Err e) = Err (Core e)"
  by (simp_all add: from_core_def)

lemma from_core_eq [simp, result_simps]:
  "from_core r = Ok x \<longleftrightarrow> r = Ok x" "from_core r = Err f \<longleftrightarrow> (\<exists>e. r = Err e \<and> f = Core e)"
  by (auto simp: from_core_def split: sum.splits)

fun error_to_string :: "error \<Rightarrow> string" where
  "error_to_string (MalformedAddress why) = ''malformed address: '' @ why"
| "error_to_string InvalidBase32 = ''invalid base32''"
| "error_to_string InvalidKey = ''invalid key material''"
| "error_to_string BadSignature = ''signature verification failed''"
| "error_to_string DecryptionFailed = ''decryption failed''"
| "error_to_string (MalformedEnvelope why) = ''malformed envelope: '' @ why"
| "error_to_string SenderMismatch = ''sender in sealed message does not match the sealing key''"
| "error_to_string SuccessorMismatch = ''successor commitment mismatch: rotation target was not the committed key''"
| "error_to_string StaleSequence = ''sequence number did not increase (replay)''"
| "error_to_string InsufficientWork = ''proof-of-work below required difficulty''"
| "error_to_string TooLarge = ''message exceeds the maximum size''"
| "error_to_string StaleTimestamp = ''timestamp outside the accepted window''"

definition core_status :: "error \<Rightarrow> nat" where
  "core_status e =
     (if e \<in> {BadSignature, StaleTimestamp, InvalidKey} then 401
      else if e = InsufficientWork then 403
      else if e = StaleSequence then 409
      else if e = TooLarge then 413
      else 400)"

fun loft_status :: "loft_error \<Rightarrow> nat" where
  "loft_status (Core e) = core_status e"
| "loft_status AtCapacity = 507"
| "loft_status RateLimited = 429"
| "loft_status Overloaded = 429"
| "loft_status PolicyChanged = 409"
| "loft_status AttributionRejected = 400"
| "loft_status AttributionUnavailable = 503"
| "loft_status TraceUnavailable = 503"
| "loft_status NotReady = 503"
| "loft_status NotFound = 404"
| "loft_status Storage = 500"
| "loft_status Serialization = 500"
| "loft_status Io = 500"
| "loft_status TraceMetadata = 500"
| "loft_status (UnsupportedSchema found supported) = 500"
| "loft_status (Configuration why) = 500"

text \<open>
  The text of an error that has its own words, for the statuses that show them; no other error
  reaches this text.
\<close>

definition loft_error_to_string :: "loft_error \<Rightarrow> string" where
  "loft_error_to_string e =
     (case e of
        Core c \<Rightarrow> error_to_string c
      | AtCapacity \<Rightarrow> ''loft is at capacity''
      | RateLimited \<Rightarrow> ''rate limited''
      | Overloaded \<Rightarrow> ''loft is busy''
      | NotFound \<Rightarrow> ''not found''
      | _ \<Rightarrow> [])"

definition into_response :: "loft_error \<Rightarrow> nat \<times> string" where
  "into_response e =
     (let status = loft_status e in
      (status,
       if status = 500 then ''internal error''
       else if status = 401 then ''unauthorized''
       else if status = 400 then ''invalid request''
       else if status = 409 then ''conflict''
       else if status = 503 then ''temporarily unavailable''
       else loft_error_to_string e))"

text \<open>The responses there are: none of them carries a value chosen by the caller.\<close>

lemma response_closed:
  "into_response e \<in> {(500, ''internal error''), (401, ''unauthorized''), (400, ''invalid request''),
     (409, ''conflict''), (503, ''temporarily unavailable''),
     (403, ''proof-of-work below required difficulty''), (413, ''message exceeds the maximum size''),
     (404, ''not found''), (429, ''rate limited''), (429, ''loft is busy''), (507, ''loft is at capacity'')}"
  by (cases e) (auto simp: into_response_def core_status_def loft_error_to_string_def)

lemma response_unauthorized:
  "into_response e = (401, ''unauthorized'') \<longleftrightarrow> e \<in> {Core BadSignature, Core StaleTimestamp, Core InvalidKey}"
  by (cases e) (auto simp: into_response_def core_status_def)

lemma response_internal:
  "into_response e = (500, ''internal error'') \<longleftrightarrow>
     e \<in> {Storage, Serialization, Io, TraceMetadata} \<union> range (case_prod UnsupportedSchema) \<union> range Configuration"
  by (cases e) (auto simp: into_response_def core_status_def image_iff)

end
