(* ===== verification/Record_Json.thy ===== *)
theory Record_Json
  imports Agent_Record Envelope_Wire
begin

text \<open>
  The \<^verbatim>\<open>serde\<close> shapes of the signed control records of \<^verbatim>\<open>pigeonpost-core\<close>: the recipient policy and
  its attribution requirement (\<^verbatim>\<open>policy.rs\<close>), the agent record and the rotation record (\<^verbatim>\<open>record.rs\<close>).
  All three refuse unknown fields; the fields added after the first release have defaults.
\<close>

section \<open>Readers\<close>

definition json_bool :: "json \<Rightarrow> bool option" where
  "json_bool j = (case j of JBool b \<Rightarrow> Some b | _ \<Rightarrow> None)"

fun json_each :: "(json \<Rightarrow> 'a option) \<Rightarrow> json list \<Rightarrow> 'a list option" where
  "json_each read [] = Some []"
| "json_each read (j # js) = Option.bind (read j) (\<lambda>x. map_option (Cons x) (json_each read js))"

definition json_list :: "(json \<Rightarrow> 'a option) \<Rightarrow> json \<Rightarrow> 'a list option" where
  "json_list read j = (case j of JArr js \<Rightarrow> json_each read js | _ \<Rightarrow> None)"

section \<open>Policies\<close>

definition requirement_to_json :: "attribution_requirement \<Rightarrow> json" where
  "requirement_to_json r = JObj [(''version'', JWord (req_version r)),
     (''jurisdiction'', JStr (jurisdiction_name (req_jurisdiction r))), (''authority'', JBytes (req_authority r))]"

definition requirement_from_json :: "json \<Rightarrow> attribution_requirement option" where
  "requirement_from_json j =
     Option.bind (struct_fields True [''version'', ''jurisdiction'', ''authority''] j) (\<lambda>fs.
     Option.bind (field json_u8 ''version'' fs) (\<lambda>version.
     Option.bind (field (unit_variant jurisdiction_name [Us, Eu, Tr, Test]) ''jurisdiction'' fs) (\<lambda>jur.
     Option.bind (field (json_array 32) ''authority'' fs) (\<lambda>authority.
     Some \<lparr>req_version = version, req_jurisdiction = jur, req_authority = authority\<rparr>))))"

definition option_to_json :: "('a \<Rightarrow> json) \<Rightarrow> 'a option \<Rightarrow> json" where
  "option_to_json write m = (case m of None \<Rightarrow> JNull | Some x \<Rightarrow> write x)"

definition policy_to_json :: "recipient_policy \<Rightarrow> json" where
  "policy_to_json p = JObj [(''version'', JWord (rp_version p)), (''pubkey'', JBytes (rp_pubkey p)),
     (''pow_min'', JWord (rp_pow_min p)), (''token_required'', JBool (rp_token_required p)),
     (''token_hashes'', JArr (map JBytes (rp_token_hashes p))),
     (''attribution_required'', JBool (rp_attribution_required p)),
     (''attribution_requirement'', option_to_json requirement_to_json (rp_attribution_requirement p)),
     (''seq'', JWord (rp_seq p)), (''signature'', JBytes (rp_signature p))]"

definition policy_from_json :: "json \<Rightarrow> recipient_policy option" where
  "policy_from_json j =
     Option.bind (struct_fields True [''version'', ''pubkey'', ''pow_min'', ''token_required'', ''token_hashes'',
       ''attribution_required'', ''attribution_requirement'', ''seq'', ''signature''] j) (\<lambda>fs.
     Option.bind (field_or json_u8 LEGACY_RECIPIENT_POLICY_VERSION ''version'' fs) (\<lambda>version.
     Option.bind (field (json_array 32) ''pubkey'' fs) (\<lambda>pubkey.
     Option.bind (field json_u32 ''pow_min'' fs) (\<lambda>pow_min.
     Option.bind (field json_bool ''token_required'' fs) (\<lambda>token_required.
     Option.bind (field (json_list (json_array 32)) ''token_hashes'' fs) (\<lambda>token_hashes.
     Option.bind (field_or json_bool False ''attribution_required'' fs) (\<lambda>attribution_required.
     Option.bind (field_or (json_option requirement_from_json) None ''attribution_requirement'' fs) (\<lambda>requirement.
     Option.bind (field json_u64 ''seq'' fs) (\<lambda>seq.
     Option.bind (field (json_array 64) ''signature'' fs) (\<lambda>signature.
     Some \<lparr>rp_version = version, rp_pubkey = pubkey, rp_pow_min = pow_min, rp_token_required = token_required,
           rp_token_hashes = token_hashes, rp_attribution_required = attribution_required,
           rp_attribution_requirement = requirement, rp_seq = seq, rp_signature = signature\<rparr>))))))))))"

section \<open>Agent and rotation records\<close>

definition agent_record_to_json :: "agent_record \<Rightarrow> json" where
  "agent_record_to_json r = JObj [(''version'', JWord (ar_version r)), (''pubkey'', JBytes (ar_pubkey r)),
     (''successor_hash'', JBytes (ar_successor_hash r)), (''seq'', JWord (ar_seq r)),
     (''lofts'', JArr (map JStr (ar_lofts r))), (''pow_min'', JWord (ar_pow_min r)),
     (''attribution_requirement'', option_to_json requirement_to_json (ar_attribution_requirement r)),
     (''signature'', JBytes (ar_signature r))]"

definition agent_record_from_json :: "json \<Rightarrow> agent_record option" where
  "agent_record_from_json j =
     Option.bind (struct_fields True [''version'', ''pubkey'', ''successor_hash'', ''seq'', ''lofts'', ''pow_min'',
       ''attribution_requirement'', ''signature''] j) (\<lambda>fs.
     Option.bind (field_or json_u8 LEGACY_AGENT_RECORD_VERSION ''version'' fs) (\<lambda>version.
     Option.bind (field (json_array 32) ''pubkey'' fs) (\<lambda>pubkey.
     Option.bind (field (json_array 32) ''successor_hash'' fs) (\<lambda>successor_hash.
     Option.bind (field json_u64 ''seq'' fs) (\<lambda>seq.
     Option.bind (field (json_list json_string) ''lofts'' fs) (\<lambda>lofts.
     Option.bind (field_or json_u32 0 ''pow_min'' fs) (\<lambda>pow_min.
     Option.bind (field_or (json_option requirement_from_json) None ''attribution_requirement'' fs) (\<lambda>requirement.
     Option.bind (field (json_array 64) ''signature'' fs) (\<lambda>signature.
     Some \<lparr>ar_version = version, ar_pubkey = pubkey, ar_successor_hash = successor_hash, ar_seq = seq,
           ar_lofts = lofts, ar_pow_min = pow_min, ar_attribution_requirement = requirement,
           ar_signature = signature\<rparr>)))))))))"

definition rotation_to_json :: "rotation_record \<Rightarrow> json" where
  "rotation_to_json r = JObj [(''version'', JWord (rr_version r)), (''from_pubkey'', JBytes (rr_from_pubkey r)),
     (''to_pubkey'', JBytes (rr_to_pubkey r)), (''next_successor_hash'', JBytes (rr_next_successor_hash r)),
     (''seq'', JWord (rr_seq r)), (''activated_at'', JWord (rr_activated_at r)),
     (''grace_until'', JWord (rr_grace_until r)), (''outgoing_signature'', JBytes (rr_outgoing_signature r)),
     (''incoming_signature'', JBytes (rr_incoming_signature r))]"

definition rotation_from_json :: "json \<Rightarrow> rotation_record option" where
  "rotation_from_json j =
     Option.bind (struct_fields True [''version'', ''from_pubkey'', ''to_pubkey'', ''next_successor_hash'', ''seq'',
       ''activated_at'', ''grace_until'', ''outgoing_signature'', ''incoming_signature''] j) (\<lambda>fs.
     Option.bind (field json_u8 ''version'' fs) (\<lambda>version.
     Option.bind (field (json_array 32) ''from_pubkey'' fs) (\<lambda>from.
     Option.bind (field (json_array 32) ''to_pubkey'' fs) (\<lambda>to.
     Option.bind (field (json_array 32) ''next_successor_hash'' fs) (\<lambda>nxt.
     Option.bind (field json_u64 ''seq'' fs) (\<lambda>seq.
     Option.bind (field json_u64 ''activated_at'' fs) (\<lambda>activated_at.
     Option.bind (field json_u64 ''grace_until'' fs) (\<lambda>grace_until.
     Option.bind (field (json_array 64) ''outgoing_signature'' fs) (\<lambda>outgoing.
     Option.bind (field (json_array 64) ''incoming_signature'' fs) (\<lambda>incoming.
     Some \<lparr>rr_version = version, rr_from_pubkey = from, rr_to_pubkey = to, rr_next_successor_hash = nxt,
           rr_seq = seq, rr_activated_at = activated_at, rr_grace_until = grace_until,
           rr_outgoing_signature = outgoing, rr_incoming_signature = incoming\<rparr>))))))))))"

section \<open>Round trips and sizes\<close>

text \<open>What the array types of the structs guarantee.\<close>

definition policy_typed :: "recipient_policy \<Rightarrow> bool" where
  "policy_typed p \<longleftrightarrow> length (rp_pubkey p) = 32 \<and> length (rp_signature p) = 64
     \<and> list_all (\<lambda>h. length h = 32) (rp_token_hashes p) \<and> fits_u32 (rp_token_hashes p)
     \<and> requirement_field_wf (rp_attribution_requirement p)"

definition agent_record_typed :: "agent_record \<Rightarrow> bool" where
  "agent_record_typed r \<longleftrightarrow> length (ar_pubkey r) = 32 \<and> length (ar_successor_hash r) = 32
     \<and> length (ar_signature r) = 64 \<and> lofts_wf (ar_lofts r) \<and> requirement_field_wf (ar_attribution_requirement r)"

definition rotation_typed :: "rotation_record \<Rightarrow> bool" where
  "rotation_typed r \<longleftrightarrow> length (rr_from_pubkey r) = 32 \<and> length (rr_to_pubkey r) = 32
     \<and> length (rr_next_successor_hash r) = 32 \<and> length (rr_outgoing_signature r) = 64
     \<and> length (rr_incoming_signature r) = 64"

lemma json_bool_JBool [simp]: "json_bool (JBool b) = Some b"
  by (simp add: json_bool_def)

lemma json_each_map: "(\<And>x. x \<in> set xs \<Longrightarrow> read (write x) = Some x) \<Longrightarrow> json_each read (map write xs) = Some xs"
  by (induction xs) simp_all

lemma json_list_arrays [simp]:
  "list_all (\<lambda>h. length h = n) hs \<Longrightarrow> json_list (json_array n) (JArr (map JBytes hs)) = Some hs"
  by (simp add: json_list_def json_each_map list_all_iff)

lemma json_list_strings [simp]: "json_list json_string (JArr (map JStr ss)) = Some ss"
  by (simp add: json_list_def json_each_map)

lemma requirement_json_round_trip [simp]:
  "length (req_authority r) = 32 \<Longrightarrow> requirement_from_json (requirement_to_json r) = Some r"
  by (simp add: requirement_from_json_def requirement_to_json_def struct_fields_def field_def)

lemma requirement_option_read [simp]:
  "requirement_field_wf m \<Longrightarrow> json_option requirement_from_json (option_to_json requirement_to_json m) = Some m"
proof (cases m)
  case (Some r)
  obtain fs where "requirement_to_json r = JObj fs" by (simp add: requirement_to_json_def)
  moreover assume "requirement_field_wf m"
  then have "requirement_from_json (requirement_to_json r) = Some r" by (simp add: requirement_field_wf_def Some)
  ultimately show ?thesis by (simp add: json_option_def option_to_json_def Some)
qed (simp add: json_option_def option_to_json_def)

lemma policy_json_round_trip: "policy_typed p \<Longrightarrow> policy_from_json (policy_to_json p) = Some p"
  by (simp add: policy_from_json_def policy_to_json_def struct_fields_def field_def field_or_def policy_typed_def)

lemma agent_record_json_round_trip: "agent_record_typed r \<Longrightarrow> agent_record_from_json (agent_record_to_json r) = Some r"
  by (simp add: agent_record_from_json_def agent_record_to_json_def struct_fields_def field_def field_or_def
    agent_record_typed_def)

lemma rotation_json_round_trip: "rotation_typed r \<Longrightarrow> rotation_from_json (rotation_to_json r) = Some r"
  by (simp add: rotation_from_json_def rotation_to_json_def struct_fields_def field_def rotation_typed_def)


text \<open>What is written is a document the text layer can carry, and a rotation is always small.\<close>

lemma jurisdiction_name_length: "length (jurisdiction_name j) < 4294967296"
  using name_lengths(2) [of j] by simp

lemma requirement_json_wf [simp]: "json_wf (option_to_json requirement_to_json m) \<longleftrightarrow>
    (case m of None \<Rightarrow> True | Some r \<Rightarrow> fits_u32 (req_authority r))"
  by (auto simp: option_to_json_def requirement_to_json_def fits_u32_def jurisdiction_name_length
    simp del: json_wf.simps(3) split: option.splits)

lemma requirement_field_fits: "requirement_field_wf m \<Longrightarrow> (case m of None \<Rightarrow> True | Some r \<Rightarrow> fits_u32 (req_authority r))"
  by (auto simp: requirement_field_wf_def fits_u32_def split: option.splits)

lemma policy_json_wf: "policy_typed p \<Longrightarrow> json_wf (policy_to_json p)"
  by (auto simp: policy_to_json_def policy_typed_def fits_u32_def list_all_iff
    simp del: json_wf.simps(3) dest: requirement_field_fits)

lemma agent_record_json_wf: "agent_record_typed r \<Longrightarrow> json_wf (agent_record_to_json r)"
  by (auto simp: agent_record_to_json_def agent_record_typed_def fits_u32_def lofts_wf_def list_all_iff
    simp del: json_wf.simps(3) dest: requirement_field_fits)

lemma rotation_json_wf: "rotation_typed r \<Longrightarrow> json_wf (rotation_to_json r)"
  by (simp add: rotation_to_json_def rotation_typed_def fits_u32_def del: json_wf.simps(3))

lemma rotation_json_size: "rotation_typed r \<Longrightarrow> json_size (rotation_to_json r) \<le> 1300"
  by (simp add: rotation_to_json_def rotation_typed_def)

end
