(* ===== verification/Loft_Store.thy ===== *)
theory Loft_Store
  imports Loft_Error Record_Json Envelope "HOL-Library.AList"
begin

text \<open>
  \<^verbatim>\<open>pigeonpost-loft/src/store.rs\<close>: the transactional store of a loft. A table with a primary key is an
  association list (\<^verbatim>\<open>recipient_policy\<close>, \<^verbatim>\<open>agent_records\<close>, \<^verbatim>\<open>rotation_records\<close>), \<^verbatim>\<open>events\<close> is the list of its
  rows in the order of the \<^verbatim>\<open>AUTOINCREMENT\<close> cursor, and the one row of \<^verbatim>\<open>storage_stats\<close> is a record.
  An operation runs in one transaction: it returns the new database with its result, or an error, and then
  the database is the old one. Integer columns are the integers SQLite keeps; a counter past the range
  of \<^verbatim>\<open>i64\<close> is no longer an integer for SQLite and reading it fails. Messages are stored with the text
  layer \<open>J\<close>, and the clock is an argument.
\<close>

section \<open>The tables\<close>

definition EVENT_STORAGE_OVERHEAD :: u64 where "EVENT_STORAGE_OVERHEAD = 256"
definition CONTROL_STORAGE_OVERHEAD :: u64 where "CONTROL_STORAGE_OVERHEAD = 256"
definition CONTROL_STORAGE_DIVISOR :: u64 where "CONTROL_STORAGE_DIVISOR = 20"
definition ROTATION_STORAGE_RESERVATION :: u64 where "ROTATION_STORAGE_RESERVATION = 4 * 1024"

lemmas store_consts = EVENT_STORAGE_OVERHEAD_def CONTROL_STORAGE_OVERHEAD_def CONTROL_STORAGE_DIVISOR_def
  ROTATION_STORAGE_RESERVATION_def

record event_row =
  ev_cursor :: int
  ev_id :: bytes
  ev_recipient :: bytes
  ev_stored_at :: int
  ev_expires_at :: int
  ev_size :: int
  ev_blob :: bytes

record policy_row =
  pr_seq :: int
  pr_policy :: bytes
  pr_version :: int
  pr_updated_at :: int
  pr_accounted :: int

record agent_row =
  ag_seq :: int
  ag_record :: bytes
  ag_updated_at :: int
  ag_accounted :: int
  ag_reservation :: int

record rotation_row =
  ro_from_pubkey :: bytes
  ro_to_address :: string
  ro_to_pubkey :: bytes
  ro_seq :: int
  ro_activated_at :: int
  ro_grace_until :: int
  ro_record :: bytes
  ro_stored_at :: int
  ro_accounted :: int

record storage_stats_row =
  st_bytes_used :: int
  st_event_count :: int
  st_control_bytes :: int
  st_control_reserved :: int

text \<open>\<open>db_last_cursor\<close> is the \<^verbatim>\<open>sqlite_sequence\<close> entry of \<^verbatim>\<open>events\<close>; \<open>db_trace\<close> is the window start and
  count of the one row of \<^verbatim>\<open>trace_admission\<close>.\<close>

record loft_db =
  db_events :: "event_row list"
  db_last_cursor :: int
  db_policies :: "(bytes \<times> policy_row) list"
  db_agents :: "(string \<times> agent_row) list"
  db_rotations :: "(string \<times> rotation_row) list"
  db_stats :: storage_stats_row
  db_trace :: "int \<times> int"

text \<open>A database \<^verbatim>\<open>migrate\<close> has just created.\<close>

definition empty_db :: loft_db where
  "empty_db = \<lparr>db_events = [], db_last_cursor = 0, db_policies = [], db_agents = [], db_rotations = [],
     db_stats = \<lparr>st_bytes_used = 0, st_event_count = 0, st_control_bytes = 0, st_control_reserved = 0\<rparr>,
     db_trace = (0, 0)\<rparr>"

record stored_event =
  se_cursor :: u64
  se_wrap :: wrap

record storage_stats =
  bytes_used :: u64
  event_bytes_used :: u64
  control_bytes_used :: u64
  control_bytes_reserved :: u64
  event_count :: u64

section \<open>Integer conversions\<close>

definition to_i64 :: "u64 \<Rightarrow> loft_error + int" where
  "to_i64 v = (if unat v < 2 ^ 63 then Ok (uint v) else Err (Core TooLarge))"

text \<open>Reading an integer column as \<^verbatim>\<open>i64\<close>, and \<^verbatim>\<open>u64::try_from\<close> on it.\<close>

definition get_i64 :: "int \<Rightarrow> loft_error + int" where
  "get_i64 v = (if - (2 ^ 63) \<le> v \<and> v < 2 ^ 63 then Ok v else Err Storage)"

definition u64_try_from :: "int \<Rightarrow> string \<Rightarrow> loft_error + u64" where
  "u64_try_from v why = (if 0 \<le> v then Ok (word_of_int v) else Err (Core (MalformedEnvelope why)))"

abbreviation u64_counter :: "int \<Rightarrow> loft_error + u64" where
  "u64_counter v \<equiv> u64_try_from v ''negative storage counter''"

text \<open>An \<^verbatim>\<open>i64\<close> column of a row as a \<^verbatim>\<open>u64\<close>.\<close>

definition row_u64 :: "int \<Rightarrow> loft_error + u64" where
  "row_u64 v = and_then (get_i64 v) u64_counter"

definition u64_len_opt :: "nat \<Rightarrow> u64 option" where
  "u64_len_opt n = (if n < 2 ^ 64 then Some (word_of_nat n) else None)"

section \<open>Accounting\<close>

definition control_capacity_bytes :: "u64 \<Rightarrow> u64" where
  "control_capacity_bytes capacity_bytes = capacity_bytes div CONTROL_STORAGE_DIVISOR"

definition accounted_size :: "nat \<Rightarrow> nat \<Rightarrow> loft_error + u64" where
  "accounted_size blob_len identifier_bytes =
     ok_or (Option.bind (u64_len_opt blob_len) (\<lambda>size.
            Option.bind (Option.bind (u64_len_opt identifier_bytes) (checked_add size)) (\<lambda>size.
            checked_add size CONTROL_STORAGE_OVERHEAD)))
       (Core TooLarge)"

definition control_counters :: "loft_db \<Rightarrow> loft_error + u64 \<times> u64 \<times> u64" where
  "control_counters db =
     and_then (get_i64 (st_bytes_used (db_stats db))) (\<lambda>event_bytes.
     and_then (get_i64 (st_control_bytes (db_stats db))) (\<lambda>control_bytes.
     and_then (get_i64 (st_control_reserved (db_stats db))) (\<lambda>control_reserved.
     and_then (u64_counter event_bytes) (\<lambda>event_bytes.
     and_then (u64_counter control_bytes) (\<lambda>control_bytes.
     and_then (u64_counter control_reserved) (\<lambda>control_reserved.
     Ok (event_bytes, control_bytes, control_reserved)))))))"

definition replace_control_charge ::
  "loft_db \<Rightarrow> u64 \<Rightarrow> u64 \<Rightarrow> u64 \<Rightarrow> u64 \<Rightarrow> u64 \<Rightarrow> loft_error + loft_db" where
  "replace_control_charge db capacity_bytes old_accounted new_accounted old_reserved new_reserved =
     and_then (control_counters db) (\<lambda>(event_bytes, control_bytes, control_reserved).
     and_then (ok_or (Option.bind (checked_sub control_bytes old_accounted) (\<lambda>v. checked_add v new_accounted))
       (Core (MalformedEnvelope ''control storage counter mismatch''))) (\<lambda>next_control.
     and_then (ok_or (Option.bind (checked_sub control_reserved old_reserved) (\<lambda>v. checked_add v new_reserved))
       (Core (MalformedEnvelope ''control reservation counter mismatch''))) (\<lambda>next_reserved.
     and_then (ok_or (checked_add next_control next_reserved) (Core TooLarge)) (\<lambda>next_control_total.
     if control_capacity_bytes capacity_bytes < next_control_total
        \<or> (case checked_add event_bytes next_control_total of None \<Rightarrow> True | Some v \<Rightarrow> capacity_bytes < v)
     then Err AtCapacity
     else and_then (to_i64 next_control) (\<lambda>next_control.
          and_then (to_i64 next_reserved) (\<lambda>next_reserved.
          Ok (db\<lparr>db_stats := (db_stats db)\<lparr>st_control_bytes := next_control, st_control_reserved := next_reserved\<rparr>\<rparr>)))))))"

section \<open>Events\<close>

definition decode_policy :: "crypto \<Rightarrow> json_codec \<Rightarrow> bytes \<Rightarrow> loft_error + recipient_policy" where
  "decode_policy C J blob =
     and_then (ok_or (Option.bind (from_slice J blob) policy_from_json) Serialization) (\<lambda>p.
     and_then (from_core (policy_verify C p None)) (\<lambda>_. Ok p))"

text \<open>The transaction of \<^verbatim>\<open>insert\<close> under an exact policy expectation.\<close>

definition insert_event ::
  "crypto \<Rightarrow> json_codec \<Rightarrow> loft_db \<Rightarrow> wrap \<Rightarrow> bytes \<Rightarrow> u64 \<Rightarrow> u64 \<Rightarrow> u64 \<Rightarrow> u64 option
     \<Rightarrow> loft_error + loft_db \<times> bool" where
  "insert_event C J db w eid stored_at expires_at capacity_bytes expected =
     and_then (ok_or (map_option (to_vec J) (wrap_to_json w)) Serialization) (\<lambda>blob.
     let accounted = saturating_add (case u64_len_opt (length blob) of Some n \<Rightarrow> n | None \<Rightarrow> - 1) EVENT_STORAGE_OVERHEAD in
     if list_ex (\<lambda>e. ev_id e = eid) (db_events db) then Ok (db, False)
     else and_then (case map_of (db_policies db) (w_recipient w) of
         Some row \<Rightarrow> and_then (decode_policy C J (pr_policy row)) (\<lambda>p. Ok (Some (rp_seq p)))
       | None \<Rightarrow> Ok None) (\<lambda>actual.
     if actual \<noteq> expected then Err PolicyChanged
     else and_then (control_counters db) (\<lambda>(event_bytes, control_bytes, control_reserved).
       and_then (ok_or (Option.bind (checked_add event_bytes control_bytes) (\<lambda>v. checked_add v control_reserved))
         (Core TooLarge)) (\<lambda>used.
       if saturating_sub capacity_bytes used < accounted then Err AtCapacity
       else and_then (to_i64 stored_at) (\<lambda>stored_at.
         and_then (to_i64 expires_at) (\<lambda>expires_at.
         and_then (to_i64 accounted) (\<lambda>accounted.
         if 2 ^ 63 - 1 \<le> db_last_cursor db then Err Storage
         else Ok (db\<lparr>db_events := db_events db @
                   [\<lparr>ev_cursor = db_last_cursor db + 1, ev_id = eid, ev_recipient = w_recipient w,
                     ev_stored_at = stored_at, ev_expires_at = expires_at, ev_size = accounted, ev_blob = blob\<rparr>],
                 db_last_cursor := db_last_cursor db + 1,
                 db_stats := (db_stats db)\<lparr>st_bytes_used := st_bytes_used (db_stats db) + accounted,
                   st_event_count := st_event_count (db_stats db) + 1\<rparr>\<rparr>, True))))))))"

definition admit ::
  "crypto \<Rightarrow> json_codec \<Rightarrow> loft_db \<Rightarrow> wrap \<Rightarrow> bytes \<Rightarrow> u64 \<Rightarrow> u64 \<Rightarrow> u64 \<Rightarrow> u64 option
     \<Rightarrow> loft_error + loft_db \<times> bool" where
  "admit C J db w eid stored_at expires_at capacity_bytes expected_policy_seq =
     and_then (from_core (verify_public C w)) (\<lambda>_.
     if eid \<noteq> wrap_id C w then Err (Core (MalformedEnvelope ''event id mismatch''))
     else insert_event C J db w eid stored_at expires_at capacity_bytes expected_policy_seq)"

fun fetch_rows :: "json_codec \<Rightarrow> event_row list \<Rightarrow> loft_error + stored_event list" where
  "fetch_rows J [] = Ok []"
| "fetch_rows J (e # rest) =
     and_then (u64_try_from (ev_cursor e) ''negative stored cursor'') (\<lambda>cursor.
     and_then (ok_or (Option.bind (from_slice J (ev_blob e)) wrap_from_json) Serialization) (\<lambda>w.
     and_then (fetch_rows J rest) (\<lambda>out. Ok (\<lparr>se_cursor = cursor, se_wrap = w\<rparr> # out))))"

definition fetch :: "json_codec \<Rightarrow> loft_db \<Rightarrow> bytes \<Rightarrow> u64 \<Rightarrow> nat \<Rightarrow> loft_error + stored_event list" where
  "fetch J db recipient cursor limit =
     and_then (to_i64 cursor) (\<lambda>cursor.
     and_then (to_i64 (word_of_nat limit)) (\<lambda>_.
     fetch_rows J (take limit (filter (\<lambda>e. ev_recipient e = recipient \<and> cursor < ev_cursor e) (db_events db)))))"

section \<open>Policies\<close>

definition store_policy :: "crypto \<Rightarrow> json_codec \<Rightarrow> loft_db \<Rightarrow> bytes \<Rightarrow> loft_error + recipient_policy option" where
  "store_policy C J db pubkey =
     (case map_of (db_policies db) pubkey of
        Some row \<Rightarrow>
          and_then (decode_policy C J (pr_policy row)) (\<lambda>p.
          and_then (to_i64 (rp_seq p)) (\<lambda>seq.
          if seq \<noteq> pr_seq row \<or> uint (rp_version p) \<noteq> pr_version row
          then Err (Core (MalformedEnvelope ''stored policy mismatch''))
          else Ok (Some p)))
      | None \<Rightarrow> Ok None)"

definition put_policy ::
  "crypto \<Rightarrow> json_codec \<Rightarrow> loft_db \<Rightarrow> recipient_policy \<Rightarrow> u64 \<Rightarrow> u64 \<Rightarrow> loft_error + loft_db" where
  "put_policy C J db p capacity_bytes now =
     (if rp_version p \<noteq> RECIPIENT_POLICY_VERSION
      then Err (Core (MalformedEnvelope ''v3 policy required for write''))
      else let blob = to_vec J (policy_to_json p) in
      and_then (accounted_size (length blob) (length (rp_pubkey p))) (\<lambda>new_accounted.
      let existing = map_of (db_policies db) (rp_pubkey p) in
      if (case existing of Some row \<Rightarrow> pr_policy row = blob | None \<Rightarrow> False) then Ok db
      else and_then (case existing of
          Some row \<Rightarrow> and_then (decode_policy C J (pr_policy row)) (\<lambda>q. Ok (Some (rp_seq q)))
        | None \<Rightarrow> Ok None) (\<lambda>last_seq.
      and_then (from_core (policy_verify C p last_seq)) (\<lambda>_.
      and_then (case existing of Some row \<Rightarrow> row_u64 (pr_accounted row) | None \<Rightarrow> Ok 0) (\<lambda>old_accounted.
      and_then (replace_control_charge db capacity_bytes old_accounted new_accounted 0 0) (\<lambda>db.
      and_then (to_i64 (rp_seq p)) (\<lambda>seq.
      and_then (to_i64 now) (\<lambda>updated_at.
      and_then (to_i64 new_accounted) (\<lambda>accounted.
      Ok (db\<lparr>db_policies := AList.update (rp_pubkey p)
            \<lparr>pr_seq = seq, pr_policy = blob, pr_version = uint (rp_version p), pr_updated_at = updated_at,
             pr_accounted = accounted\<rparr> (db_policies db)\<rparr>))))))))))"

section \<open>Agent records and rotations\<close>

definition read_agent_record :: "json_codec \<Rightarrow> bytes \<Rightarrow> loft_error + agent_record" where
  "read_agent_record J blob = ok_or (Option.bind (from_slice J blob) agent_record_from_json) Serialization"

definition read_rotation :: "json_codec \<Rightarrow> bytes \<Rightarrow> loft_error + rotation_record" where
  "read_rotation J blob = ok_or (Option.bind (from_slice J blob) rotation_from_json) Serialization"

definition store_agent_record :: "json_codec \<Rightarrow> loft_db \<Rightarrow> string \<Rightarrow> loft_error + agent_record option" where
  "store_agent_record J db addr =
     (case map_of (db_agents db) addr of
        None \<Rightarrow> Ok None
      | Some row \<Rightarrow> and_then (read_agent_record J (ag_record row)) (\<lambda>r. Ok (Some r)))"

definition check_replacement ::
  "crypto \<Rightarrow> url_parser \<Rightarrow> json_codec \<Rightarrow> loft_db \<Rightarrow> address \<Rightarrow> agent_record \<Rightarrow> bytes \<Rightarrow> loft_error + unit" where
  "check_replacement C parse J db a record existing_blob =
     (if map_of (db_rotations db) a \<noteq> None then Err (Core StaleSequence)
      else and_then (read_agent_record J existing_blob) (\<lambda>prior.
      and_then (from_core (agent_record_verify C parse prior a)) (\<lambda>_.
      if ar_successor_hash prior \<noteq> ar_successor_hash record then Err (Core SuccessorMismatch)
      else if ar_seq record \<le> ar_seq prior then Err (Core StaleSequence)
      else Ok ())))"

definition put_agent_record ::
  "crypto \<Rightarrow> url_parser \<Rightarrow> json_codec \<Rightarrow> loft_db \<Rightarrow> string \<Rightarrow> agent_record \<Rightarrow> u64 \<Rightarrow> u64 \<Rightarrow> loft_error + loft_db" where
  "put_agent_record C parse J db addr record capacity_bytes now =
     and_then (from_core (address_parse addr)) (\<lambda>a.
     if ar_version record \<noteq> AGENT_RECORD_VERSION
     then Err (Core (MalformedEnvelope ''v2 agent record required for write''))
     else and_then (from_core (agent_record_verify C parse record a)) (\<lambda>_.
     let blob = to_vec J (agent_record_to_json record) in
     and_then (accounted_size (length blob) (length a)) (\<lambda>new_accounted.
     let existing = map_of (db_agents db) a in
     if (case existing of Some row \<Rightarrow> ag_record row = blob | None \<Rightarrow> False) then Ok db
     else and_then (case existing of Some row \<Rightarrow> check_replacement C parse J db a record (ag_record row) | None \<Rightarrow> Ok ()) (\<lambda>_.
     and_then (case existing of
         Some row \<Rightarrow> and_then (row_u64 (ag_accounted row)) (\<lambda>old_accounted.
                     and_then (row_u64 (ag_reservation row)) (\<lambda>reserved. Ok (old_accounted, reserved)))
       | None \<Rightarrow> Ok (0, ROTATION_STORAGE_RESERVATION)) (\<lambda>(old_accounted, reservation).
     and_then (replace_control_charge db capacity_bytes old_accounted new_accounted
       (if existing \<noteq> None then reservation else 0) reservation) (\<lambda>db.
     and_then (to_i64 (ar_seq record)) (\<lambda>seq.
     and_then (to_i64 now) (\<lambda>updated_at.
     and_then (to_i64 new_accounted) (\<lambda>accounted.
     and_then (to_i64 reservation) (\<lambda>reservation.
     case existing of
       None \<Rightarrow> Ok (db\<lparr>db_agents := AList.update a
           \<lparr>ag_seq = seq, ag_record = blob, ag_updated_at = updated_at, ag_accounted = accounted,
            ag_reservation = reservation\<rparr> (db_agents db)\<rparr>)
     | Some row \<Rightarrow>
         if ag_seq row < seq
         then Ok (db\<lparr>db_agents := AList.update a
           (row\<lparr>ag_seq := seq, ag_record := blob, ag_updated_at := updated_at, ag_accounted := accounted\<rparr>) (db_agents db)\<rparr>)
         else Err (Core StaleSequence)))))))))))"

definition store_rotation_record ::
  "crypto \<Rightarrow> url_parser \<Rightarrow> json_codec \<Rightarrow> loft_db \<Rightarrow> string \<Rightarrow> loft_error + rotation_record option" where
  "store_rotation_record C parse J db addr =
     and_then (from_core (address_parse addr)) (\<lambda>a.
     case (map_of (db_rotations db) a, map_of (db_agents db) a) of
       (Some rotation_row, Some agent_row) \<Rightarrow>
         and_then (read_agent_record J (ag_record agent_row)) (\<lambda>agent.
         and_then (from_core (agent_record_verify C parse agent a)) (\<lambda>_.
         and_then (read_rotation J (ro_record rotation_row)) (\<lambda>rotation.
         and_then (from_core (verify_source_address C rotation a)) (\<lambda>_.
         and_then (from_core (rotation_verify C rotation (ar_successor_hash agent) (ar_seq agent) (rr_activated_at rotation))) (\<lambda>_.
         Ok (Some rotation))))))
     | _ \<Rightarrow> Ok None)"

text \<open>The \<^verbatim>\<open>INSERT\<close> of a rotation, with the constraints of its table.\<close>

definition insert_rotation :: "loft_db \<Rightarrow> address \<Rightarrow> rotation_row \<Rightarrow> loft_error + loft_db" where
  "insert_rotation db a row =
     (if map_of (db_rotations db) a \<noteq> None \<or> list_ex (\<lambda>(_, r). ro_from_pubkey r = ro_from_pubkey row) (db_rotations db)
         \<or> length (ro_from_pubkey row) \<noteq> 32 \<or> length (ro_to_pubkey row) \<noteq> 32 \<or> ro_seq row \<le> 0
         \<or> ro_activated_at row \<le> 0 \<or> ro_grace_until row \<le> ro_activated_at row \<or> ro_stored_at row \<le> 0
      then Err Storage
      else Ok (db\<lparr>db_rotations := db_rotations db @ [(a, row)]\<rparr>))"

definition put_rotation_record ::
  "crypto \<Rightarrow> url_parser \<Rightarrow> json_codec \<Rightarrow> loft_db \<Rightarrow> string \<Rightarrow> rotation_record \<Rightarrow> u64 \<Rightarrow> u64
     \<Rightarrow> loft_error + loft_db \<times> bool" where
  "put_rotation_record C parse J db addr record now_secs capacity_bytes =
     and_then (from_core (address_parse addr)) (\<lambda>a.
     and_then (from_core (verify_source_address C record a)) (\<lambda>_.
     let blob = to_vec J (rotation_to_json record) in
     and_then (from_core (target_address C record)) (\<lambda>target.
     and_then (accounted_size (length blob) (length a + length target)) (\<lambda>new_accounted.
     case map_of (db_rotations db) a of
       Some row \<Rightarrow> if ro_record row = blob then Ok (db, False) else Err (Core StaleSequence)
     | None \<Rightarrow>
       and_then (ok_or (map_of (db_agents db) a) (Core (MalformedEnvelope ''rotation source record missing''))) (\<lambda>agent_row.
       and_then (row_u64 (ag_reservation agent_row)) (\<lambda>reservation.
       if reservation = 0 \<or> reservation < new_accounted then Err AtCapacity
       else and_then (read_agent_record J (ag_record agent_row)) (\<lambda>agent.
       and_then (from_core (agent_record_verify C parse agent a)) (\<lambda>_.
       and_then (from_core (rotation_verify C record (ar_successor_hash agent) (ar_seq agent) now_secs)) (\<lambda>_.
       and_then (replace_control_charge db capacity_bytes 0 new_accounted reservation 0) (\<lambda>db.
       and_then (to_i64 (rr_seq record)) (\<lambda>seq.
       and_then (to_i64 (rr_activated_at record)) (\<lambda>activated_at.
       and_then (to_i64 (rr_grace_until record)) (\<lambda>grace_until.
       and_then (to_i64 now_secs) (\<lambda>stored_at.
       and_then (to_i64 new_accounted) (\<lambda>accounted.
       and_then (insert_rotation (db\<lparr>db_agents := AList.update a (agent_row\<lparr>ag_reservation := 0\<rparr>) (db_agents db)\<rparr>) a
         \<lparr>ro_from_pubkey = rr_from_pubkey record, ro_to_address = target, ro_to_pubkey = rr_to_pubkey record,
          ro_seq = seq, ro_activated_at = activated_at, ro_grace_until = grace_until, ro_record = blob,
          ro_stored_at = stored_at, ro_accounted = accounted\<rparr>) (\<lambda>db.
       Ok (db, True)))))))))))))))))"

section \<open>Retention and statistics\<close>

text \<open>
  The rows a sweep selects: expired ones by expiry, at most a batch. Rows with the same expiry come in
  cursor order, the order of the index on \<^verbatim>\<open>expires_at\<close>.
\<close>

definition sweep_selection :: "loft_db \<Rightarrow> int \<Rightarrow> nat \<Rightarrow> event_row list" where
  "sweep_selection db now batch = take batch (sort_key ev_expires_at (filter (\<lambda>e. ev_expires_at e \<le> now) (db_events db)))"

definition sweep_expired :: "loft_db \<Rightarrow> u64 \<Rightarrow> nat \<Rightarrow> loft_error + loft_db \<times> nat" where
  "sweep_expired db now batch =
     (if batch = 0 then Ok (db, 0)
      else and_then (to_i64 now) (\<lambda>now.
        and_then (to_i64 (word_of_nat batch)) (\<lambda>_.
        let selected = sweep_selection db now batch;
            count = length selected;
            freed = sum_list (map ev_size selected)
        in if count = 0 then Ok (db, 0)
           else let kept = filter (\<lambda>e. ev_cursor e \<notin> set (map ev_cursor selected)) (db_events db);
                    removed = length (db_events db) - length kept
                in if removed \<noteq> count then Err (Core (MalformedEnvelope ''retention count mismatch''))
                   else if st_bytes_used (db_stats db) < freed \<or> st_event_count (db_stats db) < int count
                   then Err (Core (MalformedEnvelope ''storage counter mismatch''))
                   else Ok (db\<lparr>db_events := kept,
                          db_stats := (db_stats db)\<lparr>st_bytes_used := st_bytes_used (db_stats db) - freed,
                            st_event_count := st_event_count (db_stats db) - int count\<rparr>\<rparr>, removed))))"

definition stats :: "loft_db \<Rightarrow> loft_error + storage_stats" where
  "stats db =
     and_then (get_i64 (st_bytes_used (db_stats db))) (\<lambda>event_bytes.
     and_then (get_i64 (st_control_bytes (db_stats db))) (\<lambda>control_bytes.
     and_then (get_i64 (st_control_reserved (db_stats db))) (\<lambda>control_reserved.
     and_then (get_i64 (st_event_count (db_stats db))) (\<lambda>count.
     and_then (u64_counter event_bytes) (\<lambda>event_bytes.
     and_then (u64_counter control_bytes) (\<lambda>control_bytes.
     and_then (u64_counter control_reserved) (\<lambda>control_reserved.
     and_then (ok_or (Option.bind (checked_add event_bytes control_bytes) (\<lambda>v. checked_add v control_reserved))
       (Core TooLarge)) (\<lambda>all.
     and_then (u64_counter count) (\<lambda>count.
     Ok \<lparr>bytes_used = all, event_bytes_used = event_bytes, control_bytes_used = control_bytes,
         control_bytes_reserved = control_reserved, event_count = count\<rparr>)))))))))"

section \<open>Validation at startup\<close>

definition TRACE_ADMISSION_WINDOW_MS :: u64 where "TRACE_ADMISSION_WINDOW_MS = 60000"

text \<open>
  The current-schema checks of \<^verbatim>\<open>validate_loft_invariants\<close>. The source walks the policy rows in key order and
  stops at the first inconsistent one; here they are walked in table order, which accepts the same tables.
\<close>

definition check_policy_row :: "crypto \<Rightarrow> json_codec \<Rightarrow> bytes \<times> policy_row \<Rightarrow> loft_error + unit" where
  "check_policy_row C J = (\<lambda>(pubkey, row).
     and_then (ok_or (Option.bind (from_slice J (pr_policy row)) policy_from_json) Serialization) (\<lambda>p.
     and_then (from_core (policy_verify C p None)) (\<lambda>_.
     if pubkey \<noteq> rp_pubkey p then Err (Configuration ''loft recipient policy cache is inconsistent'')
     else and_then (to_i64 (rp_seq p)) (\<lambda>seq.
       if pr_seq row \<noteq> seq \<or> pr_version row \<noteq> uint (rp_version p)
          \<or> rp_version p \<notin> {LEGACY_RECIPIENT_POLICY_VERSION, PREVIOUS_RECIPIENT_POLICY_VERSION, RECIPIENT_POLICY_VERSION}
       then Err (Configuration ''loft recipient policy cache is inconsistent'')
       else Ok ()))))"

fun validate_policy_cache :: "crypto \<Rightarrow> json_codec \<Rightarrow> (bytes \<times> policy_row) list \<Rightarrow> loft_error + unit" where
  "validate_policy_cache C J [] = Ok ()"
| "validate_policy_cache C J (r # rest) = and_then (check_policy_row C J r) (\<lambda>_. validate_policy_cache C J rest)"

definition invalid_event :: "event_row \<Rightarrow> bool" where
  "invalid_event e \<longleftrightarrow> ev_cursor e \<le> 0 \<or> length (ev_id e) \<noteq> 32 \<or> length (ev_recipient e) \<noteq> 32
     \<or> ev_stored_at e < 0 \<or> ev_expires_at e < 0 \<or> ev_size e < 0
     \<or> ev_size e \<noteq> int (length (ev_blob e)) + uint EVENT_STORAGE_OVERHEAD"

definition computed_events :: "loft_db \<Rightarrow> int \<times> int" where
  "computed_events db = (sum_list (map ev_size (db_events db)), int (length (db_events db)))"

definition invalid_control_accounting :: "loft_db \<Rightarrow> bool" where
  "invalid_control_accounting db \<longleftrightarrow>
     list_ex (\<lambda>(k, r). pr_accounted r \<noteq> int (length k + length (pr_policy r)) + uint CONTROL_STORAGE_OVERHEAD) (db_policies db)
     \<or> list_ex (\<lambda>(a, r). ag_accounted r \<noteq> int (length a + length (ag_record r)) + uint CONTROL_STORAGE_OVERHEAD
         \<or> ag_reservation r \<noteq> (if map_of (db_rotations db) a \<noteq> None then 0 else uint ROTATION_STORAGE_RESERVATION)) (db_agents db)
     \<or> list_ex (\<lambda>(a, r). ro_accounted r \<noteq> int (length a + length (ro_to_address r) + length (ro_record r)) + uint CONTROL_STORAGE_OVERHEAD)
         (db_rotations db)"

definition computed_control :: "loft_db \<Rightarrow> int \<times> int" where
  "computed_control db =
     (sum_list (map (\<lambda>(_, r). pr_accounted r) (db_policies db)) + sum_list (map (\<lambda>(_, r). ag_accounted r) (db_agents db))
        + sum_list (map (\<lambda>(_, r). ro_accounted r) (db_rotations db)),
      sum_list (map (\<lambda>(_, r). ag_reservation r) (db_agents db)))"

definition validate_loft_invariants :: "crypto \<Rightarrow> json_codec \<Rightarrow> loft_db \<Rightarrow> loft_error + unit" where
  "validate_loft_invariants C J db =
     (if list_ex invalid_event (db_events db) then Err (Configuration ''loft database contains invalid event accounting'')
      else and_then (validate_policy_cache C J (db_policies db)) (\<lambda>_.
        and_then (get_i64 (st_bytes_used (db_stats db))) (\<lambda>_. and_then (get_i64 (st_event_count (db_stats db))) (\<lambda>_.
        if (st_bytes_used (db_stats db), st_event_count (db_stats db)) \<noteq> computed_events db
        then Err (Configuration ''loft storage counters do not match persisted events'')
        else if invalid_control_accounting db
        then Err (Configuration ''loft database contains invalid control storage accounting'')
        else and_then (get_i64 (st_control_bytes (db_stats db))) (\<lambda>_. and_then (get_i64 (st_control_reserved (db_stats db))) (\<lambda>_.
        if (st_control_bytes (db_stats db), st_control_reserved (db_stats db)) \<noteq> computed_control db
        then Err (Configuration ''loft control storage counters do not match persisted records'')
        else if fst (db_trace db) < 0 \<or> fst (db_trace db) mod uint TRACE_ADMISSION_WINDOW_MS \<noteq> 0 \<or> snd (db_trace db) < 0
        then Err (Configuration ''loft trace admission counter is invalid'')
        else Ok ()))))))"

end
