(* ===== verification/Loft_Invariants.thy ===== *)
theory Loft_Invariants
  imports Loft_Store "HOL-Library.Multiset"
begin

text \<open>
  What every run of loft store operations keeps: the checks a loft makes on its database at startup, the
  uniqueness of its keys, the growth of its cursors, and the capacity it was given.
\<close>

section \<open>Integer conversions and counters\<close>

lemma uint_int_unat: "uint w = int (unat w)" for w :: "'a::len word"
  by simp

lemma uint_less_numeral: "uint w < numeral k \<longleftrightarrow> unat w < numeral k" for w :: "'a::len word"
  by (subst uint_int_unat) (rule of_nat_less_numeral_iff)

lemma unat_u64: "n < 2 ^ 64 \<Longrightarrow> unat (word_of_nat n :: u64) = n"
  by (simp add: unat_of_nat take_bit_nat_eq_self)

lemma to_i64_Ok: "to_i64 v = Ok i \<longleftrightarrow> i = uint v \<and> uint v < 2 ^ 63"
proof -
  have "unat v < 2 ^ 63 \<longleftrightarrow> uint v < 2 ^ 63" by (simp add: uint_less_numeral)
  then show ?thesis by (auto simp: to_i64_def)
qed

lemma get_i64_Ok: "get_i64 v = Ok i \<longleftrightarrow> i = v \<and> - (2 ^ 63) \<le> v \<and> v < 2 ^ 63"
  by (auto simp: get_i64_def)

lemma u64_try_from_Ok: "v < 2 ^ 64 \<Longrightarrow> u64_try_from v why = Ok w \<longleftrightarrow> uint w = v"
  using unsigned_greater_eq [of w]
  by (auto simp: u64_try_from_def uint_word_of_int_eq take_bit_int_eq_self)

lemma row_u64_Ok: "row_u64 v = Ok w \<longleftrightarrow> uint w = v \<and> v < 2 ^ 63"
  using u64_try_from_Ok [of v _ w] unsigned_greater_eq [of w]
  by (auto simp: row_u64_def result_simps get_i64_Ok u64_try_from_def intro: order_trans [of _ 0])

lemma u64_len_opt_Some: "u64_len_opt n = Some w \<longleftrightarrow> unat w = n"
  using unat_lt2p [of w] by (auto simp: u64_len_opt_def unat_of_nat take_bit_nat_eq_self)

lemma accounted_size_Ok: "accounted_size n m = Ok w \<longleftrightarrow> unat w = n + m + 256"
proof
  assume "accounted_size n m = Ok w"
  then show "unat w = n + m + 256"
    by (auto simp: accounted_size_def bind_eq_Some_conv u64_len_opt_Some checked_add_Some store_consts)
next
  assume w: "unat w = n + m + 256"
  then have lt: "n + m + 256 < 2 ^ 64" using unat_lt2p [of w] by simp
  have u: "unat (word_of_nat n :: u64) = n" "unat (word_of_nat m :: u64) = m" "unat (word_of_nat (n + m) :: u64) = n + m"
    using lt by (intro unat_u64; simp)+
  then have "u64_len_opt n = Some (word_of_nat n)" "u64_len_opt m = Some (word_of_nat m)"
    "checked_add (word_of_nat n :: u64) (word_of_nat m) = Some (word_of_nat (n + m))"
    "checked_add (word_of_nat (n + m) :: u64) CONTROL_STORAGE_OVERHEAD = Some w"
    unfolding u64_len_opt_Some checked_add_Some by (simp_all add: w store_consts)
  then show "accounted_size n m = Ok w" by (simp add: accounted_size_def)
qed

abbreviation counters :: "loft_db \<Rightarrow> int \<times> int \<times> int" where
  "counters db \<equiv> (st_bytes_used (db_stats db), st_control_bytes (db_stats db), st_control_reserved (db_stats db))"

definition counters_ok :: "loft_db \<Rightarrow> bool" where
  "counters_ok db \<longleftrightarrow> (case counters db of (e, c, r) \<Rightarrow> 0 \<le> e \<and> e < 2 ^ 63 \<and> 0 \<le> c \<and> c < 2 ^ 63 \<and> 0 \<le> r \<and> r < 2 ^ 63)"

lemma control_counters_Ok:
  "control_counters db = Ok (e, c, r) \<longleftrightarrow> counters_ok db \<and> counters db = (uint e, uint c, uint r)"
proof -
  have *: "get_i64 v = Ok x \<and> u64_try_from x w = Ok y \<longleftrightarrow> x = v \<and> 0 \<le> v \<and> v < 2 ^ 63 \<and> uint y = v" for v x w and y :: u64
    using u64_try_from_Ok [of v w y] unsigned_greater_eq [of y] by (auto simp: get_i64_Ok intro: order_trans [of _ 0])
  have "control_counters db = Ok (e, c, r) \<longleftrightarrow>
    (\<exists>x y z. (get_i64 (st_bytes_used (db_stats db)) = Ok x \<and> u64_counter x = Ok e)
       \<and> (get_i64 (st_control_bytes (db_stats db)) = Ok y \<and> u64_counter y = Ok c)
       \<and> (get_i64 (st_control_reserved (db_stats db)) = Ok z \<and> u64_counter z = Ok r))"
    by (simp add: control_counters_def result_simps) blast
  then show ?thesis unfolding * by (auto simp: counters_ok_def)
qed

lemma uint_div: "uint (a div b) = uint a div uint b" for a b :: "'a::len word"
  by (rule uint_div_distrib)

lemma control_capacity: "uint (control_capacity_bytes cap) = uint cap div 20"
  by (simp add: control_capacity_bytes_def store_consts uint_div)

lemma checked_shift: "Option.bind (checked_sub v a) (\<lambda>x. checked_add x b) = Some w \<longleftrightarrow>
    uint a \<le> uint v \<and> uint w = uint v - uint a + uint b" for v a b w :: "'a::len word"
proof -
  have "Option.bind (checked_sub v a) (\<lambda>x. checked_add x b) = Some w \<longleftrightarrow>
     (\<exists>x :: 'a word. unat v = unat a + unat x \<and> unat w = unat x + unat b)"
    unfolding bind_eq_Some_conv checked_sub_Some checked_add_Some by (rule refl)
  also have "\<dots> \<longleftrightarrow> unat a \<le> unat v \<and> unat w = unat v - unat a + unat b"
  proof
    assume h: "unat a \<le> unat v \<and> unat w = unat v - unat a + unat b"
    have "unat (v - a) = unat v - unat a" using h by (simp add: unat_sub word_le_nat_alt)
    with h show "\<exists>x :: 'a word. unat v = unat a + unat x \<and> unat w = unat x + unat b" by (intro exI [of _ "v - a"]) simp
  qed auto
  also have "\<dots> \<longleftrightarrow> uint a \<le> uint v \<and> uint w = uint v - uint a + uint b"
    by (simp only: uint_int_unat) linarith
  finally show ?thesis .
qed

lemma checked_add_uint: "checked_add a b = Some c \<longleftrightarrow> uint c = uint a + uint b" for a b c :: "'a::len word"
  by (simp only: checked_add_Some uint_int_unat) linarith

definition charge_stats :: "loft_db \<Rightarrow> int \<Rightarrow> int \<Rightarrow> loft_db" where
  "charge_stats db c r = db\<lparr>db_stats := (db_stats db)\<lparr>st_control_bytes := c, st_control_reserved := r\<rparr>\<rparr>"

text \<open>A control charge is accepted exactly when both counters cover what it replaces and the result fits.\<close>

lemma replace_control_charge_Ok:
  assumes "uint cap < 2 ^ 63"
  shows "replace_control_charge db cap oa na orv nr = Ok db' \<longleftrightarrow>
    counters_ok db \<and> (case counters db of (e, c, r) \<Rightarrow>
      uint oa \<le> c \<and> uint orv \<le> r
      \<and> (c - uint oa + uint na) + (r - uint orv + uint nr) \<le> uint cap div 20
      \<and> e + (c - uint oa + uint na) + (r - uint orv + uint nr) \<le> uint cap
      \<and> db' = charge_stats db (c - uint oa + uint na) (r - uint orv + uint nr))" (is "?L \<longleftrightarrow> ?R")
proof
  assume ?L
  then show ?R
    by (auto simp: replace_control_charge_def result_simps control_counters_Ok checked_shift checked_add_uint to_i64_Ok
      charge_stats_def word_less_def control_capacity split: if_splits option.splits)
next
  assume R: ?R
  obtain e c r where c: "counters db = (e, c, r)" by simp
  define n m where "n = c - uint oa + uint na" and "m = r - uint orv + uint nr"
  have b: "counters_ok db" "uint oa \<le> c" "uint orv \<le> r" "n + m \<le> uint cap div 20" "e + n + m \<le> uint cap"
    "db' = charge_stats db n m" using R by (simp_all add: c n_def m_def)
  have nn: "0 \<le> n" "0 \<le> m" "0 \<le> e" using b(1-3) c by (auto simp: n_def m_def counters_ok_def)
  define E Cw Rw N M T U where "E = (word_of_int e :: u64)" and "Cw = (word_of_int c :: u64)" and "Rw = (word_of_int r :: u64)"
    and "N = (word_of_int n :: u64)" and "M = (word_of_int m :: u64)" and "T = (word_of_int (n + m) :: u64)"
    and "U = (word_of_int (e + n + m) :: u64)"
  have r: "c < 2 ^ 64" "r < 2 ^ 64" "0 \<le> c" "0 \<le> r" using b(1) c by (auto simp: counters_ok_def)
  have "n + m \<le> uint cap" using b(5) nn by simp
  then have u: "uint E = e" "uint Cw = c" "uint Rw = r" "uint N = n" "uint M = m" "uint T = n + m" "uint U = e + n + m"
    using b nn r assms unfolding E_def Cw_def Rw_def N_def M_def T_def U_def by (intro uint_u64; simp)+
  have "control_counters db = Ok (E, Cw, Rw)" using b(1) c u by (simp add: control_counters_Ok)
  moreover have "Option.bind (checked_sub Cw oa) (\<lambda>x. checked_add x na) = Some N"
    "Option.bind (checked_sub Rw orv) (\<lambda>x. checked_add x nr) = Some M" "checked_add N M = Some T" "checked_add E T = Some U"
    using b u by (simp_all add: checked_shift checked_add_uint n_def m_def)
  moreover have "\<not> control_capacity_bytes cap < T" "\<not> cap < U" using b u by (simp_all add: word_less_def control_capacity)
  moreover have "to_i64 N = Ok n" "to_i64 M = Ok m" using u nn b assms by (simp_all add: to_i64_Ok)
  ultimately show ?L using b(6) by (simp add: replace_control_charge_def charge_stats_def)
qed

section \<open>The invariant\<close>

definition events_ok :: "loft_db \<Rightarrow> bool" where
  "events_ok db \<longleftrightarrow> (\<forall>e \<in> set (db_events db). \<not> invalid_event e \<and> ev_cursor e \<le> db_last_cursor db)
     \<and> 0 \<le> db_last_cursor db \<and> db_last_cursor db < 2 ^ 63
     \<and> sorted_wrt (<) (map ev_cursor (db_events db)) \<and> distinct (map ev_id (db_events db))
     \<and> (st_bytes_used (db_stats db), st_event_count (db_stats db)) = computed_events db"

definition control_ok :: "loft_db \<Rightarrow> bool" where
  "control_ok db \<longleftrightarrow> \<not> invalid_control_accounting db
     \<and> (st_control_bytes (db_stats db), st_control_reserved (db_stats db)) = computed_control db
     \<and> distinct (map fst (db_policies db)) \<and> distinct (map fst (db_agents db)) \<and> distinct (map fst (db_rotations db))
     \<and> set (map fst (db_rotations db)) \<subseteq> set (map fst (db_agents db))"

definition policies_ok :: "crypto \<Rightarrow> json_codec \<Rightarrow> loft_db \<Rightarrow> bool" where
  "policies_ok C J db \<longleftrightarrow> (\<forall>r \<in> set (db_policies db). check_policy_row C J r = Ok ())"

text \<open>The agent record a row holds is the verified record of its address, with the cached sequence.\<close>

definition agent_row_ok :: "crypto \<Rightarrow> url_parser \<Rightarrow> json_codec \<Rightarrow> address \<Rightarrow> agent_row \<Rightarrow> bool" where
  "agent_row_ok C parse J a row \<longleftrightarrow> (case read_agent_record J (ag_record row) of
       Err _ \<Rightarrow> False
     | Ok r \<Rightarrow> is_ok (agent_record_verify C parse r a) \<and> ag_seq row = uint (ar_seq r) \<and> agent_record_typed r)"

text \<open>A rotation row follows the agent record of its address.\<close>

definition rotation_row_ok :: "crypto \<Rightarrow> json_codec \<Rightarrow> loft_db \<Rightarrow> address \<Rightarrow> rotation_row \<Rightarrow> bool" where
  "rotation_row_ok C J db a row \<longleftrightarrow> (case map_of (db_agents db) a of
       None \<Rightarrow> False
     | Some agent_row \<Rightarrow> (case (read_agent_record J (ag_record agent_row), read_rotation J (ro_record row)) of
         (Ok agent, Ok rotation) \<Rightarrow> is_ok (verify_source_address C rotation a)
           \<and> (\<exists>t. is_ok (rotation_verify C rotation (ar_successor_hash agent) (ar_seq agent) t))
           \<and> ro_from_pubkey row = rr_from_pubkey rotation
       | _ \<Rightarrow> False))"

definition records_ok :: "crypto \<Rightarrow> url_parser \<Rightarrow> json_codec \<Rightarrow> loft_db \<Rightarrow> bool" where
  "records_ok C parse J db \<longleftrightarrow>
     (\<forall>(a, row) \<in> set (db_agents db). agent_row_ok C parse J a row)
     \<and> (\<forall>(a, row) \<in> set (db_rotations db). rotation_row_ok C J db a row)"

definition trace_ok :: "loft_db \<Rightarrow> bool" where
  "trace_ok db \<longleftrightarrow> 0 \<le> fst (db_trace db) \<and> fst (db_trace db) mod 60000 = 0 \<and> 0 \<le> snd (db_trace db)"

text \<open>The envelope an event row holds is a publicly valid one, with the row's id and recipient.\<close>

definition event_mail :: "crypto \<Rightarrow> json_codec \<Rightarrow> event_row \<Rightarrow> bool" where
  "event_mail C J e \<longleftrightarrow> (case Option.bind (from_slice J (ev_blob e)) wrap_from_json of
       None \<Rightarrow> False
     | Some w \<Rightarrow> verify_public C w = Ok () \<and> wrap_id C w = ev_id e \<and> w_recipient w = ev_recipient e)"

definition mail_ok :: "crypto \<Rightarrow> json_codec \<Rightarrow> loft_db \<Rightarrow> bool" where
  "mail_ok C J db \<longleftrightarrow> (\<forall>e \<in> set (db_events db). event_mail C J e)"

text \<open>The capacity of the loft and the share control records may take of it.\<close>

definition within :: "u64 \<Rightarrow> loft_db \<Rightarrow> bool" where
  "within cap db \<longleftrightarrow> counters_ok db \<and> (case counters db of (e, c, r) \<Rightarrow> e + c + r \<le> uint cap \<and> c + r \<le> uint cap div 20)"

definition loft_inv :: "crypto \<Rightarrow> url_parser \<Rightarrow> json_codec \<Rightarrow> u64 \<Rightarrow> loft_db \<Rightarrow> bool" where
  "loft_inv C parse J cap db \<longleftrightarrow> events_ok db \<and> control_ok db \<and> policies_ok C J db \<and> records_ok C parse J db
     \<and> trace_ok db \<and> mail_ok C J db \<and> within cap db"

lemma validate_policy_cache_Ok: "validate_policy_cache C J rs = Ok u \<longleftrightarrow> (\<forall>r \<in> set rs. check_policy_row C J r = Ok ())"
  by (induction rs) (auto simp: result_simps)

lemma trace_window: "uint TRACE_ADMISSION_WINDOW_MS = 60000"
  by (simp add: TRACE_ADMISSION_WINDOW_MS_def)

lemma event_size_ge: "\<not> invalid_event e \<Longrightarrow> 256 \<le> ev_size e"
  by (auto simp: invalid_event_def store_consts)

lemma sum_sizes_ge: "(\<forall>e \<in> set es. \<not> invalid_event e) \<Longrightarrow> int (length es) \<le> sum_list (map ev_size es)"
proof (induction es)
  case (Cons e es)
  then show ?case using event_size_ge [of e] by simp
qed simp

text \<open>A database that satisfies the invariant passes the checks made at startup.\<close>

lemma inv_validates: "loft_inv C parse J cap db \<Longrightarrow> validate_loft_invariants C J db = Ok ()"
proof -
  assume inv: "loft_inv C parse J cap db"
  then have e: "events_ok db" and w: "within cap db" by (simp_all add: loft_inv_def)
  have "int (length (db_events db)) \<le> st_bytes_used (db_stats db)"
    using e sum_sizes_ge [of "db_events db"] by (simp add: events_ok_def computed_events_def)
  with w e have "get_i64 (st_event_count (db_stats db)) = Ok (st_event_count (db_stats db))"
    by (simp add: get_i64_Ok within_def counters_ok_def events_ok_def computed_events_def)
  moreover have "get_i64 (st_bytes_used (db_stats db)) = Ok (st_bytes_used (db_stats db))"
    "get_i64 (st_control_bytes (db_stats db)) = Ok (st_control_bytes (db_stats db))"
    "get_i64 (st_control_reserved (db_stats db)) = Ok (st_control_reserved (db_stats db))"
    using w by (simp_all add: get_i64_Ok within_def counters_ok_def)
  moreover have "validate_policy_cache C J (db_policies db) = Ok ()"
    using inv by (simp add: loft_inv_def policies_ok_def validate_policy_cache_Ok)
  moreover have "\<not> list_ex invalid_event (db_events db)" using e by (simp add: events_ok_def list_ex_iff)
  ultimately show ?thesis
    using inv by (simp add: validate_loft_invariants_def loft_inv_def events_ok_def control_ok_def trace_ok_def trace_window)
qed

lemma empty_inv: "loft_inv C parse J cap empty_db"
  by (simp add: loft_inv_def empty_db_def events_ok_def control_ok_def policies_ok_def records_ok_def trace_ok_def mail_ok_def within_def
    counters_ok_def computed_events_def computed_control_def invalid_control_accounting_def pos_imp_zdiv_nonneg_iff)

section \<open>Events\<close>

definition add_event :: "loft_db \<Rightarrow> event_row \<Rightarrow> loft_db" where
  "add_event db e = db\<lparr>db_events := db_events db @ [e], db_last_cursor := ev_cursor e,
     db_stats := (db_stats db)\<lparr>st_bytes_used := st_bytes_used (db_stats db) + ev_size e,
       st_event_count := st_event_count (db_stats db) + 1\<rparr>\<rparr>"

definition expected_seq :: "crypto \<Rightarrow> json_codec \<Rightarrow> loft_db \<Rightarrow> bytes \<Rightarrow> u64 option \<Rightarrow> bool" where
  "expected_seq C J db k expected \<longleftrightarrow> (case map_of (db_policies db) k of
       None \<Rightarrow> expected = None
     | Some row \<Rightarrow> (\<exists>p. decode_policy C J (pr_policy row) = Ok p \<and> expected = Some (rp_seq p)))"

lemma event_accounted:
  assumes "unat (saturating_add (case u64_len_opt n of Some n \<Rightarrow> n | None \<Rightarrow> - 1) EVENT_STORAGE_OVERHEAD) < 2 ^ 63"
  shows "uint (saturating_add (case u64_len_opt n of Some n \<Rightarrow> n | None \<Rightarrow> - 1) EVENT_STORAGE_OVERHEAD) = int n + 256"
proof (cases "n < 2 ^ 64")
  case True
  then have "u64_len_opt n = Some (word_of_nat n)" "unat (word_of_nat n :: u64) = n" by (simp_all add: u64_len_opt_def unat_u64)
  with assms show ?thesis
    by (simp only: option.case uint_int_unat) (simp add: unat_saturating_add store_consts min_def split: if_splits)
next
  case False
  then have "u64_len_opt n = None" by (simp add: u64_len_opt_def)
  with assms show ?thesis
    by (simp add: unat_saturating_add store_consts unsigned_minus_1_eq_mask mask_eq_exp_minus_1)
qed

lemma admit_cases:
  assumes "admit C J db w eid stored_at expires_at cap expected = Ok (db', fresh)"
  obtains (duplicate) "\<not> fresh" "db' = db" "eid \<in> set (map ev_id (db_events db))" "verify_public C w = Ok ()" "eid = wrap_id C w"
  | (stored) j e where "fresh" "db' = add_event db e" "eid \<notin> set (map ev_id (db_events db))" "verify_public C w = Ok ()"
      "eid = wrap_id C w" "wrap_to_json w = Some j" "expected_seq C J db (w_recipient w) expected"
      "e = \<lparr>ev_cursor = db_last_cursor db + 1, ev_id = eid, ev_recipient = w_recipient w, ev_stored_at = uint stored_at,
            ev_expires_at = uint expires_at, ev_size = int (length (to_vec J j)) + 256, ev_blob = to_vec J j\<rparr>"
      "counters_ok db" "case counters db of (e, c, r) \<Rightarrow> e + c + r + int (length (to_vec J j)) + 256 \<le> uint cap"
      "db_last_cursor db < 2 ^ 63 - 1" "uint stored_at < 2 ^ 63" "uint expires_at < 2 ^ 63"
proof -
  from assms have v: "verify_public C w = Ok ()" "eid = wrap_id C w"
    and ins: "insert_event C J db w eid stored_at expires_at cap expected = Ok (db', fresh)"
    by (auto simp: admit_def result_simps split: if_splits)
  from ins obtain j where j: "wrap_to_json w = Some j" by (auto simp: insert_event_def result_simps Let_def)
  show ?thesis
  proof (cases "eid \<in> set (map ev_id (db_events db))")
    case True
    then have "list_ex (\<lambda>e. ev_id e = eid) (db_events db)" by (auto simp: list_ex_iff)
    with ins j have "\<not> fresh" "db' = db" by (auto simp: insert_event_def)
    then show ?thesis using True v duplicate by blast
  next
    case False
    let ?acc = "saturating_add (case u64_len_opt (length (to_vec J j)) of Some n \<Rightarrow> n | None \<Rightarrow> - 1) EVENT_STORAGE_OVERHEAD"
    from False have "\<not> list_ex (\<lambda>e. ev_id e = eid) (db_events db)" by (auto simp: list_ex_iff)
    with ins j obtain e c r used where
        x: "expected_seq C J db (w_recipient w) expected" and c: "control_counters db = Ok (e, c, r)"
      and used: "Option.bind (checked_add e c) (\<lambda>v. checked_add v r) = Some used" "\<not> saturating_sub cap used < ?acc"
      and i: "uint stored_at < 2 ^ 63" "uint expires_at < 2 ^ 63" "uint ?acc < 2 ^ 63" "db_last_cursor db < 2 ^ 63 - 1"
      and db': "fresh" "db' = add_event db \<lparr>ev_cursor = db_last_cursor db + 1, ev_id = eid, ev_recipient = w_recipient w,
        ev_stored_at = uint stored_at, ev_expires_at = uint expires_at, ev_size = uint ?acc, ev_blob = to_vec J j\<rparr>"
      by (auto simp: insert_event_def result_simps Let_def to_i64_Ok expected_seq_def add_event_def
        split: if_splits option.splits)
    from i(3) have acc: "uint ?acc = int (length (to_vec J j)) + 256" by (intro event_accounted) (simp add: uint_less_numeral)
    have "uint used = uint e + uint c + uint r" using used(1) by (auto simp: bind_eq_Some_conv checked_add_uint)
    moreover have "uint ?acc \<le> uint (saturating_sub cap used)" using used(2) by (simp add: word_less_def)
    moreover have "uint (saturating_sub cap used) = max 0 (uint cap - uint used)"
      by (simp only: uint_int_unat unat_saturating_sub)
    ultimately have "uint e + uint c + uint r + int (length (to_vec J j)) + 256 \<le> uint cap"
      using acc unsigned_greater_eq [of used] by (auto simp: max_def split: if_splits)
    with c have "counters_ok db" "case counters db of (e, c, r) \<Rightarrow> e + c + r + int (length (to_vec J j)) + 256 \<le> uint cap"
      by (auto simp: control_counters_Ok)
    from stored [OF db' False v j x _ this i(4) i(1,2)] show ?thesis by (simp add: acc)
  qed
qed

lemma wrap_id_length: "hash_contract C \<Longrightarrow> length (wrap_id C w) = 32"
  by (simp add: wrap_id_def wrap_id_v2_def wrap_id_v3_def sha256_length)

lemma wrap_json_wf:
  assumes "wrap_wf w" "wrap_to_json w = Some j" "w_version w = ENVELOPE_VERSION"
  shows "json_wf j" "length (w_ciphertext w) \<le> MAX_ENVELOPE_CIPHERTEXT"
  using assms block_json_wf json_wf_words(1) [of 3]
  by (auto simp: wrap_to_json_def wrap_wf_def bind_eq_Some_conv compact_serialize_Some fits_u32_def envelope_consts length_to_hex
    simp del: json_wf.simps(3) split: option.splits)

lemma wrap_blob_read:
  assumes "json_contract J" "wrap_wf w" "wrap_to_json w = Some j" "w_version w = ENVELOPE_VERSION"
  shows "Option.bind (from_slice J (to_vec J j)) wrap_from_json = Some w"
  using wrap_json_round_trip [OF assms(2) wrap_json_wf(2) [OF assms(2-4)]] wrap_json_wf(1) [OF assms(2-4)] assms(1,3)
  by (auto simp: json_contract_def)

lemma verify_public_version: "verify_public C w = Ok u \<Longrightarrow> w_version w = ENVELOPE_VERSION"
  by (simp add: verify_public_def split: if_splits)

lemma add_event_simps [simp]:
  "db_events (add_event db e) = db_events db @ [e]" "db_last_cursor (add_event db e) = ev_cursor e"
  "db_policies (add_event db e) = db_policies db" "db_agents (add_event db e) = db_agents db"
  "db_rotations (add_event db e) = db_rotations db" "db_trace (add_event db e) = db_trace db"
  "st_bytes_used (db_stats (add_event db e)) = st_bytes_used (db_stats db) + ev_size e"
  "st_event_count (db_stats (add_event db e)) = st_event_count (db_stats db) + 1"
  "st_control_bytes (db_stats (add_event db e)) = st_control_bytes (db_stats db)"
  "st_control_reserved (db_stats (add_event db e)) = st_control_reserved (db_stats db)"
  by (simp_all add: add_event_def)

text \<open>What an invariant on the control tables depends on.\<close>

lemma control_frame:
  assumes "db_policies db' = db_policies db" "db_agents db' = db_agents db" "db_rotations db' = db_rotations db"
    and "st_control_bytes (db_stats db') = st_control_bytes (db_stats db)"
    and "st_control_reserved (db_stats db') = st_control_reserved (db_stats db)"
  shows "control_ok db' = control_ok db" "policies_ok C J db' = policies_ok C J db" "records_ok C parse J db' = records_ok C parse J db"
  using assms by (simp_all add: control_ok_def invalid_control_accounting_def computed_control_def policies_ok_def
    records_ok_def rotation_row_ok_def)

lemma admit_inv:
  assumes "admit C J db w eid stored_at expires_at cap expected = Ok (db', fresh)"
    and inv: "loft_inv C parse J cap db" and "hash_contract C" "wrap_wf w" "uint cap < 2 ^ 63" "json_contract J"
  shows "loft_inv C parse J cap db'"
  using assms(1)
proof (cases rule: admit_cases)
  case duplicate
  with inv show ?thesis by simp
next
  case (stored j e)
  from inv have ev: "events_ok db" and rest: "control_ok db" "policies_ok C J db" "records_ok C parse J db" "trace_ok db"
    and m: "mail_ok C J db" and w: "within cap db" by (simp_all add: loft_inv_def)
  have "\<forall>x \<in> set (db_events db). ev_cursor x < ev_cursor e"
    using ev stored(8) by (auto simp: events_ok_def)
  moreover have "\<not> invalid_event e"
    using ev stored(5) assms(3,4) wrap_id_length [of C w] by (simp add: stored(8) invalid_event_def store_consts events_ok_def wrap_wf_def)
  moreover have "event_mail C J e"
    using stored(4,5) wrap_blob_read [OF assms(6,4) stored(6) verify_public_version [OF stored(4)]] by (simp add: event_mail_def stored(8))
  ultimately have "events_ok (add_event db e)" "mail_ok C J (add_event db e)"
    using ev m stored by (auto simp: events_ok_def computed_events_def sorted_wrt_append mail_ok_def)
  moreover have "within cap (add_event db e)"
    using w stored(9,10) assms(5) unfolding within_def counters_ok_def by (simp add: stored(8))
  ultimately show ?thesis
    using rest control_frame [of "add_event db e" db] by (simp add: loft_inv_def stored(2) trace_ok_def)
qed

section \<open>Table updates\<close>

lemma sum_update:
  "sum_list (map (\<lambda>(_, r). f r) (AList.update k v al)) =
     sum_list (map (\<lambda>(_, r). f r) al) - (case map_of al k of None \<Rightarrow> 0 | Some r \<Rightarrow> f r) + (f v :: int)"
  by (induction al) auto

lemma set_update: "x \<in> set (AList.update k v al) \<Longrightarrow> x = (k, v) \<or> x \<in> set al"
  by (induction al) (auto split: if_splits)

lemma set_update_distinct:
  "distinct (map fst al) \<Longrightarrow> (a, r) \<in> set (AList.update k v al) \<longleftrightarrow> (a = k \<and> r = v \<or> a \<noteq> k \<and> (a, r) \<in> set al)"
  by (induction al) (auto simp: image_iff)

lemma keys_update: "set (map fst (AList.update k v al)) = insert k (set (map fst al))"
  by (simp add: dom_update)

lemma charge_simps [simp]:
  "db_events (charge_stats db c r) = db_events db" "db_last_cursor (charge_stats db c r) = db_last_cursor db"
  "db_policies (charge_stats db c r) = db_policies db" "db_agents (charge_stats db c r) = db_agents db"
  "db_rotations (charge_stats db c r) = db_rotations db" "db_trace (charge_stats db c r) = db_trace db"
  "st_bytes_used (db_stats (charge_stats db c r)) = st_bytes_used (db_stats db)"
  "st_event_count (db_stats (charge_stats db c r)) = st_event_count (db_stats db)"
  "st_control_bytes (db_stats (charge_stats db c r)) = c" "st_control_reserved (db_stats (charge_stats db c r)) = r"
  by (simp_all add: charge_stats_def)

lemma events_frame:
  assumes "db_events db' = db_events db" "db_last_cursor db' = db_last_cursor db"
    and "st_bytes_used (db_stats db') = st_bytes_used (db_stats db)" "st_event_count (db_stats db') = st_event_count (db_stats db)"
  shows "events_ok db' = events_ok db"
  using assms by (simp add: events_ok_def computed_events_def)

text \<open>After an accepted charge the counters are the ones charged, and they fit.\<close>

lemma charged_within:
  assumes "replace_control_charge db cap oa na orv nr = Ok db'" "uint cap < 2 ^ 63"
  shows "db' = charge_stats db (st_control_bytes (db_stats db) - uint oa + uint na) (st_control_reserved (db_stats db) - uint orv + uint nr)"
    and "within cap db'"
proof -
  define n m where "n = st_control_bytes (db_stats db) - uint oa + uint na" and "m = st_control_reserved (db_stats db) - uint orv + uint nr"
  from assms(1) have h: "counters_ok db" "uint oa \<le> st_control_bytes (db_stats db)" "uint orv \<le> st_control_reserved (db_stats db)"
    "n + m \<le> uint cap div 20" "st_bytes_used (db_stats db) + n + m \<le> uint cap" "db' = charge_stats db n m"
    unfolding replace_control_charge_Ok [OF assms(2)] n_def m_def by simp_all
  then have "0 \<le> n" "0 \<le> m" by (simp_all add: n_def m_def)
  with h assms(2) show "within cap db'" by (simp add: within_def counters_ok_def)
  show "db' = charge_stats db (st_control_bytes (db_stats db) - uint oa + uint na) (st_control_reserved (db_stats db) - uint orv + uint nr)"
    using h(6) by (simp add: n_def m_def)
qed

section \<open>Policies\<close>

lemma decode_policy_Ok:
  "decode_policy C J blob = Ok p \<longleftrightarrow> Option.bind (from_slice J blob) policy_from_json = Some p \<and> is_ok (policy_verify C p None)"
  by (auto simp: decode_policy_def result_simps is_ok_iff)

lemma put_policy_cases:
  assumes "put_policy C J db p cap now = Ok db'" "uint cap < 2 ^ 63"
  obtains (same) row where "db' = db" "map_of (db_policies db) (rp_pubkey p) = Some row" "pr_policy row = to_vec J (policy_to_json p)"
      "rp_version p = RECIPIENT_POLICY_VERSION"
  | (written) row db1 old na last_seq where "rp_version p = RECIPIENT_POLICY_VERSION"
      "row = \<lparr>pr_seq = uint (rp_seq p), pr_policy = to_vec J (policy_to_json p), pr_version = 3, pr_updated_at = uint now,
          pr_accounted = int (length (rp_pubkey p) + length (to_vec J (policy_to_json p))) + 256\<rparr>"
      "is_ok (policy_verify C p last_seq)"
      "case map_of (db_policies db) (rp_pubkey p) of None \<Rightarrow> last_seq = None
       | Some r \<Rightarrow> \<exists>q. decode_policy C J (pr_policy r) = Ok q \<and> last_seq = Some (rp_seq q)"
      "uint old = (case map_of (db_policies db) (rp_pubkey p) of None \<Rightarrow> 0 | Some r \<Rightarrow> pr_accounted r)"
      "replace_control_charge db cap old na 0 0 = Ok db1" "uint na = pr_accounted row"
      "db' = db1\<lparr>db_policies := AList.update (rp_pubkey p) row (db_policies db)\<rparr>" "uint (rp_seq p) < 2 ^ 63"
proof -
  define blob where "blob = to_vec J (policy_to_json p)"
  define existing where "existing = map_of (db_policies db) (rp_pubkey p)"
  note defs = put_policy_def Let_def blob_def [symmetric] existing_def [symmetric]
  from assms(1) have v: "rp_version p = RECIPIENT_POLICY_VERSION" by (auto simp: put_policy_def split: if_splits)
  show ?thesis
  proof (cases "case existing of Some row \<Rightarrow> pr_policy row = blob | None \<Rightarrow> False")
    case True
    then obtain row where row: "existing = Some row" "pr_policy row = blob" by (auto split: option.splits)
    with assms(1) v have "db' = db" by (auto simp: defs result_simps)
    with row v show ?thesis by (intro same [of row]) (simp_all add: existing_def blob_def)
  next
    case False
    with assms(1) v obtain na last_seq old db1 u1 where na: "accounted_size (length blob) (length (rp_pubkey p)) = Ok na"
      and l: "(case existing of Some row \<Rightarrow> and_then (decode_policy C J (pr_policy row)) (\<lambda>q. Ok (Some (rp_seq q))) | None \<Rightarrow> Ok None) = Ok last_seq"
      and u: "policy_verify C p last_seq = Ok u1" and old: "(case existing of Some row \<Rightarrow> row_u64 (pr_accounted row) | None \<Rightarrow> Ok 0) = Ok old"
      and r: "replace_control_charge db cap old na 0 0 = Ok db1" "uint (rp_seq p) < 2 ^ 63" and na63: "uint na < 2 ^ 63"
      and db': "db' = db1\<lparr>db_policies := AList.update (rp_pubkey p)
        \<lparr>pr_seq = uint (rp_seq p), pr_policy = blob, pr_version = uint (rp_version p), pr_updated_at = uint now, pr_accounted = uint na\<rparr> (db_policies db1)\<rparr>"
      by (auto simp: defs result_simps to_i64_Ok)
    have "uint na = int (length (rp_pubkey p) + length blob) + 256"
      using na by (simp add: accounted_size_Ok uint_int_unat del: of_nat_unat) 
    then show ?thesis
      using v u r old l db' charged_within(1) [OF r(1) assms(2)]
      by (intro written [of _ last_seq old na db1])
        (auto simp: blob_def existing_def policy_consts is_ok_iff result_simps row_u64_Ok split: option.splits)
  qed
qed

lemma put_policy_inv:
  assumes "put_policy C J db p cap now = Ok db'"
    and inv: "loft_inv C parse J cap db" and "uint cap < 2 ^ 63" "policy_typed p" "json_contract J"
  shows "loft_inv C parse J cap db'"
  using assms(1,3)
proof (cases rule: put_policy_cases)
  case same
  with inv show ?thesis by simp
next
  case (written row db1 old na last_seq)
  from inv have c: "control_ok db" and rest: "events_ok db" "policies_ok C J db" "records_ok C parse J db" "trace_ok db" "mail_ok C J db"
    by (simp_all add: loft_inv_def)
  note db1 = charged_within [OF written(6) assms(3)]
  have "Option.bind (from_slice J (pr_policy row)) policy_from_json = Some p"
    using assms(4,5) by (simp add: written(2) json_contract_def policy_json_wf policy_json_round_trip)
  moreover have "is_ok (policy_verify C p None)" using written(3) by (auto simp: is_ok_iff policy_verify_Ok)
  ultimately have "check_policy_row C J (rp_pubkey p, row) = Ok ()"
    using written(1,2,9) to_i64_Ok [of "rp_seq p" "uint (rp_seq p)"] by (auto simp: check_policy_row_def is_ok_iff policy_consts)
  then have "policies_ok C J db'"
    using rest(2) by (auto simp: policies_ok_def written(8) dest!: set_update)
  moreover have "control_ok db'"
    using c written(5,7) unfolding control_ok_def invalid_control_accounting_def computed_control_def written(8) db1(1)
    by (auto simp: sum_update distinct_update list_ex_iff store_consts written(2) dest!: set_update split: option.splits)
  moreover have "within cap db'" using db1(2) by (simp add: within_def counters_ok_def written(8))
  moreover have "events_ok db'" using rest(1) events_frame [of db' db] by (simp add: written(8) db1(1))
  ultimately show ?thesis
    using rest by (simp add: loft_inv_def written(8) db1(1) records_ok_def rotation_row_ok_def trace_ok_def mail_ok_def)
qed

text \<open>The accounting checks, row by row.\<close>

definition agent_accounted :: "loft_db \<Rightarrow> address \<Rightarrow> agent_row \<Rightarrow> bool" where
  "agent_accounted db a r \<longleftrightarrow> ag_accounted r = int (length a + length (ag_record r)) + 256
     \<and> ag_reservation r = (case map_of (db_rotations db) a of None \<Rightarrow> 4096 | Some _ \<Rightarrow> 0)"

lemma control_accounting_iff:
  "\<not> invalid_control_accounting db \<longleftrightarrow>
     (\<forall>(k, r) \<in> set (db_policies db). pr_accounted r = int (length k + length (pr_policy r)) + 256)
     \<and> (\<forall>(a, r) \<in> set (db_agents db). agent_accounted db a r)
     \<and> (\<forall>(a, r) \<in> set (db_rotations db). ro_accounted r = int (length a + length (ro_to_address r) + length (ro_record r)) + 256)"
  unfolding invalid_control_accounting_def list_ex_iff agent_accounted_def store_consts
  by (auto split: option.splits)

lemma agent_accounted_frame:
  "map_of (db_rotations db') a = map_of (db_rotations db) a \<Longrightarrow> agent_accounted db' a r = agent_accounted db a r"
  by (simp add: agent_accounted_def)

lemma control_accountingD:
  "\<not> invalid_control_accounting db \<Longrightarrow> (a, r) \<in> set (db_agents db) \<Longrightarrow> agent_accounted db a r"
  by (auto simp: control_accounting_iff)

section \<open>Agent records\<close>

abbreviation agent_blob :: "json_codec \<Rightarrow> agent_record \<Rightarrow> bytes" where
  "agent_blob J r \<equiv> to_vec J (agent_record_to_json r)"

lemma put_agent_record_cases:
  assumes "put_agent_record C parse J db addr record cap now = Ok db'" "uint cap < 2 ^ 63"
  obtains (same) a row where "address_parse addr = Ok a" "is_ok (agent_record_verify C parse record a)" "db' = db"
      "map_of (db_agents db) a = Some row" "ag_record row = agent_blob J record"
  | (written) a row db1 old na oldr res where "address_parse addr = Ok a" "is_ok (agent_record_verify C parse record a)"
      "row = \<lparr>ag_seq = uint (ar_seq record), ag_record = agent_blob J record, ag_updated_at = uint now,
          ag_accounted = int (length a + length (agent_blob J record)) + 256, ag_reservation = uint res\<rparr>"
      "case map_of (db_agents db) a of
         None \<Rightarrow> old = 0 \<and> oldr = 0 \<and> res = ROTATION_STORAGE_RESERVATION
       | Some r \<Rightarrow> check_replacement C parse J db a record (ag_record r) = Ok () \<and> uint old = ag_accounted r \<and> oldr = res
           \<and> uint res = ag_reservation r \<and> ag_seq r < uint (ar_seq record)"
      "replace_control_charge db cap old na oldr res = Ok db1" "uint na = ag_accounted row"
      "db' = db1\<lparr>db_agents := AList.update a row (db_agents db)\<rparr>"
proof -
  from assms(1) obtain a u where a: "address_parse addr = Ok a" and v: "ar_version record = AGENT_RECORD_VERSION"
    and u: "agent_record_verify C parse record a = Ok u"
    by (auto simp: put_agent_record_def result_simps split: if_splits)
  define existing where "existing = map_of (db_agents db) a"
  note defs = put_agent_record_def Let_def existing_def [symmetric]
  show ?thesis
  proof (cases "case existing of Some row \<Rightarrow> ag_record row = agent_blob J record | None \<Rightarrow> False")
    case True
    then obtain row where row: "existing = Some row" "ag_record row = agent_blob J record" by (auto split: option.splits)
    with assms(1) a v u have "db' = db" by (auto simp: defs result_simps)
    with row a u show ?thesis by (intro same [of a row]) (simp_all add: existing_def is_ok_iff)
  next
    case new: False
    show ?thesis
    proof (cases existing)
      case None
      with assms(1) a v u obtain na db1 where na: "accounted_size (length (agent_blob J record)) (length a) = Ok na"
        and r: "replace_control_charge db cap 0 na 0 ROTATION_STORAGE_RESERVATION = Ok db1"
        and db': "db' = db1\<lparr>db_agents := AList.update a \<lparr>ag_seq = uint (ar_seq record), ag_record = agent_blob J record,
          ag_updated_at = uint now, ag_accounted = uint na, ag_reservation = uint ROTATION_STORAGE_RESERVATION\<rparr> (db_agents db1)\<rparr>"
        by (auto simp: defs result_simps to_i64_Ok)
      have "uint na = int (length a + length (agent_blob J record)) + 256"
        using na by (simp add: accounted_size_Ok uint_int_unat del: of_nat_unat)
      then show ?thesis
        using a u r db' None charged_within(1) [OF r assms(2)]
        by (intro written [of a _ ROTATION_STORAGE_RESERVATION 0 0 na db1]) (simp_all add: existing_def is_ok_iff)
    next
      case (Some row)
      with new assms(1) a v u obtain na db1 old res where na: "accounted_size (length (agent_blob J record)) (length a) = Ok na"
        and ch: "check_replacement C parse J db a record (ag_record row) = Ok ()"
        and o: "row_u64 (ag_accounted row) = Ok old" "row_u64 (ag_reservation row) = Ok res"
        and r: "replace_control_charge db cap old na res res = Ok db1" and s: "ag_seq row < uint (ar_seq record)"
        and db': "db' = db1\<lparr>db_agents := AList.update a (row\<lparr>ag_seq := uint (ar_seq record), ag_record := agent_blob J record,
          ag_updated_at := uint now, ag_accounted := uint na\<rparr>) (db_agents db1)\<rparr>"
        by (auto simp: defs result_simps to_i64_Ok split: if_splits)
      have "uint na = int (length a + length (agent_blob J record)) + 256"
        using na by (simp add: accounted_size_Ok uint_int_unat del: of_nat_unat)
      moreover have "uint old = ag_accounted row" "uint res = ag_reservation row" using o by (simp_all add: row_u64_Ok)
      ultimately show ?thesis
        using a u r db' Some ch s charged_within(1) [OF r assms(2)]
        by (intro written [of a _ res old res na db1]) (auto simp: existing_def is_ok_iff)
    qed
  qed
qed

lemma read_agent_blob:
  "json_contract J \<Longrightarrow> agent_record_typed r \<Longrightarrow> read_agent_record J (agent_blob J r) = Ok r"
  by (simp add: read_agent_record_def json_contract_def agent_record_json_wf agent_record_json_round_trip)

lemma rotation_row_frame:
  "map_of (db_agents db') a = map_of (db_agents db) a \<Longrightarrow> rotation_row_ok C J db' a row = rotation_row_ok C J db a row"
  by (simp add: rotation_row_ok_def)

lemma put_agent_record_inv:
  assumes "put_agent_record C parse J db addr record cap now = Ok db'"
    and inv: "loft_inv C parse J cap db" and "uint cap < 2 ^ 63" "agent_record_typed record" "json_contract J"
  shows "loft_inv C parse J cap db'"
  using assms(1,3)
proof (cases rule: put_agent_record_cases)
  case same
  with inv show ?thesis by simp
next
  case (written a row db1 old na oldr res)
  from inv have c: "control_ok db" and rest: "events_ok db" "policies_ok C J db" "records_ok C parse J db" "trace_ok db" "mail_ok C J db"
    by (simp_all add: loft_inv_def)
  note db1 = charged_within [OF written(5) assms(3)]
  have norot: "map_of (db_rotations db) a = None"
  proof (cases "map_of (db_agents db) a")
    case None
    with c show ?thesis by (auto simp: control_ok_def map_of_eq_None_iff)
  next
    case (Some r)
    with written(4) show ?thesis by (auto simp: check_replacement_def split: if_splits)
  qed
  have "agent_row_ok C parse J a row"
    using written(2) by (simp add: agent_row_ok_def written(3) read_agent_blob [OF assms(5,4)] assms(4))
  moreover have "rotation_row_ok C J db' a' r" if "(a', r) \<in> set (db_rotations db)" for a' r
  proof -
    have "a' \<noteq> a" using that norot by (force simp: map_of_eq_None_iff)
    then have "map_of (db_agents db') a' = map_of (db_agents db) a'" by (simp add: written(7) update_conv')
    then show ?thesis using that rest(3) rotation_row_frame [of db' a' db] by (auto simp: records_ok_def)
  qed
  ultimately have "records_ok C parse J db'"
    using rest(3) by (auto simp: records_ok_def written(7) db1(1) dest!: set_update)
  moreover have "control_ok db'"
  proof -
    have d: "distinct (map fst (db_agents db))" and acc: "\<not> invalid_control_accounting db" using c by (simp_all add: control_ok_def)
    have res: "uint res = 4096"
    proof (cases "map_of (db_agents db) a")
      case (Some r)
      then have "agent_accounted db a r" using acc by (auto simp: control_accounting_iff dest!: map_of_SomeD)
      with Some written(4) norot show ?thesis by (simp add: agent_accounted_def)
    qed (use written(4) in \<open>simp add: store_consts\<close>)
    then have "agent_accounted db a row" using norot by (simp add: agent_accounted_def written(3))
    then have "\<forall>(a, r) \<in> set (db_agents db'). agent_accounted db a r"
      using control_accountingD [OF acc] by (auto simp: written(7) set_update_distinct [OF d])
    moreover have "db_policies db' = db_policies db" "db_rotations db' = db_rotations db" by (simp_all add: written(7) db1(1))
    ultimately have "\<not> invalid_control_accounting db'"
      using acc unfolding control_accounting_iff agent_accounted_def by simp
    moreover have "(st_control_bytes (db_stats db'), st_control_reserved (db_stats db')) = computed_control db'"
      using c written(4,6) unfolding control_ok_def computed_control_def written(7) db1(1)
      by (cases "map_of (db_agents db) a") (simp_all add: sum_update written(3) del: map_of_eq_Some_iff)
    moreover have "set (map fst (db_rotations db')) \<subseteq> set (map fst (db_agents db'))"
      using c by (auto simp: control_ok_def keys_update written(7) db1(1) simp del: set_map)
    ultimately show ?thesis using c by (simp add: control_ok_def written(7) db1(1) distinct_update)
  qed
  moreover have "within cap db'" using db1(2) by (simp add: within_def counters_ok_def written(7))
  moreover have "events_ok db'" using rest(1) events_frame [of db' db] by (simp add: written(7) db1(1))
  ultimately show ?thesis
    using rest by (simp add: loft_inv_def written(7) db1(1) policies_ok_def trace_ok_def mail_ok_def)
qed

section \<open>Rotations\<close>

abbreviation rotation_blob :: "json_codec \<Rightarrow> rotation_record \<Rightarrow> bytes" where
  "rotation_blob J r \<equiv> to_vec J (rotation_to_json r)"

abbreviation rotation_row_of :: "json_codec \<Rightarrow> rotation_record \<Rightarrow> address \<Rightarrow> u64 \<Rightarrow> u64 \<Rightarrow> rotation_row" where
  "rotation_row_of J record target now na \<equiv> \<lparr>ro_from_pubkey = rr_from_pubkey record, ro_to_address = target,
     ro_to_pubkey = rr_to_pubkey record, ro_seq = uint (rr_seq record), ro_activated_at = uint (rr_activated_at record),
     ro_grace_until = uint (rr_grace_until record), ro_record = rotation_blob J record, ro_stored_at = uint now, ro_accounted = uint na\<rparr>"

lemma put_rotation_record_cases:
  assumes "put_rotation_record C parse J db addr record now cap = Ok (db', fresh)" "uint cap < 2 ^ 63"
  obtains (same) a row where "address_parse addr = Ok a" "db' = db" "\<not> fresh" "map_of (db_rotations db) a = Some row"
      "ro_record row = rotation_blob J record"
  | (written) a target row db1 na res agent where "address_parse addr = Ok a" "fresh" "verify_source_address C record a = Ok ()"
      "target_address C record = Ok target" "map_of (db_rotations db) a = None" "map_of (db_agents db) a = Some row"
      "read_agent_record J (ag_record row) = Ok agent" "is_ok (agent_record_verify C parse agent a)"
      "is_ok (rotation_verify C record (ar_successor_hash agent) (ar_seq agent) now)"
      "uint res = ag_reservation row" "replace_control_charge db cap 0 na res 0 = Ok db1"
      "uint na = int (length a + length target + length (rotation_blob J record)) + 256"
      "db' = db1\<lparr>db_agents := AList.update a (row\<lparr>ag_reservation := 0\<rparr>) (db_agents db),
         db_rotations := db_rotations db @ [(a, rotation_row_of J record target now na)]\<rparr>"
      "\<forall>(_, r) \<in> set (db_rotations db). ro_from_pubkey r \<noteq> rr_from_pubkey record"
proof -
  from assms(1) obtain a target na where a: "address_parse addr = Ok a" "verify_source_address C record a = Ok ()"
      "target_address C record = Ok target" and na: "accounted_size (length (rotation_blob J record)) (length a + length target) = Ok na"
    by (auto simp: put_rotation_record_def result_simps Let_def)
  have len: "uint na = int (length a + length target + length (rotation_blob J record)) + 256"
    using na by (simp add: accounted_size_Ok uint_int_unat del: of_nat_unat)
  show ?thesis
  proof (cases "map_of (db_rotations db) a")
    case (Some row)
    with assms(1) a na show ?thesis
      by (intro same [of a row]) (auto simp: put_rotation_record_def Let_def split: if_splits)
  next
    case None
    with assms(1) a na obtain row res agent u t db1 where r: "map_of (db_agents db) a = Some row" "row_u64 (ag_reservation row) = Ok res"
        "read_agent_record J (ag_record row) = Ok agent" "agent_record_verify C parse agent a = Ok u"
        "rotation_verify C record (ar_successor_hash agent) (ar_seq agent) now = Ok t"
        "replace_control_charge db cap 0 na res 0 = Ok db1" "fresh"
      and i: "insert_rotation (db1\<lparr>db_agents := AList.update a (row\<lparr>ag_reservation := 0\<rparr>) (db_agents db1)\<rparr>) a
        (rotation_row_of J record target now na) = Ok db'"
      by (auto simp: put_rotation_record_def result_simps Let_def to_i64_Ok split: if_splits)
    note db1 = charged_within(1) [OF r(6) assms(2)]
    have "\<forall>(_, r) \<in> set (db_rotations db). ro_from_pubkey r \<noteq> rr_from_pubkey record"
      "db' = db1\<lparr>db_agents := AList.update a (row\<lparr>ag_reservation := 0\<rparr>) (db_agents db),
         db_rotations := db_rotations db @ [(a, rotation_row_of J record target now na)]\<rparr>"
      using i by (auto simp: insert_rotation_def list_ex_iff db1 split: if_splits)
    with written [OF a(1) r(7) a(2,3) None r(1,3) _ _ _ r(6) len] r(2,4,5) show ?thesis
      by (simp add: is_ok_iff row_u64_Ok)
  qed
qed

lemma read_rotation_blob: "json_contract J \<Longrightarrow> rotation_typed r \<Longrightarrow> read_rotation J (rotation_blob J r) = Ok r"
  by (simp add: read_rotation_def json_contract_def rotation_json_wf rotation_json_round_trip)

lemma put_rotation_record_inv:
  assumes "put_rotation_record C parse J db addr record now cap = Ok (db', fresh)"
    and inv: "loft_inv C parse J cap db" and "uint cap < 2 ^ 63" "rotation_typed record" "json_contract J"
  shows "loft_inv C parse J cap db'"
  using assms(1,3)
proof (cases rule: put_rotation_record_cases)
  case same
  with inv show ?thesis by simp
next
  case (written a target row db1 na res agent)
  from inv have c: "control_ok db" and rest: "events_ok db" "policies_ok C J db" "records_ok C parse J db" "trace_ok db" "mail_ok C J db"
    by (simp_all add: loft_inv_def)
  note db1 = charged_within [OF written(11) assms(3)]
  have row: "(a, row) \<in> set (db_agents db)" using written(6) by (rule map_of_SomeD)
  have agents: "map_of (db_agents db') a = Some (row\<lparr>ag_reservation := 0\<rparr>)"
    "a' \<noteq> a \<Longrightarrow> map_of (db_agents db') a' = map_of (db_agents db) a'" for a'
    by (simp_all add: written(13) update_conv')
  have "rotation_row_ok C J db' a (rotation_row_of J record target now na)"
    using written(3,7,9) by (auto simp: rotation_row_ok_def agents read_rotation_blob [OF assms(5,4)])
  moreover have "rotation_row_ok C J db' a' r" if "(a', r) \<in> set (db_rotations db)" for a' r
  proof -
    have "a' \<noteq> a" using that written(5) by (force simp: map_of_eq_None_iff)
    then show ?thesis using that rest(3) agents(2) rotation_row_frame [of db' a' db] by (auto simp: records_ok_def)
  qed
  moreover have "agent_row_ok C parse J a (row\<lparr>ag_reservation := 0\<rparr>)"
    using row rest(3) by (fastforce simp: records_ok_def agent_row_ok_def split: sum.splits)
  ultimately have "records_ok C parse J db'"
    using rest(3) by (auto simp: records_ok_def written(13) db1(1) dest!: set_update)
  moreover have "control_ok db'"
  proof -
    have d: "distinct (map fst (db_agents db))" and acc: "\<not> invalid_control_accounting db" using c by (simp_all add: control_ok_def)
    have "agent_accounted db a row" using acc row by (auto simp: control_accounting_iff)
    then have "agent_accounted db' a (row\<lparr>ag_reservation := 0\<rparr>)"
      by (simp add: agent_accounted_def written(13) map_add_def split: option.splits)
    moreover have "agent_accounted db' a' r" if "(a', r) \<in> set (db_agents db)" "a' \<noteq> a" for a' r
    proof -
      have "map_of (db_rotations db') a' = map_of (db_rotations db) a'"
        using that(2) by (simp add: written(13) db1(1) map_add_def split: option.splits)
      then show ?thesis using control_accountingD [OF acc that(1)] agent_accounted_frame by blast
    qed
    ultimately have "\<forall>(a, r) \<in> set (db_agents db'). agent_accounted db' a r"
      by (auto simp: written(13) set_update_distinct [OF d])
    moreover have "\<forall>(a, r) \<in> set (db_rotations db'). ro_accounted r = int (length a + length (ro_to_address r) + length (ro_record r)) + 256"
      using acc written(12) unfolding control_accounting_iff by (simp add: written(13))
    moreover have "db_policies db' = db_policies db" by (simp add: written(13) db1(1))
    ultimately have "\<not> invalid_control_accounting db'" using acc unfolding control_accounting_iff by simp
    moreover have "(st_control_bytes (db_stats db'), st_control_reserved (db_stats db')) = computed_control db'"
      using c written(6,10) unfolding control_ok_def computed_control_def written(13) db1(1) by (auto simp: sum_update)
    moreover have "set (map fst (db_rotations db')) \<subseteq> set (map fst (db_agents db'))"
      using c by (auto simp: control_ok_def keys_update written(13) db1(1) simp del: set_map)
    moreover have "a \<notin> fst ` set (db_rotations db)" using written(5) by (simp add: map_of_eq_None_iff)
    ultimately show ?thesis using c by (simp add: control_ok_def written(13) db1(1) distinct_update)
  qed
  moreover have "within cap db'" using db1(2) by (simp add: within_def counters_ok_def written(13))
  moreover have "events_ok db'" using rest(1) events_frame [of db' db] by (simp add: written(13) db1(1))
  ultimately show ?thesis
    using rest by (simp add: loft_inv_def written(13) db1(1) policies_ok_def trace_ok_def mail_ok_def)
qed

section \<open>Retention\<close>

lemma selection_facts:
  fixes db :: loft_db and now :: int and batch :: nat
  assumes "sorted_wrt (<) (map ev_cursor (db_events db))"
  defines "sel \<equiv> sweep_selection db now batch"
  defines "kept \<equiv> filter (\<lambda>e. ev_cursor e \<notin> set (map ev_cursor sel)) (db_events db)"
  shows "mset (db_events db) = mset kept + mset sel"
    and "\<forall>e \<in> set sel. ev_expires_at e \<le> now"
    and "length sel = min batch (length (filter (\<lambda>e. ev_expires_at e \<le> now) (db_events db)))"
    and "filter (\<lambda>e. now < ev_expires_at e) kept = filter (\<lambda>e. now < ev_expires_at e) (db_events db)"
proof -
  have dc: "distinct (map ev_cursor (db_events db))"
    using assms(1) by (simp add: strict_sorted_iff)
  then have inj: "inj_on ev_cursor (set (db_events db))" and de: "distinct (db_events db)" by (simp_all add: distinct_map)
  have sub: "set sel \<subseteq> set (filter (\<lambda>e. ev_expires_at e \<le> now) (db_events db))"
    unfolding sel_def sweep_selection_def by (auto dest: in_set_takeD)
  then show exp: "\<forall>e \<in> set sel. ev_expires_at e \<le> now" by auto
  have ds: "distinct sel" unfolding sel_def sweep_selection_def using de by (simp add: distinct_take)
  have kept: "kept = filter (\<lambda>e. e \<notin> set sel) (db_events db)"
    unfolding kept_def using sub inj by (intro filter_cong) (auto dest: inj_onD)
  have "mset (filter (\<lambda>e. e \<in> set sel) (db_events db)) = mset sel"
    using de ds sub by (subst set_eq_iff_mset_eq_distinct [symmetric]) auto
  then show "mset (db_events db) = mset kept + mset sel"
    using multiset_partition [of "mset (db_events db)" "\<lambda>e. e \<notin> set sel"] by (simp add: kept)
  show "length sel = min batch (length (filter (\<lambda>e. ev_expires_at e \<le> now) (db_events db)))"
    unfolding sel_def sweep_selection_def by (simp add: min.commute)
  show "filter (\<lambda>e. now < ev_expires_at e) kept = filter (\<lambda>e. now < ev_expires_at e) (db_events db)"
    using exp by (auto simp: kept intro!: filter_cong)
qed

lemma sum_filter_le:
  "(\<forall>x \<in> set xs. 0 \<le> (f x :: int)) \<Longrightarrow>
     0 \<le> sum_list (map f (filter P xs)) \<and> sum_list (map f (filter P xs)) \<le> sum_list (map f xs)"
  by (induction xs) auto

lemma event_sizes: "events_ok db \<Longrightarrow> \<forall>e \<in> set (db_events db). 0 \<le> ev_size e"
  using event_size_ge by (fastforce simp: events_ok_def)

lemma mset_sum: "mset xs = mset ys + mset zs \<Longrightarrow> sum_list (map f xs) = sum_list (map f ys) + (sum_list (map f zs) :: int)"
  by (metis mset_append mset_map sum_list_append sum_mset_sum_list map_append)

text \<open>
  A sweep of a database that satisfies the invariant cannot fail for the clock and batch it is given: it
  removes a batch of expired rows, nothing else, and counts them.
\<close>

lemma sweep_expired_spec:
  assumes "events_ok db" "uint now < 2 ^ 63" "0 < batch" "to_i64 (word_of_nat batch) = Ok i"
  shows "\<exists>kept. sweep_expired db now batch = Ok (db\<lparr>db_events := kept,
      db_stats := (db_stats db)\<lparr>st_bytes_used := sum_list (map ev_size kept), st_event_count := int (length kept)\<rparr>\<rparr>,
      length (db_events db) - length kept)
    \<and> (\<exists>P. kept = filter P (db_events db)) \<and> length (db_events db) - length kept = min batch (length (filter (\<lambda>e. ev_expires_at e \<le> uint now) (db_events db)))
    \<and> filter (\<lambda>e. uint now < ev_expires_at e) kept = filter (\<lambda>e. uint now < ev_expires_at e) (db_events db)"
proof -
  define sel kept where "sel = sweep_selection db (uint now) batch"
    and "kept = filter (\<lambda>e. ev_cursor e \<notin> set (map ev_cursor sel)) (db_events db)"
  from assms(1) have s: "sorted_wrt (<) (map ev_cursor (db_events db))"
    and st: "st_bytes_used (db_stats db) = sum_list (map ev_size (db_events db))" "st_event_count (db_stats db) = int (length (db_events db))"
    by (simp_all add: events_ok_def computed_events_def)
  note f = selection_facts [OF s, where now = "uint now" and batch = batch, folded sel_def, folded kept_def]
  have len: "length (db_events db) = length kept + length sel" using f(1) by (metis size_mset size_union)
  have sum: "sum_list (map ev_size (db_events db)) = sum_list (map ev_size kept) + sum_list (map ev_size sel)" using f(1) by (rule mset_sum)
  have nn: "0 \<le> sum_list (map ev_size kept)" using sum_filter_le [OF event_sizes [OF assms(1)]] by (simp add: kept_def)
  have n: "to_i64 now = Ok (uint now)" using assms(2) by (simp add: to_i64_Ok)
  have res: "sweep_expired db now batch = Ok (db\<lparr>db_events := kept,
      db_stats := (db_stats db)\<lparr>st_bytes_used := sum_list (map ev_size kept), st_event_count := int (length kept)\<rparr>\<rparr>,
      length (db_events db) - length kept)"
  proof (cases "sel = []")
    case True
    then have "kept = db_events db" by (simp add: kept_def)
    then show ?thesis using assms(3,4) st True by (simp add: sweep_expired_def n sel_def [symmetric])
  next
    case False
    have "\<not> (sum_list (map ev_size (db_events db)) < sum_list (map ev_size sel) \<or> int (length (db_events db)) < int (length sel))"
      "length (db_events db) - length kept = length sel"
      "sum_list (map ev_size (db_events db)) - sum_list (map ev_size sel) = sum_list (map ev_size kept)"
      "int (length (db_events db)) - int (length sel) = int (length kept)" using nn sum len by simp_all
    then show ?thesis
      using assms(3,4) False unfolding sweep_expired_def n and_then_Ok Let_def sel_def [symmetric] kept_def [symmetric] st by simp
  qed
  have "length (db_events db) - length kept = min batch (length (filter (\<lambda>e. ev_expires_at e \<le> uint now) (db_events db)))"
    using len f(3) by simp
  moreover have "\<exists>P. kept = filter P (db_events db)" unfolding kept_def by (rule exI) (rule refl)
  ultimately show ?thesis using res f(4) by (intro exI [of _ kept] conjI)
qed

lemma sweep_expired_inv:
  assumes "sweep_expired db now batch = Ok (db', n)" and inv: "loft_inv C parse J cap db" and "uint cap < 2 ^ 63"
  shows "loft_inv C parse J cap db'"
proof (cases "batch = 0")
  case True
  with assms show ?thesis by (simp add: sweep_expired_def)
next
  case False
  with assms(1) obtain i where i: "uint now < 2 ^ 63" "to_i64 (word_of_nat batch) = Ok i"
    by (auto simp: sweep_expired_def result_simps to_i64_Ok)
  from inv have ev: "events_ok db" and m: "mail_ok C J db" and w: "within cap db" by (simp_all add: loft_inv_def)
  from sweep_expired_spec [OF ev i(1) _ i(2)] False assms(1) obtain P where
    db': "db' = db\<lparr>db_events := filter P (db_events db), db_stats := (db_stats db)\<lparr>st_bytes_used := sum_list (map ev_size (filter P (db_events db))),
      st_event_count := int (length (filter P (db_events db)))\<rparr>\<rparr>"
    by auto
  have "events_ok db'" using ev by (auto simp: events_ok_def computed_events_def db' sorted_wrt_map sorted_wrt_filter distinct_map_filter)
  moreover have "mail_ok C J db'" using m by (simp add: mail_ok_def db')
  moreover have "within cap db'"
    using w sum_filter_le [OF event_sizes [OF ev], of P] ev
    by (simp add: within_def counters_ok_def db' events_ok_def computed_events_def)
  ultimately show ?thesis
    using inv control_frame [of db' db] by (simp add: loft_inv_def db' trace_ok_def)
qed

end
