(* ===== verification/Trace_Admission.thy ===== *)
theory Trace_Admission
  imports Loft_Invariants
begin

text \<open>
  The durable trace-admission window of \<^verbatim>\<open>pigeonpost-loft/src/store.rs\<close>: one database row counts, per
  UTC minute, how many trace-producing admissions have been reserved, and each loft process spends
  reservations of up to 64 from memory. Several processes may share the database, and any of them may
  restart. The first read of the row and the transaction that reserves are two accesses to the
  database, between which other processes may commit, so the operation takes both states.
\<close>

section \<open>The operation\<close>

definition TRACE_ADMISSION_BATCH_SIZE :: u64 where "TRACE_ADMISSION_BATCH_SIZE = 64"
definition TRACE_ADMISSION_MIGRATION_CEILING :: u64 where "TRACE_ADMISSION_MIGRATION_CEILING = 0xFFFFFFFF"

record trace_lease =
  ls_window :: u64
  ls_limit :: u32
  ls_remaining :: u64
  ls_reserved_through :: u64

record trace_batch =
  tb_highest :: u64
  tb_high_water :: "(u64 \<times> u64) option"
  tb_lease :: "trace_lease option"

definition default_batch :: trace_batch where
  "default_batch = \<lparr>tb_highest = 0, tb_high_water = None, tb_lease = None\<rparr>"

text \<open>Rust compares tuples lexicographically.\<close>

definition pair_less :: "u64 \<times> u64 \<Rightarrow> u64 \<times> u64 \<Rightarrow> bool" where
  "pair_less p q \<longleftrightarrow> fst p < fst q \<or> fst p = fst q \<and> snd p < snd q"

definition validate_trace_admission_observation ::
  "trace_batch \<Rightarrow> u64 \<times> u64 \<Rightarrow> trace_batch \<times> (loft_error + unit)" where
  "validate_trace_admission_observation batch observed =
     (if (case tb_high_water batch of Some high_water \<Rightarrow> pair_less observed high_water | None \<Rightarrow> False)
      then (batch\<lparr>tb_lease := None\<rparr>, Err TraceUnavailable)
      else if (case tb_high_water batch of Some high_water \<Rightarrow> pair_less high_water observed | None \<Rightarrow> True)
      then (batch\<lparr>tb_high_water := Some observed\<rparr>, Ok ())
      else (batch, Ok ()))"

definition load_trace_admission :: "loft_db \<Rightarrow> loft_error + u64 \<times> u64" where
  "load_trace_admission db =
     (case db_trace db of (window_start_ms, admitted) \<Rightarrow>
        and_then (get_i64 window_start_ms) (\<lambda>window_start_ms.
        and_then (get_i64 admitted) (\<lambda>admitted.
        and_then (if 0 \<le> window_start_ms then Ok (word_of_int window_start_ms)
                  else Err (Configuration ''invalid durable trace admission counter'')) (\<lambda>window_start_ms.
        and_then (if 0 \<le> admitted then Ok (word_of_int admitted)
                  else Err (Configuration ''invalid durable trace admission counter'')) (\<lambda>admitted.
        Ok (window_start_ms, admitted))))))"

text \<open>The reserving transaction, on the state of the database at that time.\<close>

definition reserve_trace_admission ::
  "trace_batch \<Rightarrow> loft_db \<Rightarrow> u64 \<Rightarrow> u32 \<Rightarrow> trace_batch \<times> loft_db \<times> (loft_error + unit)" where
  "reserve_trace_admission batch db window_start_ms limit =
     (case load_trace_admission db of
        Err e \<Rightarrow> (batch, db, Err e)
      | Ok (stored_window, stored_admitted) \<Rightarrow>
          (case validate_trace_admission_observation batch (stored_window, stored_admitted) of
             (batch, Err e) \<Rightarrow> (batch, db, Err e)
           | (batch, Ok _) \<Rightarrow>
               if window_start_ms < stored_window
               then (batch\<lparr>tb_highest := stored_window\<rparr>, db, Err TraceUnavailable)
               else
                 let admitted = (if stored_window < window_start_ms then 0 else stored_admitted) in
                 case checked_sub (ucast limit) admitted of
                   None \<Rightarrow> (batch, db, Err RateLimited)
                 | Some available \<Rightarrow>
                     if available = 0 then (batch, db, Err RateLimited)
                     else let reserved = min available TRACE_ADMISSION_BATCH_SIZE in
                     (case checked_add admitted reserved of
                        None \<Rightarrow> (batch, db, Err TraceUnavailable)
                      | Some next_admitted \<Rightarrow>
                          (case (to_i64 window_start_ms, to_i64 next_admitted) of
                             (Ok window, Ok counted) \<Rightarrow>
                               (batch\<lparr>tb_lease := Some \<lparr>ls_window = window_start_ms, ls_limit = limit,
                                    ls_remaining = reserved - 1, ls_reserved_through = next_admitted\<rparr>,
                                  tb_high_water := Some (window_start_ms, next_admitted)\<rparr>,
                                db\<lparr>db_trace := (window, counted)\<rparr>, Ok ())
                           | (Err e, _) \<Rightarrow> (batch, db, Err e)
                           | (_, Err e) \<Rightarrow> (batch, db, Err e)))))"

text \<open>After the first read: spend a slot of a usable lease, or reserve.\<close>

definition spend_trace_admission ::
  "trace_batch \<Rightarrow> u64 \<times> u64 \<Rightarrow> loft_db \<Rightarrow> u64 \<Rightarrow> u32 \<Rightarrow> trace_batch \<times> loft_db \<times> (loft_error + unit)" where
  "spend_trace_admission batch observed db window_start_ms limit =
     (if window_start_ms < fst observed then (batch, db, Err TraceUnavailable)
      else case tb_lease batch of
          Some lease \<Rightarrow>
            if ls_window lease = window_start_ms \<and> ls_limit lease = limit \<and> 0 < ls_remaining lease
            then if fst observed \<noteq> window_start_ms \<or> snd observed < ls_reserved_through lease
                 then (batch\<lparr>tb_lease := None\<rparr>, db, Err TraceUnavailable)
                 else (batch\<lparr>tb_lease := Some (lease\<lparr>ls_remaining := ls_remaining lease - 1\<rparr>)\<rparr>, db, Ok ())
            else reserve_trace_admission (batch\<lparr>tb_lease := None\<rparr>) db window_start_ms limit
        | None \<Rightarrow> reserve_trace_admission (batch\<lparr>tb_lease := None\<rparr>) db window_start_ms limit)"

text \<open>A later minute, whether asked for or observed, drops the lease.\<close>

definition advance_to :: "trace_batch \<Rightarrow> u64 \<Rightarrow> trace_batch" where
  "advance_to batch window = (if tb_highest batch < window then batch\<lparr>tb_highest := window, tb_lease := None\<rparr> else batch)"

definition charge_trace_admission ::
  "trace_batch \<Rightarrow> loft_db \<Rightarrow> loft_db \<Rightarrow> u64 \<Rightarrow> u32 \<Rightarrow> trace_batch \<times> loft_db \<times> (loft_error + unit)" where
  "charge_trace_admission batch db0 db timestamp_ms limit =
     (if timestamp_ms = 0 \<or> limit = 0
      then (batch, db, Err (Configuration ''invalid durable trace admission input''))
      else let window_start_ms = timestamp_ms - timestamp_ms mod TRACE_ADMISSION_WINDOW_MS in
      if window_start_ms < tb_highest batch then (batch, db, Err TraceUnavailable)
      else let batch = advance_to batch window_start_ms in
      case load_trace_admission db0 of
        Err e \<Rightarrow> (batch, db, Err e)
      | Ok observed \<Rightarrow>
          (case validate_trace_admission_observation batch observed of
             (batch, Err e) \<Rightarrow> (batch, db, Err e)
           | (batch, Ok _) \<Rightarrow>
               spend_trace_admission (advance_to batch (fst observed)) observed db window_start_ms limit))"

section \<open>What one call does\<close>

definition window_of :: "u64 \<Rightarrow> u64" where
  "window_of timestamp_ms = timestamp_ms - timestamp_ms mod TRACE_ADMISSION_WINDOW_MS"

text \<open>Reserved admissions of a window that a process still holds.\<close>

definition lease_in :: "trace_batch \<Rightarrow> u64 \<Rightarrow> nat" where
  "lease_in b w = (case tb_lease b of None \<Rightarrow> 0 | Some l \<Rightarrow> if ls_window l = w then unat (ls_remaining l) else 0)"

lemma lease_in_simps [simp]:
  "lease_in (b\<lparr>tb_lease := None\<rparr>) w = 0" "lease_in (b\<lparr>tb_highest := h, tb_lease := None\<rparr>) w = 0"
  "lease_in (b\<lparr>tb_high_water := o1\<rparr>) w = lease_in b w" "lease_in (b\<lparr>tb_highest := h\<rparr>) w = lease_in b w"
  "lease_in default_batch w = 0"
  by (simp_all add: lease_in_def default_batch_def)

lemma observation_lease:
  "validate_trace_admission_observation b observed = (b', r) \<Longrightarrow> tb_lease b' = (if r = Ok () then tb_lease b else None)"
  by (auto simp: validate_trace_admission_observation_def split: if_splits)

lemma unat_ucast_u32: "unat (ucast (l :: u32) :: u64) = unat l"
  using unat_lt2p [of l] by (simp add: unsigned_ucast_eq take_bit_nat_eq_self)

text \<open>A call is refused, spends a slot the process holds, or reserves at most up to its limit.\<close>

definition refused :: "trace_batch \<Rightarrow> loft_db \<Rightarrow> trace_batch \<Rightarrow> loft_db \<Rightarrow> bool" where
  "refused b db b' db' \<longleftrightarrow> db' = db \<and> (\<forall>w. lease_in b' w \<le> lease_in b w)"

definition spends :: "trace_batch \<Rightarrow> loft_db \<Rightarrow> u64 \<Rightarrow> trace_batch \<Rightarrow> loft_db \<Rightarrow> bool" where
  "spends b db w b' db' \<longleftrightarrow> db' = db \<and> lease_in b' w + 1 = lease_in b w \<and> (\<forall>v. v \<noteq> w \<longrightarrow> lease_in b' v \<le> lease_in b v)"

definition reserves :: "loft_db \<Rightarrow> u64 \<Rightarrow> u32 \<Rightarrow> trace_batch \<Rightarrow> loft_db \<Rightarrow> bool" where
  "reserves db w limit b' db' \<longleftrightarrow> (\<exists>sw sa n. load_trace_admission db = Ok (sw, sa) \<and> sw \<le> w
     \<and> db' = db\<lparr>db_trace := (uint w, int n)\<rparr> \<and> uint w < 2 ^ 63 \<and> n < 2 ^ 63 \<and> n \<le> unat limit
     \<and> n = (if sw < w then 0 else unat sa) + (lease_in b' w + 1)
     \<and> (\<forall>v. v \<noteq> w \<longrightarrow> lease_in b' v = 0))"

lemma reserve_trace_cases:
  assumes "reserve_trace_admission b db w limit = (b', db', r)" "tb_lease b = None"
  shows "if r = Ok () then reserves db w limit b' db' else refused b db b' db'"
proof (cases "load_trace_admission db")
  case (Inl e)
  with assms show ?thesis by (auto simp: reserve_trace_admission_def refused_def)
next
  case (Inr p)
  obtain sw sa where p: "p = (sw, sa)" by fastforce
  obtain b1 r1 where v: "validate_trace_admission_observation b (sw, sa) = (b1, r1)" by fastforce
  have l1: "tb_lease b1 = None" using observation_lease [OF v] assms(2) by simp
  show ?thesis
  proof (cases "r = Ok ()")
    case False
    with assms(1) Inr p v l1 show ?thesis
      by (auto simp: reserve_trace_admission_def refused_def lease_in_def Let_def split: sum.splits if_splits option.splits)
  next
    case True
    with assms(1) Inr p v obtain available nxt where w: "\<not> w < sw"
      and a: "checked_sub (ucast limit) (if sw < w then 0 else sa) = Some available" "available \<noteq> 0"
      and n: "checked_add (if sw < w then 0 else sa) (min available TRACE_ADMISSION_BATCH_SIZE) = Some nxt"
      and i: "to_i64 w = Ok (uint w)" "to_i64 nxt = Ok (uint nxt)"
      and b': "b' = b1\<lparr>tb_lease := Some \<lparr>ls_window = w, ls_limit = limit, ls_remaining = min available TRACE_ADMISSION_BATCH_SIZE - 1,
          ls_reserved_through = nxt\<rparr>, tb_high_water := Some (w, nxt)\<rparr>" and db': "db' = db\<lparr>db_trace := (uint w, uint nxt)\<rparr>"
      by (auto simp: reserve_trace_admission_def Let_def to_i64_def split: sum.splits if_splits option.splits)
    define m where "m = min available TRACE_ADMISSION_BATCH_SIZE"
    have m: "m \<noteq> 0" "unat m \<le> unat available" using a(2) by (auto simp: m_def TRACE_ADMISSION_BATCH_SIZE_def min_def word_le_nat_alt)
    then have m1: "unat (m - 1) + 1 = unat m" using unat_minus_one [of m] by (simp add: unat_gt_0)
    have "unat nxt = unat (if sw < w then 0 else sa) + unat m" using n by (simp add: checked_add_Some m_def)
    moreover have "unat limit = unat (if sw < w then 0 else sa) + unat available"
      using a(1) by (simp add: checked_sub_Some unat_ucast_u32)
    moreover have "uint w < 2 ^ 63" "unat nxt < 2 ^ 63" using i by (simp_all add: to_i64_Ok uint_less_numeral)
    moreover have "lease_in b' w + 1 = unat m" "\<forall>v. v \<noteq> w \<longrightarrow> lease_in b' v = 0"
      using m1 by (simp_all add: b' lease_in_def m_def)
    ultimately show ?thesis
      using True w m unfolding reserves_def Inr p db' uint_int_unat [of nxt] if_P [OF True]
      by (intro exI [of _ sw] exI [of _ sa] exI [of _ "unat nxt"] conjI) (simp_all add: not_less)
  qed
qed

lemma advance_lease: "tb_lease (advance_to b w) = Some l \<Longrightarrow> tb_lease b = Some l" "lease_in (advance_to b w) v \<le> lease_in b v"
  by (auto simp: advance_to_def split: if_splits)

lemma spend_trace_cases:
  assumes "spend_trace_admission b observed db w limit = (b', db', r)"
  shows "if r = Ok () then spends b db w b' db' \<or> reserves db w limit b' db' else refused b db b' db'"
proof -
  consider (late) "w < fst observed"
    | (lease) l where "\<not> w < fst observed" "tb_lease b = Some l" "ls_window l = w" "ls_limit l = limit" "0 < ls_remaining l"
    | (reserve) "reserve_trace_admission (b\<lparr>tb_lease := None\<rparr>) db w limit = (b', db', r)"
    using assms by (cases "tb_lease b") (auto simp: spend_trace_admission_def split: if_splits)
  then show ?thesis
  proof cases
    case late
    with assms show ?thesis by (auto simp: spend_trace_admission_def refused_def)
  next
    case (lease l)
    have one: "unat (ls_remaining l - 1) + 1 = unat (ls_remaining l)"
      using lease(5) unat_minus_one [of "ls_remaining l"] by (auto simp: word_neq_0_conv [symmetric] unat_gt_0)
    with assms lease show ?thesis
      by (auto simp: spend_trace_admission_def spends_def refused_def lease_in_def split: if_splits)
  next
    case reserve
    from reserve_trace_cases [OF this] show ?thesis by (auto simp: refused_def split: if_splits)
  qed
qed

lemma charge_trace_cases:
  assumes "charge_trace_admission b db0 db ts limit = (b', db', r)"
  shows "if r = Ok () then spends b db (window_of ts) b' db' \<or> reserves db (window_of ts) limit b' db' else refused b db b' db'"
proof (cases "ts = 0 \<or> limit = 0 \<or> window_of ts < tb_highest b")
  case True
  with assms show ?thesis
    by (auto simp: charge_trace_admission_def refused_def window_of_def [symmetric] split: if_splits)
next
  case go: False
  define b1 where "b1 = advance_to b (window_of ts)"
  have l1: "lease_in b1 w \<le> lease_in b w" for w by (simp add: b1_def advance_lease)
  note defs = charge_trace_admission_def Let_def window_of_def [symmetric] b1_def [symmetric]
  show ?thesis
  proof (cases "load_trace_admission db0")
    case (Inl e)
    with assms go l1 show ?thesis by (auto simp: defs refused_def)
  next
    case (Inr observed)
    obtain b2 r2 where v: "validate_trace_admission_observation b1 observed = (b2, r2)" by fastforce
    have l2: "tb_lease b2 = (if r2 = Ok () then tb_lease b1 else None)" by (rule observation_lease [OF v])
    define b3 where "b3 = advance_to b2 (fst observed)"
    have le: "lease_in b2 w \<le> lease_in b w" for w using l1 [of w] l2 by (auto simp: lease_in_def)
    then have le3: "lease_in b3 w \<le> lease_in b w" for w unfolding b3_def by (rule order_trans [OF advance_lease(2)])
    show ?thesis
    proof (cases r2)
      case (Inl e)
      with assms go Inr v le show ?thesis by (auto simp: defs refused_def)
    next
      case (Inr u)
      with assms go v \<open>load_trace_admission db0 = Ok observed\<close>
      have s: "spend_trace_admission b3 observed db (window_of ts) limit = (b', db', r)" by (simp add: defs b3_def)
      have keep: "lease_in b w = lease_in b3 w" if "0 < lease_in b3 w" for w
      proof -
        from that obtain l where l: "tb_lease b3 = Some l" by (auto simp: lease_in_def split: option.splits)
        then have "tb_lease b2 = Some l" unfolding b3_def by (rule advance_lease(1))
        then have "tb_lease b1 = Some l" using l2 Inr by simp
        then have "tb_lease b = Some l" unfolding b1_def by (rule advance_lease(1))
        with l show ?thesis by (simp add: lease_in_def)
      qed
      have "spends b db w b' db'" if "spends b3 db w b' db'" for w
      proof -
        have "lease_in b3 w = Suc (lease_in b' w)" using that by (simp add: spends_def)
        with keep [of w] that show ?thesis unfolding spends_def by (auto intro: order_trans [OF _ le3])
      qed
      moreover have "refused b db b' db'" if "refused b3 db b' db'" using that le3 by (auto simp: refused_def intro: order_trans)
      ultimately show ?thesis using spend_trace_cases [OF s] by (auto split: if_splits)
    qed
  qed
qed

section \<open>Processes sharing one database\<close>

text \<open>The shared database, the lofts that run on it, and how many admissions each window has been granted.\<close>

record trace_world =
  tw_db :: loft_db
  tw_procs :: "trace_batch list"
  tw_granted :: "u64 \<Rightarrow> nat"

text \<open>
  A process charges with any limit up to \<open>L\<close>, having read any state first; it restarts, which loses its
  memory; another one starts; or the store runs an operation that leaves the trace row alone.
\<close>

inductive trace_step :: "nat \<Rightarrow> trace_world \<Rightarrow> trace_world \<Rightarrow> bool" for L :: nat where
  charge: "i < length (tw_procs s) \<Longrightarrow> unat limit \<le> L
    \<Longrightarrow> charge_trace_admission (tw_procs s ! i) db0 (tw_db s) ts limit = (b', db', r)
    \<Longrightarrow> trace_step L s \<lparr>tw_db = db', tw_procs = (tw_procs s)[i := b'],
          tw_granted = (if r = Ok () then (tw_granted s)(window_of ts := tw_granted s (window_of ts) + 1) else tw_granted s)\<rparr>"
| restart: "i < length (tw_procs s) \<Longrightarrow> trace_step L s (s\<lparr>tw_procs := (tw_procs s)[i := default_batch]\<rparr>)"
| start: "trace_step L s (s\<lparr>tw_procs := tw_procs s @ [default_batch]\<rparr>)"
| other: "db_trace db' = db_trace (tw_db s) \<Longrightarrow> trace_step L s (s\<lparr>tw_db := db'\<rparr>)"

definition trace_start :: "loft_db \<Rightarrow> trace_world" where
  "trace_start db = \<lparr>tw_db = db, tw_procs = [], tw_granted = (\<lambda>_. 0)\<rparr>"

definition leased :: "trace_batch list \<Rightarrow> u64 \<Rightarrow> nat" where
  "leased ps w = sum_list (map (\<lambda>b. lease_in b w) ps)"

abbreviation spoken_for :: "trace_world \<Rightarrow> u64 \<Rightarrow> nat" where
  "spoken_for s w \<equiv> tw_granted s w + leased (tw_procs s) w"

text \<open>Granted and still reserved admissions of the stored minute are within its count, later minutes have none.\<close>

definition trace_inv :: "nat \<Rightarrow> trace_world \<Rightarrow> bool" where
  "trace_inv L s \<longleftrightarrow> (\<forall>w. spoken_for s w \<le> L)
     \<and> (\<forall>w. fst (db_trace (tw_db s)) < uint w \<longrightarrow> spoken_for s w = 0)
     \<and> (\<forall>w. uint w = fst (db_trace (tw_db s)) \<longrightarrow> int (spoken_for s w) \<le> max 0 (snd (db_trace (tw_db s))))"

lemma leased_update: "i < length ps \<Longrightarrow> leased (ps[i := b]) w + lease_in (ps ! i) w = leased ps w + lease_in b w"
proof -
  assume i: "i < length ps"
  have "lease_in (ps ! i) w \<le> sum_list (map (\<lambda>b. lease_in b w) ps)"
    using i by (intro member_le_sum_list) simp_all
  with i show ?thesis by (simp add: leased_def map_update sum_list_update)
qed

lemma leased_update_le:
  "i < length ps \<Longrightarrow> lease_in b w \<le> lease_in (ps ! i) w \<Longrightarrow> leased (ps[i := b]) w \<le> leased ps w"
  using leased_update [of i ps b w] by linarith

lemma trace_inv_mono:
  assumes "trace_inv L s" "db_trace (tw_db s') = db_trace (tw_db s)" "\<And>w. spoken_for s' w \<le> spoken_for s w"
  shows "trace_inv L s'"
  unfolding trace_inv_def assms(2)
proof (intro conjI allI impI)
  fix w
  show "spoken_for s' w \<le> L" using assms(1) assms(3) [of w] by (auto simp: trace_inv_def intro: order_trans)
  show "spoken_for s' w = 0" if "fst (db_trace (tw_db s)) < uint w"
    using that assms(1) assms(3) [of w] by (simp add: trace_inv_def)
  show "int (spoken_for s' w) \<le> max 0 (snd (db_trace (tw_db s)))" if "uint w = fst (db_trace (tw_db s))"
  proof -
    have "int (spoken_for s w) \<le> max 0 (snd (db_trace (tw_db s)))" using that assms(1) unfolding trace_inv_def by blast
    then show ?thesis using assms(3) [of w] by linarith
  qed
qed

lemma load_trace_Ok:
  "load_trace_admission db = Ok (w, n) \<Longrightarrow> db_trace db = (uint w, uint n)"
  by (auto simp: load_trace_admission_def result_simps get_i64_Ok uint_u64 split: prod.splits if_splits)

lemma reserves_inv:
  assumes "trace_inv L s" "i < length (tw_procs s)" "unat limit \<le> L" "reserves (tw_db s) w limit b' db'"
  shows "trace_inv L \<lparr>tw_db = db', tw_procs = (tw_procs s)[i := b'], tw_granted = (tw_granted s)(w := tw_granted s w + 1)\<rparr>"
    (is "trace_inv L ?s'")
proof -
  from assms(4) obtain sw sa n where l: "load_trace_admission (tw_db s) = Ok (sw, sa)" and sw: "sw \<le> w"
    and db': "db_trace db' = (uint w, int n)" and n: "n \<le> unat limit" "n = (if sw < w then 0 else unat sa) + (lease_in b' w + 1)"
    and z: "\<And>v. v \<noteq> w \<Longrightarrow> lease_in b' v = 0" by (auto simp: reserves_def)
  have row: "db_trace (tw_db s) = (uint sw, int (unat sa))" using load_trace_Ok [OF l] by simp
  have upd: "leased (tw_procs ?s') v \<le> leased (tw_procs s) v + lease_in b' v" for v
    using leased_update [OF assms(2), of b' v] by simp
  have old: "spoken_for s w \<le> (if sw < w then 0 else unat sa)"
  proof (cases "sw < w")
    case True
    then show ?thesis using assms(1) by (simp add: trace_inv_def row word_less_def)
  next
    case False
    with sw have "w = sw" by simp
    then have "uint w = fst (db_trace (tw_db s))" using row by simp
    with assms(1) have "int (spoken_for s w) \<le> max 0 (snd (db_trace (tw_db s)))" unfolding trace_inv_def by blast
    then have "int (spoken_for s w) \<le> int (unat sa)" unfolding row by simp
    then have "spoken_for s w \<le> unat sa" unfolding of_nat_le_iff .
    with False show ?thesis by simp
  qed
  have new: "spoken_for ?s' w \<le> n" using upd [of w] old n(2) by simp
  have others: "spoken_for ?s' v \<le> spoken_for s v" if "v \<noteq> w" for v using upd [of v] z [OF that] that by simp
  show ?thesis
    unfolding trace_inv_def
  proof (intro conjI allI impI)
    fix v
    have L: "spoken_for s v \<le> L" "n \<le> L" using n(1) assms(1,3) unfolding trace_inv_def by (blast, linarith)
    show "spoken_for ?s' v \<le> L"
    proof (cases "v = w")
      case True
      then show ?thesis using order_trans [OF new L(2)] by (simp only:)
    next
      case False
      show ?thesis using order_trans [OF others [OF False] L(1)] .
    qed
  next
    fix v :: u64 assume "fst (db_trace (tw_db ?s')) < uint v"
    then have "v \<noteq> w" "sw < v" using db' sw by (auto simp: word_less_def word_le_def)
    with assms(1) others [of v] show "spoken_for ?s' v = 0" by (simp add: trace_inv_def row word_less_def)
  next
    fix v :: u64 assume "uint v = fst (db_trace (tw_db ?s'))"
    then have "v = w" using db' by (simp add: word_uint_eq_iff)
    with new db' show "int (spoken_for ?s' v) \<le> max 0 (snd (db_trace (tw_db ?s')))" by simp
  qed
qed

lemma trace_step_inv: "trace_step L s s' \<Longrightarrow> trace_inv L s \<Longrightarrow> trace_inv L s'"
proof (induction rule: trace_step.induct)
  case (charge i s limit db0 ts b' db' r)
  note cases = charge_trace_cases [OF charge(3)]
  show ?case
  proof (cases "r = Ok ()")
    case False
    with cases have "refused (tw_procs s ! i) (tw_db s) b' db'" by simp
    then show ?thesis
      using False by (intro trace_inv_mono [OF charge(4)]) (simp_all add: refused_def leased_update_le [OF charge(1)])
  next
    case True
    then consider "spends (tw_procs s ! i) (tw_db s) (window_of ts) b' db'" | "reserves (tw_db s) (window_of ts) limit b' db'"
      using cases by auto
    then show ?thesis
    proof cases
      case 1
      have "leased ((tw_procs s)[i := b']) (window_of ts) + 1 \<le> leased (tw_procs s) (window_of ts)"
        using 1 leased_update [OF charge(1), of b' "window_of ts"] by (simp add: spends_def)
      moreover have "leased ((tw_procs s)[i := b']) v \<le> leased (tw_procs s) v" if "v \<noteq> window_of ts" for v
        using 1 that by (intro leased_update_le [OF charge(1)]) (simp add: spends_def)
      ultimately show ?thesis
        using 1 True by (intro trace_inv_mono [OF charge(4)]) (simp_all add: spends_def)
    next
      case 2
      with reserves_inv [OF charge(4) charge(1,2)] True show ?thesis by simp
    qed
  qed
next
  case (restart i s)
  then show ?case by (intro trace_inv_mono [OF restart(2)]) (simp_all add: leased_update_le)
next
  case (start s)
  then show ?case by (intro trace_inv_mono [OF start(1)]) (simp_all add: leased_def)
next
  case (other db' s)
  then show ?case by (intro trace_inv_mono [OF other(2)]) simp_all
qed

section \<open>Properties\<close>

text \<open>C15. No minute is granted more trace-producing admissions than the highest limit in use, however many
  loft processes share the database, whatever states they read first, and however often they restart.\<close>

theorem trace_rate_bounded:
  assumes "(trace_step L)\<^sup>*\<^sup>* (trace_start db) s"
  shows "tw_granted s w \<le> L"
proof -
  have "trace_inv L (trace_start db)" by (simp add: trace_inv_def trace_start_def leased_def)
  with assms have "trace_inv L s" by (induction rule: rtranclp_induct) (auto intro: trace_step_inv)
  then show ?thesis unfolding trace_inv_def by (metis add_leD1)
qed

definition example_trace_db :: loft_db where
  "example_trace_db = empty_db\<lparr>db_trace := (60000, 3)\<rparr>"

text \<open>A process that starts in a minute with three of five admissions taken reserves the other two.\<close>

theorem trace_rate_bounded_witness:
  "\<exists>s. (trace_step 5)\<^sup>*\<^sup>* (trace_start example_trace_db) s \<and> tw_granted s 60000 = 1 \<and> tw_granted s 60000 \<le> 5"
proof -
  define l where "l = \<lparr>ls_window = 60000, ls_limit = 5, ls_remaining = 1, ls_reserved_through = 5\<rparr>"
  define b1 where "b1 = \<lparr>tb_highest = 60000, tb_high_water = Some (60000, 5), tb_lease = Some l\<rparr>"
  define db1 where "db1 = example_trace_db\<lparr>db_trace := (60000, 5)\<rparr>"
  have w: "window_of 61000 = 60000" by code_simp
  have load: "load_trace_admission example_trace_db = Ok (60000, 3)"
    by (simp add: load_trace_admission_def example_trace_db_def get_i64_def)
  have "checked_sub (ucast (5 :: u32)) (3 :: u64) = Some 2" "checked_add (3 :: u64) 2 = Some 5"
    by (simp_all add: checked_sub_Some checked_add_Some)
  moreover have "min 2 TRACE_ADMISSION_BATCH_SIZE = 2" by (simp add: TRACE_ADMISSION_BATCH_SIZE_def min_def word_le_nat_alt)
  moreover have "to_i64 60000 = Ok 60000" "to_i64 5 = Ok 5" by (simp_all add: to_i64_def)
  ultimately have r: "reserve_trace_admission \<lparr>tb_highest = 60000, tb_high_water = Some (60000, 3), tb_lease = None\<rparr>
      example_trace_db 60000 5 = (b1, db1, Ok ())"
    by (simp add: reserve_trace_admission_def load validate_trace_admission_observation_def pair_less_def b1_def db1_def l_def)
  have c: "charge_trace_admission default_batch example_trace_db example_trace_db 61000 5 = (b1, db1, Ok ())"
    unfolding charge_trace_admission_def window_of_def [symmetric] w
    by (simp add: load default_batch_def advance_to_def validate_trace_admission_observation_def spend_trace_admission_def r
      word_less_nat_alt)
  let ?s1 = "(trace_start example_trace_db)\<lparr>tw_procs := [default_batch]\<rparr>"
  have "trace_step 5 (trace_start example_trace_db) ?s1"
    using trace_step.start [of 5 "trace_start example_trace_db"] by (simp add: trace_start_def)
  moreover have "trace_step 5 ?s1 \<lparr>tw_db = db1, tw_procs = [b1], tw_granted = (\<lambda>_. 0)(60000 := 1)\<rparr>"
    using trace_step.charge [of 0 ?s1 5 5 example_trace_db 61000 b1 db1 "Ok ()"] c w by (simp add: trace_start_def)
  ultimately have "(trace_step 5)\<^sup>*\<^sup>* (trace_start example_trace_db) \<lparr>tw_db = db1, tw_procs = [b1], tw_granted = (\<lambda>_. 0)(60000 := 1)\<rparr>"
    by (meson rtranclp.rtrancl_into_rtrancl rtranclp.rtrancl_refl)
  moreover from trace_rate_bounded [OF this, of 60000]
  have "tw_granted (\<lparr>tw_db = db1, tw_procs = [b1], tw_granted = (\<lambda>_. 0)(60000 := 1)\<rparr> :: trace_world) 60000 \<le> 5" .
  ultimately show ?thesis by (metis (no_types, lifting) fun_upd_same trace_world.select_convs(3))
qed

text \<open>A database row older than one the process has seen is refused, and the process forgets its lease.\<close>

theorem trace_rollback_refused:
  assumes "tb_high_water b = Some high" "load_trace_admission db0 = Ok observed" "pair_less observed high"
  shows "\<exists>b' e. charge_trace_admission b db0 db ts limit = (b', db, Err e)"
proof -
  let ?w = "window_of ts"
  have "tb_high_water (advance_to b ?w) = Some high" using assms(1) by (simp add: advance_to_def)
  then have v: "validate_trace_admission_observation (advance_to b ?w) observed = ((advance_to b ?w)\<lparr>tb_lease := None\<rparr>, Err TraceUnavailable)"
    using assms(3) by (simp add: validate_trace_admission_observation_def)
  show ?thesis
    by (cases "ts = 0 \<or> limit = 0"; cases "?w < tb_highest b")
      (simp_all add: charge_trace_admission_def Let_def window_of_def [symmetric] assms(2) v)
qed

end
