(* ===== verification/Loft_Runs.thy ===== *)
theory Loft_Runs
  imports Trace_Admission
begin

text \<open>
  Runs of the loft store and what its users rely on: the startup checks keep passing, the capacity is
  kept, mail that was admitted is served in cursor order, published rotations are final and can
  always be stored, sequence numbers only grow, and a retention sweep
  (\<^verbatim>\<open>pigeonpost-loft/src/retention.rs\<close>) removes exactly what has expired.
\<close>

section \<open>Runs\<close>

inductive loft_step :: "crypto \<Rightarrow> url_parser \<Rightarrow> json_codec \<Rightarrow> u64 \<Rightarrow> loft_db \<Rightarrow> loft_db \<Rightarrow> bool"
  for C :: crypto and parse :: url_parser and J :: json_codec and cap :: u64 where
  step_admit: "wrap_wf w \<Longrightarrow> admit C J db w eid stored_at expires_at cap expected = Ok (db', fresh) \<Longrightarrow> loft_step C parse J cap db db'"
| step_policy: "policy_typed p \<Longrightarrow> put_policy C J db p cap now = Ok db' \<Longrightarrow> loft_step C parse J cap db db'"
| step_agent: "agent_record_typed r \<Longrightarrow> put_agent_record C parse J db addr r cap now = Ok db' \<Longrightarrow> loft_step C parse J cap db db'"
| step_rotation: "rotation_typed t \<Longrightarrow> put_rotation_record C parse J db addr t now cap = Ok (db', fresh) \<Longrightarrow> loft_step C parse J cap db db'"
| step_sweep: "sweep_expired db now batch = Ok (db', n) \<Longrightarrow> loft_step C parse J cap db db'"
| step_trace: "charge_trace_admission b db0 db ts limit = (b', db', r) \<Longrightarrow> loft_step C parse J cap db db'"

inductive_cases loft_stepE: "loft_step C parse J cap db db'"

definition reachable :: "crypto \<Rightarrow> url_parser \<Rightarrow> json_codec \<Rightarrow> u64 \<Rightarrow> loft_db \<Rightarrow> bool" where
  "reachable C parse J cap db \<longleftrightarrow> (loft_step C parse J cap)\<^sup>*\<^sup>* empty_db db"

definition loft_contract :: "crypto \<Rightarrow> json_codec \<Rightarrow> u64 \<Rightarrow> bool" where
  "loft_contract C J cap \<longleftrightarrow> hash_contract C \<and> json_contract J \<and> uint cap < 2 ^ 63"

lemma window_multiple: "uint (window_of ts) mod 60000 = 0"
proof -
  have m: "uint (ts mod TRACE_ADMISSION_WINDOW_MS) = uint ts mod 60000"
    by (simp add: uint_mod_distrib TRACE_ADMISSION_WINDOW_MS_def)
  moreover have "uint ts mod 60000 \<le> uint ts" by (rule zmod_le_nonneg_dividend) simp
  ultimately have "uint (window_of ts) = uint ts - uint ts mod 60000"
    unfolding window_of_def m [symmetric] by (simp only: uint_sub_lem [symmetric])
  then show ?thesis by (simp add: minus_mod_eq_mult_div)
qed

lemma trace_charge_db:
  assumes "charge_trace_admission b db0 db ts limit = (b', db', r)"
  shows "db' = db \<or> (\<exists>n. db' = db\<lparr>db_trace := (uint (window_of ts), int n)\<rparr>)"
  using charge_trace_cases [OF assms(1)] unfolding refused_def spends_def reserves_def
  by (cases "r = Ok ()") (simp_all only: if_True if_False simp_thms, blast+)

lemma trace_charge_inv:
  assumes "charge_trace_admission b db0 db ts limit = (b', db', r)" "loft_inv C parse J cap db"
  shows "loft_inv C parse J cap db'"
proof -
  note trace_charge_db [OF assms(1)]
  then consider "db' = db" | n where "db' = db\<lparr>db_trace := (uint (window_of ts), int n)\<rparr>" by blast
  then show ?thesis
  proof cases
    case (2 n)
    have "control_ok db' = control_ok db" "policies_ok C J db' = policies_ok C J db" "records_ok C parse J db' = records_ok C parse J db"
      by (rule control_frame; simp add: 2)+
    moreover have "events_ok db' = events_ok db" by (rule events_frame; simp add: 2)
    ultimately show ?thesis
      using assms(2) by (simp add: loft_inv_def mail_ok_def within_def counters_ok_def trace_ok_def 2 window_multiple)
  qed (use assms in simp)
qed

lemma step_inv: "loft_step C parse J cap db db' \<Longrightarrow> loft_contract C J cap \<Longrightarrow> loft_inv C parse J cap db \<Longrightarrow> loft_inv C parse J cap db'"
  unfolding loft_contract_def
  by (elim loft_stepE conjE)
    (rule admit_inv put_policy_inv put_agent_record_inv put_rotation_record_inv sweep_expired_inv trace_charge_inv; assumption)+

lemma run_inv:
  "(loft_step C parse J cap)\<^sup>*\<^sup>* db db' \<Longrightarrow> loft_contract C J cap \<Longrightarrow> loft_inv C parse J cap db \<Longrightarrow> loft_inv C parse J cap db'"
  by (induction rule: rtranclp_induct) (auto intro: step_inv)

lemma reachable_inv: "reachable C parse J cap db \<Longrightarrow> loft_contract C J cap \<Longrightarrow> loft_inv C parse J cap db"
  unfolding reachable_def using run_inv empty_inv by blast

section \<open>Reading mail\<close>

definition row_mail :: "json_codec \<Rightarrow> event_row \<Rightarrow> stored_event" where
  "row_mail J e = \<lparr>se_cursor = word_of_int (ev_cursor e), se_wrap = the (Option.bind (from_slice J (ev_blob e)) wrap_from_json)\<rparr>"

definition mail_after :: "loft_db \<Rightarrow> bytes \<Rightarrow> u64 \<Rightarrow> event_row list" where
  "mail_after db k cursor = filter (\<lambda>e. ev_recipient e = k \<and> uint cursor < ev_cursor e) (db_events db)"

lemma fetch_rows_Ok:
  "\<forall>e \<in> set es. event_mail C J e \<and> 0 \<le> ev_cursor e \<Longrightarrow> fetch_rows J es = Ok (map (row_mail J) es)"
proof (induction es)
  case (Cons e es)
  then obtain w where "Option.bind (from_slice J (ev_blob e)) wrap_from_json = Some w"
    by (auto simp: event_mail_def split: option.splits)
  with Cons show ?case by (simp add: row_mail_def u64_try_from_def)
qed simp

lemma fetch_spec:
  assumes "loft_inv C parse J cap db" "uint cursor < 2 ^ 63" "limit < 2 ^ 63"
  shows "fetch J db k cursor limit = Ok (map (row_mail J) (take limit (mail_after db k cursor)))"
proof -
  have "unat (word_of_nat limit :: u64) = limit" using assms(3) by (intro unat_u64) simp
  then have "\<exists>i. to_i64 (word_of_nat limit) = Ok i" using assms(3) by (simp add: to_i64_def)
  moreover have "fetch_rows J (take limit (mail_after db k cursor)) = Ok (map (row_mail J) (take limit (mail_after db k cursor)))"
  proof (rule fetch_rows_Ok [of _ C], intro ballI conjI)
    fix e assume "e \<in> set (take limit (mail_after db k cursor))"
    then have e: "e \<in> set (db_events db)" "uint cursor < ev_cursor e" by (auto simp: mail_after_def dest!: in_set_takeD)
    show "event_mail C J e" using assms(1) e(1) by (simp add: loft_inv_def mail_ok_def)
    show "0 \<le> ev_cursor e" using e(2) unsigned_greater_eq [of cursor, where ?'a = int] by linarith
  qed
  ultimately show ?thesis
    using assms(2) to_i64_Ok [of cursor "uint cursor"] by (auto simp: fetch_def mail_after_def)
qed

section \<open>What only grows\<close>

definition successor_of :: "json_codec \<Rightarrow> agent_row \<Rightarrow> bytes option" where
  "successor_of J row = (case read_agent_record J (ag_record row) of Ok r \<Rightarrow> Some (ar_successor_hash r) | Err _ \<Rightarrow> None)"

definition agent_later :: "json_codec \<Rightarrow> loft_db \<Rightarrow> loft_db \<Rightarrow> bool" where
  "agent_later J db db' \<longleftrightarrow> (\<forall>a row. map_of (db_agents db) a = Some row \<longrightarrow>
     (\<exists>row'. map_of (db_agents db') a = Some row'
        \<and> (ag_record row' = ag_record row \<and> ag_seq row' = ag_seq row \<or> ag_seq row < ag_seq row')
        \<and> successor_of J row' = successor_of J row
        \<and> (map_of (db_rotations db) a \<noteq> None \<longrightarrow> ag_record row' = ag_record row)))"

definition rotation_later :: "loft_db \<Rightarrow> loft_db \<Rightarrow> bool" where
  "rotation_later db db' \<longleftrightarrow> (\<forall>a row. map_of (db_rotations db) a = Some row \<longrightarrow> map_of (db_rotations db') a = Some row)"

definition policy_later :: "loft_db \<Rightarrow> loft_db \<Rightarrow> bool" where
  "policy_later db db' \<longleftrightarrow> (\<forall>k row. map_of (db_policies db) k = Some row \<longrightarrow>
     (\<exists>row'. map_of (db_policies db') k = Some row' \<and> (row' = row \<or> pr_seq row < pr_seq row')))"

definition events_later :: "loft_db \<Rightarrow> loft_db \<Rightarrow> bool" where
  "events_later db db' \<longleftrightarrow> db_last_cursor db \<le> db_last_cursor db'
     \<and> (\<forall>e \<in> set (db_events db'). e \<in> set (db_events db) \<or> db_last_cursor db < ev_cursor e)"

definition later :: "json_codec \<Rightarrow> loft_db \<Rightarrow> loft_db \<Rightarrow> bool" where
  "later J db db' \<longleftrightarrow> agent_later J db db' \<and> rotation_later db db' \<and> policy_later db db' \<and> events_later db db'"

lemma later_same:
  assumes "db_agents db' = db_agents db" "db_rotations db' = db_rotations db" "db_policies db' = db_policies db"
    "events_later db db'"
  shows "later J db db'"
  using assms by (simp add: later_def agent_later_def rotation_later_def policy_later_def)

lemma events_later_subset:
  "db_last_cursor db' = db_last_cursor db \<Longrightarrow> set (db_events db') \<subseteq> set (db_events db) \<Longrightarrow> events_later db db'"
  by (auto simp: events_later_def)

lemma events_later_trans: "events_later db1 db2 \<Longrightarrow> events_later db2 db3 \<Longrightarrow> events_later db1 db3"
  unfolding events_later_def by (meson order_trans le_less_trans)

lemma later_trans:
  assumes "later J db1 db2" "later J db2 db3"
  shows "later J db1 db3"
proof -
  have "agent_later J db1 db3" unfolding agent_later_def
  proof (intro allI impI)
    fix a row assume "map_of (db_agents db1) a = Some row"
    then obtain row2 where 2: "map_of (db_agents db2) a = Some row2" "successor_of J row2 = successor_of J row"
      "ag_record row2 = ag_record row \<and> ag_seq row2 = ag_seq row \<or> ag_seq row < ag_seq row2"
      "map_of (db_rotations db1) a \<noteq> None \<longrightarrow> ag_record row2 = ag_record row"
      using assms(1) unfolding later_def agent_later_def by blast
    then obtain row3 where 3: "map_of (db_agents db3) a = Some row3" "successor_of J row3 = successor_of J row2"
      "ag_record row3 = ag_record row2 \<and> ag_seq row3 = ag_seq row2 \<or> ag_seq row2 < ag_seq row3"
      "map_of (db_rotations db2) a \<noteq> None \<longrightarrow> ag_record row3 = ag_record row2"
      using assms(2) unfolding later_def agent_later_def by blast
    moreover have "map_of (db_rotations db1) a \<noteq> None \<longrightarrow> map_of (db_rotations db2) a \<noteq> None"
      using assms(1) unfolding later_def rotation_later_def by blast
    ultimately show "\<exists>row'. map_of (db_agents db3) a = Some row'
        \<and> (ag_record row' = ag_record row \<and> ag_seq row' = ag_seq row \<or> ag_seq row < ag_seq row')
        \<and> successor_of J row' = successor_of J row
        \<and> (map_of (db_rotations db1) a \<noteq> None \<longrightarrow> ag_record row' = ag_record row)" using 2 by (intro exI [of _ row3]) auto
  qed
  moreover have "policy_later db1 db3" unfolding policy_later_def
  proof (intro allI impI)
    fix k row assume "map_of (db_policies db1) k = Some row"
    then obtain row2 where 2: "map_of (db_policies db2) k = Some row2" "row2 = row \<or> pr_seq row < pr_seq row2"
      using assms(1) unfolding later_def policy_later_def by blast
    then obtain row3 where "map_of (db_policies db3) k = Some row3" "row3 = row2 \<or> pr_seq row2 < pr_seq row3"
      using assms(2) unfolding later_def policy_later_def by blast
    with 2(2) show "\<exists>row'. map_of (db_policies db3) k = Some row' \<and> (row' = row \<or> pr_seq row < pr_seq row')"
      by (intro exI [of _ row3]) auto
  qed
  moreover have "rotation_later db1 db3" using assms unfolding later_def rotation_later_def by blast
  moreover have "events_later db1 db3" using assms events_later_trans unfolding later_def by blast
  ultimately show ?thesis unfolding later_def by blast
qed

lemma put_policy_later:
  assumes "put_policy C J db p cap now = Ok db'" "loft_inv C parse J cap db" "uint cap < 2 ^ 63"
  shows "later J db db'"
  using assms(1,3)
proof (cases rule: put_policy_cases)
  case same
  then show ?thesis by (simp add: later_same events_later_subset)
next
  case (written row db1 old na last_seq)
  note db1 = charged_within(1) [OF written(6) assms(3)]
  have "pr_seq r < pr_seq row" if r: "map_of (db_policies db) (rp_pubkey p) = Some r" for r
  proof -
    from written(4) r obtain q where q: "decode_policy C J (pr_policy r) = Ok q" "last_seq = Some (rp_seq q)" by auto
    have "check_policy_row C J (rp_pubkey p, r) = Ok ()"
      using assms(2) map_of_SomeD [OF r] by (simp add: loft_inv_def policies_ok_def)
    then have "pr_seq r = uint (rp_seq q)" using q(1)
      by (auto simp: check_policy_row_def decode_policy_Ok result_simps to_i64_Ok split: if_splits)
    moreover have "rp_seq q < rp_seq p" using written(3) q(2) by (auto simp: is_ok_iff policy_verify_Ok)
    ultimately show ?thesis by (simp add: written(2) word_less_def)
  qed
  then have "policy_later db db'" by (simp add: policy_later_def written(8) update_conv')
  then show ?thesis by (simp add: later_def agent_later_def rotation_later_def events_later_def written(8) db1)
qed

lemma put_agent_record_later:
  assumes "put_agent_record C parse J db addr record cap now = Ok db'" "loft_inv C parse J cap db" "uint cap < 2 ^ 63"
    and "agent_record_typed record" "json_contract J"
  shows "later J db db'"
  using assms(1,3)
proof (cases rule: put_agent_record_cases)
  case same
  then show ?thesis by (simp add: later_same events_later_subset)
next
  case (written a row db1 old na oldr res)
  note db1 = charged_within(1) [OF written(5) assms(3)]
  have "ag_seq r < ag_seq row \<and> successor_of J row = successor_of J r \<and> map_of (db_rotations db) a = None"
    if r: "map_of (db_agents db) a = Some r" for r
  proof -
    from written(4) r have "check_replacement C parse J db a record (ag_record r) = Ok ()" "ag_seq r < uint (ar_seq record)" by auto
    then show ?thesis
      using read_agent_blob [OF assms(5,4)]
      by (auto simp: check_replacement_def result_simps successor_of_def written(3) split: if_splits)
  qed
  then have "agent_later J db db'" by (auto simp: agent_later_def written(7) update_conv')
  then show ?thesis by (simp add: later_def policy_later_def rotation_later_def events_later_def written(7) db1)
qed

lemma put_rotation_record_later:
  assumes "put_rotation_record C parse J db addr record now cap = Ok (db', fresh)" "uint cap < 2 ^ 63"
  shows "later J db db'"
  using assms
proof (cases rule: put_rotation_record_cases)
  case same
  then show ?thesis by (simp add: later_same events_later_subset)
next
  case (written a target row db1 na res agent)
  note db1 = charged_within(1) [OF written(11) assms(2)]
  have "agent_later J db db'" using written(6) by (auto simp: agent_later_def written(13) update_conv' successor_of_def)
  moreover have "rotation_later db db'" by (simp add: rotation_later_def written(13) map_add_def)
  ultimately show ?thesis by (simp add: later_def policy_later_def events_later_def written(13) db1)
qed

lemma admit_later: "admit C J db w eid stored_at expires_at cap expected = Ok (db', fresh) \<Longrightarrow> later J db db'"
  by (erule admit_cases) (auto simp: events_later_def intro!: later_same)

lemma sweep_later: "sweep_expired db now batch = Ok (db', n) \<Longrightarrow> later J db db'"
  by (auto simp: sweep_expired_def result_simps Let_def split: if_splits intro!: later_same events_later_subset)

lemma trace_later: "charge_trace_admission b db0 db ts limit = (b', db', r) \<Longrightarrow> later J db db'"
  by (drule trace_charge_db) (auto intro!: later_same events_later_subset)

lemma step_later: "loft_step C parse J cap db db' \<Longrightarrow> loft_contract C J cap \<Longrightarrow> loft_inv C parse J cap db \<Longrightarrow> later J db db'"
  unfolding loft_contract_def
  by (elim loft_stepE conjE)
    (rule admit_later put_policy_later put_agent_record_later put_rotation_record_later sweep_later trace_later; assumption)+

lemma run_later:
  assumes "(loft_step C parse J cap)\<^sup>*\<^sup>* db db'" "loft_contract C J cap" "loft_inv C parse J cap db"
  shows "later J db db'"
  using assms(1)
proof (induction rule: rtranclp_induct)
  case base
  show ?case by (rule later_same) (simp_all add: events_later_subset)
next
  case (step y z)
  from later_trans [OF step(3) step_later [OF step(2) assms(2) run_inv [OF step(1) assms(2,3)]]] show ?case .
qed

lemma cursors_name_events:
  assumes "loft_inv C parse J cap db" "e \<in> set (db_events db)"
  shows "ev_cursor e \<le> db_last_cursor db" "e' \<in> set (db_events db) \<Longrightarrow> ev_cursor e' = ev_cursor e \<Longrightarrow> e' = e"
proof -
  have "sorted_wrt (<) (map ev_cursor (db_events db))" using assms(1) by (simp add: loft_inv_def events_ok_def)
  then have "inj_on ev_cursor (set (db_events db))" using distinct_map strict_sorted_iff by blast
  then show "e' \<in> set (db_events db) \<Longrightarrow> ev_cursor e' = ev_cursor e \<Longrightarrow> e' = e" using assms(2) by (simp add: inj_on_eq_iff)
  show "ev_cursor e \<le> db_last_cursor db" using assms by (simp add: loft_inv_def events_ok_def)
qed

section \<open>A rotation can always be published\<close>

lemma put_agent_record_fresh:
  assumes "uint cap < 2 ^ 63" "address_parse addr = Ok a" "ar_version record = AGENT_RECORD_VERSION"
    "is_ok (agent_record_verify C parse record a)" "map_of (db_agents db) a = None" "counters_ok db"
    "case counters db of (e, c, r) \<Rightarrow> c + r + int (length a + length (agent_blob J record)) + 4352 \<le> uint cap div 20
       \<and> e + c + r + int (length a + length (agent_blob J record)) + 4352 \<le> uint cap"
    "uint (ar_seq record) < 2 ^ 63" "uint now < 2 ^ 63"
  shows "\<exists>db' row. put_agent_record C parse J db addr record cap now = Ok db'
    \<and> db_agents db' = AList.update a row (db_agents db) \<and> ag_record row = agent_blob J record \<and> db_rotations db' = db_rotations db"
proof -
  let ?n = "length (agent_blob J record) + length a + 256"
  have "int ?n < 2 ^ 63"
    using assms(1,6,7) by (auto simp: counters_ok_def)
  then have n: "?n < 2 ^ 64" by simp
  define na where "na = (word_of_nat ?n :: u64)"
  have una: "unat na = ?n" unfolding na_def using n by (rule unat_u64)
  have na: "accounted_size (length (agent_blob J record)) (length a) = Ok na" by (simp add: accounted_size_Ok una)
  have ui: "uint na = int ?n" using una by (simp only: uint_int_unat)
  obtain db1 where r: "replace_control_charge db cap 0 na 0 ROTATION_STORAGE_RESERVATION = Ok db1"
    using assms(6,7) ui by (auto simp: replace_control_charge_Ok [OF assms(1)] store_consts counters_ok_def)
  note db1 = charged_within(1) [OF r assms(1)]
  have "to_i64 na = Ok (uint na)" "to_i64 (ar_seq record) = Ok (uint (ar_seq record))" "to_i64 now = Ok (uint now)"
    "to_i64 ROTATION_STORAGE_RESERVATION = Ok 4096"
    using \<open>int ?n < 2 ^ 63\<close> ui assms(8,9) by (simp_all add: to_i64_Ok store_consts)
  with assms(2-5) na r show ?thesis
    by (auto simp: put_agent_record_def Let_def is_ok_iff db1 intro!: exI)
qed

lemma member_le_sum_int: "x \<in> set xs \<Longrightarrow> \<forall>y \<in> set xs. 0 \<le> f y \<Longrightarrow> f x \<le> (sum_list (map f xs) :: int)"
proof (induction xs)
  case (Cons y ys)
  then have "0 \<le> sum_list (map f ys)" by (intro sum_list_nonneg) auto
  with Cons show ?case by auto
qed simp

lemma reserved_ge:
  assumes "control_ok db" "map_of (db_agents db) a = Some row"
  shows "ag_reservation row \<le> st_control_reserved (db_stats db)"
proof -
  have acc: "\<not> invalid_control_accounting db" using assms(1) by (simp add: control_ok_def)
  have "\<forall>y \<in> set (db_agents db). 0 \<le> (case y of (_, r) \<Rightarrow> ag_reservation r)"
    using control_accountingD [OF acc] by (auto simp: agent_accounted_def split: option.splits)
  from member_le_sum_int [OF map_of_SomeD [OF assms(2)] this]
  show ?thesis using assms(1) by (simp add: control_ok_def computed_control_def)
qed

lemma rotation_row_source:
  assumes "loft_inv C parse J cap db" "(a, row) \<in> set (db_rotations db)"
  shows "a = address_from_pubkey C (ro_from_pubkey row)"
proof -
  have "rotation_row_ok C J db a row" using assms by (auto simp: loft_inv_def records_ok_def)
  then show ?thesis
    by (auto simp: rotation_row_ok_def verify_source_address_def address_matches_def is_ok_iff result_simps
      verifying_key_from_bytes_Ok split: option.splits sum.splits if_splits)
qed

lemma rotation_fields:
  assumes "rotation_verify C r pinned seq now = Ok t"
  shows "uint (rr_grace_until r) = uint (rr_activated_at r) + 7776000" "0 < uint (rr_activated_at r)" "0 < uint (rr_seq r)"
    "target_address C r = Ok (address_from_pubkey C (rr_to_pubkey r))"
proof -
  note v = assms [unfolded rotation_verify_Ok]
  have "unat (rr_grace_until r) = unat (rr_activated_at r) + 7776000"
    using v by (simp add: checked_sub_Some ROTATION_GRACE_SECS_def)
  then show "uint (rr_grace_until r) = uint (rr_activated_at r) + 7776000"
    using uint_int_unat [of "rr_grace_until r"] uint_int_unat [of "rr_activated_at r"] by linarith
  have "unat (rr_seq r) = unat seq + 1" using v by (simp add: checked_add_Some)
  then show "0 < uint (rr_seq r)" using uint_int_unat [of "rr_seq r"] by linarith
  have "0 < unat (rr_activated_at r)" using v by (simp add: unat_gt_0)
  then show "0 < uint (rr_activated_at r)" using uint_int_unat [of "rr_activated_at r"] by linarith
  show "target_address C r = Ok (address_from_pubkey C (rr_to_pubkey r))"
    using v by (simp add: target_address_def verifying_key_from_bytes_def split: if_splits)
qed

lemma rotation_blob_length: "json_contract J \<Longrightarrow> rotation_typed r \<Longrightarrow> length (rotation_blob J r) \<le> 1300"
  using rotation_json_wf [of r] rotation_json_size [of r] by (auto simp: json_contract_def intro: order_trans)

lemma put_rotation_fresh:
  assumes inv: "loft_inv C parse J cap db" and ctr: "loft_contract C J cap" and typed: "rotation_typed record"
    and a: "address_parse addr = Ok a" "verify_source_address C record a = Ok ()"
    and row: "map_of (db_agents db) a = Some row" "map_of (db_rotations db) a = None"
    and agent: "read_agent_record J (ag_record row) = Ok agent"
    and v: "rotation_verify C record (ar_successor_hash agent) (ar_seq agent) now = Ok t"
    and bounds: "uint (rr_seq record) < 2 ^ 63" "uint (rr_grace_until record) < 2 ^ 63" "0 < uint now" "uint now < 2 ^ 63"
  shows "\<exists>db' row'. put_rotation_record C parse J db addr record now cap = Ok (db', True)
    \<and> map_of (db_rotations db') a = Some row' \<and> ro_record row' = rotation_blob J record"
proof -
  have c: "control_ok db" and w: "within cap db" using inv by (simp_all add: loft_inv_def)
  have cap: "uint cap < 2 ^ 63" and J: "json_contract J" and H: "hash_contract C" using ctr by (simp_all add: loft_contract_def)
  have "agent_row_ok C parse J a row" using inv map_of_SomeD [OF row(1)] by (auto simp: loft_inv_def records_ok_def)
  then have av: "is_ok (agent_record_verify C parse agent a)" by (simp add: agent_row_ok_def agent)
  have from_pk: "a = address_from_pubkey C (rr_from_pubkey record)"
    using a(2) by (auto simp: verify_source_address_def address_matches_def result_simps verifying_key_from_bytes_Ok split: if_splits)
  note fields = rotation_fields [OF v]
  define target where "target = address_from_pubkey C (rr_to_pubkey record)"
  let ?n = "length (rotation_blob J record) + (length a + length target) + 256"
  have n: "?n \<le> 1700"
    using rotation_blob_length [OF J typed] by (simp add: from_pk target_def address_length [OF H])
  define na where "na = (word_of_nat ?n :: u64)"
  have una: "unat na = ?n" unfolding na_def using n by (intro unat_u64) simp
  have na: "accounted_size (length (rotation_blob J record)) (length a + length target) = Ok na" by (simp add: accounted_size_Ok una)
  have ui: "uint na = int ?n" using una by (simp only: uint_int_unat)
  have "agent_accounted db a row" using c map_of_SomeD [OF row(1)] control_accountingD by (simp add: control_ok_def)
  then have res: "ag_reservation row = 4096" using row(2) by (simp add: agent_accounted_def)
  have resw: "row_u64 (ag_reservation row) = Ok 4096" by (simp add: row_u64_Ok res)
  have "\<not> (4096 :: u64) < na" using una n by (simp add: word_less_nat_alt)
  obtain db1 where r: "replace_control_charge db cap 0 na 4096 0 = Ok db1"
    using w reserved_ge [OF c row(1)] n ui unfolding res
    by (auto simp: replace_control_charge_Ok [OF cap] within_def counters_ok_def)
  note db1 = charged_within(1) [OF r cap]
  have i: "to_i64 (rr_seq record) = Ok (uint (rr_seq record))" "to_i64 (rr_activated_at record) = Ok (uint (rr_activated_at record))"
    "to_i64 (rr_grace_until record) = Ok (uint (rr_grace_until record))" "to_i64 now = Ok (uint now)" "to_i64 na = Ok (uint na)"
    using bounds fields(1) ui n by (simp_all add: to_i64_Ok)
  have uniq: "\<not> list_ex (\<lambda>(_, r). ro_from_pubkey r = rr_from_pubkey record) (db_rotations db)"
  proof
    assume "list_ex (\<lambda>(_, r). ro_from_pubkey r = rr_from_pubkey record) (db_rotations db)"
    then obtain b r where b: "(b, r) \<in> set (db_rotations db)" "ro_from_pubkey r = rr_from_pubkey record" by (auto simp: list_ex_iff)
    with rotation_row_source [OF inv b(1)] from_pk have "(a, r) \<in> set (db_rotations db)" by simp
    with row(2) show False by (force simp: map_of_eq_None_iff)
  qed
  have ins: "insert_rotation (db1\<lparr>db_agents := AList.update a (row\<lparr>ag_reservation := 0\<rparr>) (db_agents db1)\<rparr>) a (rotation_row_of J record target now na)
      = Ok (db1\<lparr>db_agents := AList.update a (row\<lparr>ag_reservation := 0\<rparr>) (db_agents db1), db_rotations := db_rotations db @ [(a, rotation_row_of J record target now na)]\<rparr>)"
    using uniq row(2) typed bounds fields(1-3) by (simp add: insert_rotation_def db1 rotation_typed_def)
  have "put_rotation_record C parse J db addr record now cap =
      Ok (db1\<lparr>db_agents := AList.update a (row\<lparr>ag_reservation := 0\<rparr>) (db_agents db1), db_rotations := db_rotations db @ [(a, rotation_row_of J record target now na)]\<rparr>, True)"
    using av \<open>\<not> (4096 :: u64) < na\<close> by (auto simp: put_rotation_record_def Let_def a fields(4) [folded target_def] na row resw agent is_ok_iff v r i ins)
  then show ?thesis using row(2) by (simp add: map_add_def)
qed

section \<open>The retention loop\<close>

lemma sweep_removed:
  "sweep_expired db now batch = Ok (db', removed) \<Longrightarrow> removed = length (db_events db) - length (db_events db')"
  by (auto simp: sweep_expired_def result_simps Let_def split: if_splits)

lemma sweep_shrinks:
  "sweep_expired db now batch = Ok (db', removed) \<Longrightarrow> removed \<noteq> 0 \<Longrightarrow> length (db_events db') < length (db_events db)"
  by (drule sweep_removed) simp

text \<open>
  Each batch is a transaction of its own, so a later failure keeps the batches already removed. The
  running total saturates at the largest \<^verbatim>\<open>usize\<close>.
\<close>

function sweep_loop :: "loft_db \<Rightarrow> u64 \<Rightarrow> nat \<Rightarrow> nat \<Rightarrow> loft_db \<times> (loft_error + nat)" where
  "sweep_loop db now batch removed_total =
     (case sweep_expired db now batch of
        Err e \<Rightarrow> (db, Err e)
      | Ok (db', removed) \<Rightarrow>
          if removed = 0 then (db', Ok removed_total)
          else sweep_loop db' now batch (min (removed_total + removed) (2 ^ 64 - 1)))"
  by pat_completeness auto
termination
  by (relation "measure (\<lambda>(db, _, _, _). length (db_events db))") (auto dest: sweep_shrinks)

declare sweep_loop.simps [simp del]

text \<open>\<open>busy\<close> is the answer of the WAL checkpoint that follows a sweep which removed something.\<close>

definition sweep_once :: "loft_db \<Rightarrow> bool \<Rightarrow> u64 \<Rightarrow> nat \<Rightarrow> loft_db \<times> (loft_error + nat)" where
  "sweep_once db busy now batch =
     (if batch = 0 then (db, Err (Configuration ''retention batch must be nonzero''))
      else case sweep_loop db now batch 0 of
          (db, Err e) \<Rightarrow> (db, Err e)
        | (db, Ok removed_total) \<Rightarrow> (db, if 0 < removed_total \<and> busy then Err NotReady else Ok removed_total))"

abbreviation expired_in :: "loft_db \<Rightarrow> u64 \<Rightarrow> event_row list" where
  "expired_in db now \<equiv> filter (\<lambda>e. ev_expires_at e \<le> uint now) (db_events db)"

abbreviation live_in :: "loft_db \<Rightarrow> u64 \<Rightarrow> event_row list" where
  "live_in db now \<equiv> filter (\<lambda>e. uint now < ev_expires_at e) (db_events db)"

lemma expired_live: "length (expired_in db now) + length (live_in db now) = length (db_events db)"
  using sum_length_filter_compl [of "\<lambda>e. ev_expires_at e \<le> uint now" "db_events db"] by (simp add: not_le)

lemma filter_full: "length (filter P xs) = length xs \<Longrightarrow> filter P xs = xs"
proof (induction xs)
  case (Cons x xs)
  then show ?case using length_filter_le [of P xs] by (cases "P x") simp_all
qed simp

lemma sweep_loop_exact:
  assumes "uint cap < 2 ^ 63" "uint now < 2 ^ 63" "0 < batch" "to_i64 (word_of_nat batch) = Ok i"
  shows "loft_inv C parse J cap db \<Longrightarrow> removed_total + length (expired_in db now) < 2 ^ 64 \<Longrightarrow>
    \<exists>db'. sweep_loop db now batch removed_total = (db', Ok (removed_total + length (expired_in db now)))
      \<and> db_events db' = live_in db now \<and> loft_inv C parse J cap db'"
proof (induction "length (db_events db)" arbitrary: db removed_total rule: less_induct)
  case less
  from less.prems(1) have ev: "events_ok db" by (simp add: loft_inv_def)
  from sweep_expired_spec [OF ev assms(2-4)] obtain kept P where
    k: "sweep_expired db now batch = Ok (db\<lparr>db_events := kept,
        db_stats := (db_stats db)\<lparr>st_bytes_used := sum_list (map ev_size kept), st_event_count := int (length kept)\<rparr>\<rparr>,
        length (db_events db) - length kept)"
      "kept = filter P (db_events db)" "length (db_events db) - length kept = min batch (length (expired_in db now))"
      "filter (\<lambda>e. uint now < ev_expires_at e) kept = live_in db now" by (elim exE conjE) (rule that)
  define db' where "db' = db\<lparr>db_events := kept,
    db_stats := (db_stats db)\<lparr>st_bytes_used := sum_list (map ev_size kept), st_event_count := int (length kept)\<rparr>\<rparr>"
  have s: "sweep_expired db now batch = Ok (db', length (db_events db) - length (db_events db'))"
    and n: "length (db_events db) - length (db_events db') = min batch (length (expired_in db now))"
    and l: "live_in db' now = live_in db now" "db_events db' = filter P (db_events db)"
    using k by (simp_all add: db'_def)
  have inv: "loft_inv C parse J cap db'" by (rule sweep_expired_inv [OF s less.prems(1) assms(1)])
  have le: "length (db_events db') \<le> length (db_events db)" using l(2) by auto
  have e: "length (expired_in db now) = length (expired_in db' now) + min batch (length (expired_in db now))"
    using expired_live [where db = db and now = now] expired_live [where db = db' and now = now] l(1) n le by simp
  show ?case
  proof (cases "expired_in db now = []")
    case True
    then have "live_in db now = db_events db" by (auto simp: filter_empty_conv filter_id_conv)
    moreover have "db_events db' = db_events db" using l(2) n le True by (intro trans [OF l(2) filter_full] antisym) simp_all
    ultimately show ?thesis using s n True inv by (subst sweep_loop.simps) simp
  next
    case False
    define k where "k = min batch (length (expired_in db now))"
    have k: "0 < k" using False assms(3) by (simp add: k_def)
    have "length (db_events db') < length (db_events db)" using n [folded k_def] k by linarith
    moreover have "removed_total + k + length (expired_in db' now) < 2 ^ 64" using less.prems(2) e by (simp add: k_def)
    moreover have "min (removed_total + k) (2 ^ 64 - 1) = removed_total + k" using calculation(2) by simp
    ultimately obtain db2 where "sweep_loop db' now batch (removed_total + k) = (db2, Ok (removed_total + k + length (expired_in db' now)))"
      "db_events db2 = live_in db' now" "loft_inv C parse J cap db2"
      using less.hyps [OF _ inv, of "removed_total + k"] by auto
    then show ?thesis
      using s n k e l(1) \<open>min (removed_total + k) (2 ^ 64 - 1) = removed_total + k\<close>
      by (subst sweep_loop.simps) (simp add: k_def [symmetric])
  qed
qed

section \<open>Admission\<close>

lemma admit_fresh:
  assumes "verify_public C w = Ok ()" "wrap_to_json w = Some j" "wrap_id C w \<notin> set (map ev_id (db_events db))"
    and "expected_seq C J db (w_recipient w) expected" "counters_ok db"
    and "case counters db of (e, c, r) \<Rightarrow> e + c + r + int (length (to_vec J j)) + 256 \<le> uint cap"
    and "db_last_cursor db < 2 ^ 63 - 1" "uint stored_at < 2 ^ 63" "uint expires_at < 2 ^ 63" "uint cap < 2 ^ 63"
  shows "admit C J db w (wrap_id C w) stored_at expires_at cap expected =
    Ok (add_event db \<lparr>ev_cursor = db_last_cursor db + 1, ev_id = wrap_id C w, ev_recipient = w_recipient w, ev_stored_at = uint stored_at,
      ev_expires_at = uint expires_at, ev_size = int (length (to_vec J j)) + 256, ev_blob = to_vec J j\<rparr>, True)"
proof -
  obtain e c r where ctr: "counters db = (e, c, r)" by simp
  have nn: "0 \<le> e" "0 \<le> c" "0 \<le> r" using assms(5) ctr by (auto simp: counters_ok_def)
  let ?n = "length (to_vec J j)"
  have fit: "e + c + r + int ?n + 256 \<le> uint cap" using assms(6) ctr by simp
  then have lt: "int ?n + 256 < 2 ^ 63" "?n + 256 < 2 ^ 64" using nn assms(10) by simp_all
  define acc where "acc = saturating_add (case u64_len_opt ?n of Some n \<Rightarrow> n | None \<Rightarrow> - 1) EVENT_STORAGE_OVERHEAD"
  have "u64_len_opt ?n = Some (word_of_nat ?n)" "unat (word_of_nat ?n :: u64) = ?n"
    using lt(2) by (simp_all add: u64_len_opt_def unat_u64)
  then have uacc: "unat acc = ?n + 256" using lt(2) by (simp add: acc_def unat_saturating_add store_consts)
  then have iacc: "uint acc = int ?n + 256" using uint_int_unat [of acc] by linarith
  define E Cw R U where "E = (word_of_int e :: u64)" and "Cw = (word_of_int c :: u64)" and "R = (word_of_int r :: u64)"
    and "U = (word_of_int (e + c + r) :: u64)"
  have u: "uint E = e" "uint Cw = c" "uint R = r" "uint U = e + c + r" "uint (word_of_int (e + c) :: u64) = e + c"
    unfolding E_def Cw_def R_def U_def using nn fit assms(10) by (intro uint_u64; simp)+
  have cc: "control_counters db = Ok (E, Cw, R)" using assms(5) ctr u by (simp add: control_counters_Ok)
  have "checked_add E Cw = Some (word_of_int (e + c))" "checked_add (word_of_int (e + c)) R = Some U"
    using u by (simp_all add: checked_add_uint)
  then have used: "Option.bind (checked_add E Cw) (\<lambda>v. checked_add v R) = Some U" by simp
  have "int (unat U) = e + c + r" using u(4) uint_int_unat [of U] by linarith
  then have "unat acc \<le> unat cap - unat U" using fit uacc uint_int_unat [of cap] by linarith
  then have ok: "\<not> saturating_sub cap U < acc" by (simp add: word_less_nat_alt unat_saturating_sub)
  have i: "to_i64 stored_at = Ok (uint stored_at)" "to_i64 expires_at = Ok (uint expires_at)" "to_i64 acc = Ok (int ?n + 256)"
    using assms(8,9) lt iacc by (simp_all add: to_i64_Ok)
  have x: "(case map_of (db_policies db) (w_recipient w) of
      Some row \<Rightarrow> and_then (decode_policy C J (pr_policy row)) (\<lambda>p. Ok (Some (rp_seq p))) | None \<Rightarrow> Ok None) = Ok expected"
    using assms(4) by (auto simp: expected_seq_def split: option.splits)
  have d: "\<not> list_ex (\<lambda>e. ev_id e = wrap_id C w) (db_events db)" using assms(3) by (auto simp: list_ex_iff image_iff)
  show ?thesis
    using assms(1,7) d x by (simp add: admit_def insert_event_def assms(2) Let_def acc_def [symmetric] cc used ok i add_event_def)
qed

lemma events_count_bound: "loft_inv C parse J cap db \<Longrightarrow> int (length (db_events db)) < 2 ^ 63"
  using sum_sizes_ge [of "db_events db"]
  by (auto simp: loft_inv_def events_ok_def computed_events_def within_def counters_ok_def)

lemma stats_Ok:
  assumes "loft_inv C parse J cap db" "uint cap < 2 ^ 63"
  shows "\<exists>s. stats db = Ok s \<and> unat (bytes_used s) \<le> unat cap
    \<and> unat (control_bytes_used s) + unat (control_bytes_reserved s) \<le> unat cap div 20 \<and> unat (event_count s) = length (db_events db)"
proof -
  obtain e c r where ctr: "counters db = (e, c, r)" by simp
  have w: "0 \<le> e" "0 \<le> c" "0 \<le> r" "e < 2 ^ 63" "c < 2 ^ 63" "r < 2 ^ 63" "e + c + r \<le> uint cap" "c + r \<le> uint cap div 20"
    using assms(1) ctr by (auto simp: loft_inv_def within_def counters_ok_def)
  let ?n = "int (length (db_events db))"
  have n: "st_event_count (db_stats db) = ?n" "?n < 2 ^ 63"
    using assms(1) events_count_bound [OF assms(1)] by (simp_all add: loft_inv_def events_ok_def computed_events_def)
  define E Cw R U N where "E = (word_of_int e :: u64)" and "Cw = (word_of_int c :: u64)" and "R = (word_of_int r :: u64)"
    and "U = (word_of_int (e + c + r) :: u64)" and "N = (word_of_int ?n :: u64)"
  have u: "uint E = e" "uint Cw = c" "uint R = r" "uint U = e + c + r" "uint N = ?n" "uint (word_of_int (e + c) :: u64) = e + c"
    unfolding E_def Cw_def R_def U_def N_def using w n(2) assms(2) by (intro uint_u64; simp)+
  have g: "get_i64 e = Ok e" "get_i64 c = Ok c" "get_i64 r = Ok r" "get_i64 ?n = Ok ?n" using w n(2) by (simp_all add: get_i64_Ok)
  have t: "u64_counter e = Ok E" "u64_counter c = Ok Cw" "u64_counter r = Ok R" "u64_counter ?n = Ok N"
    using w n(2) u by (simp_all add: u64_try_from_Ok)
  have "checked_add E Cw = Some (word_of_int (e + c))" "checked_add (word_of_int (e + c)) R = Some U"
    using u by (simp_all add: checked_add_uint)
  then have "stats db = Ok \<lparr>bytes_used = U, event_bytes_used = E, control_bytes_used = Cw, control_bytes_reserved = R, event_count = N\<rparr>"
    using ctr g t n(1) by (simp add: stats_def)
  moreover have "int (unat U) \<le> int (unat cap)" "int (unat Cw) + int (unat R) \<le> int (unat cap) div 20" "int (unat N) = ?n"
    using u w uint_int_unat [of U] uint_int_unat [of Cw] uint_int_unat [of R] uint_int_unat [of N] uint_int_unat [of cap] by linarith+
  then have "unat U \<le> unat cap" "unat Cw + unat R \<le> unat cap div 20" "unat N = length (db_events db)" by linarith+
  ultimately show ?thesis by simp
qed

lemma rotation_served:
  assumes inv: "loft_inv C parse J cap db" and H: "hash_contract C" and row: "map_of (db_rotations db) a = Some row"
  shows "\<exists>rotation. read_rotation J (ro_record row) = Ok rotation \<and> store_rotation_record C parse J db a = Ok (Some rotation)"
proof -
  have mem: "(a, row) \<in> set (db_rotations db)" by (rule map_of_SomeD [OF row])
  then have "rotation_row_ok C J db a row" using inv by (auto simp: loft_inv_def records_ok_def)
  then obtain arow agent rotation t u v where ar: "map_of (db_agents db) a = Some arow" "read_agent_record J (ag_record arow) = Ok agent"
      "read_rotation J (ro_record row) = Ok rotation" "verify_source_address C rotation a = Ok u"
      "rotation_verify C rotation (ar_successor_hash agent) (ar_seq agent) t = Ok v"
    by (auto simp: rotation_row_ok_def is_ok_iff split: option.splits sum.splits)
  have "agent_row_ok C parse J a arow" using inv map_of_SomeD [OF ar(1)] by (auto simp: loft_inv_def records_ok_def)
  then obtain k where k: "agent_record_verify C parse agent a = Ok k" by (auto simp: agent_row_ok_def ar is_ok_iff)
  have "unat (rr_activated_at rotation) \<le> unat (saturating_add (rr_activated_at rotation) ROTATION_CLOCK_SKEW_SECS)"
    using unat_lt2p [of "rr_activated_at rotation"] by (simp add: unat_saturating_add)
  then have "rotation_verify C rotation (ar_successor_hash agent) (ar_seq agent) (rr_activated_at rotation) = Ok v"
    using ar(5) by (simp add: rotation_verify_Ok word_less_nat_alt)
  moreover have "address_parse a = Ok a" using rotation_row_source [OF inv mem] address_parse_derived [OF H] by simp
  ultimately show ?thesis using row ar k by (auto simp: store_rotation_record_def)
qed

lemma filter_after:
  fixes f :: "'a \<Rightarrow> int"
  assumes "sorted_wrt (<) (map f xs)" "xs = ys @ y # zs"
  shows "filter (\<lambda>e. f y < f e) xs = zs"
  using assms by (auto simp: sorted_wrt_append filter_empty_conv filter_id_conv)

lemma cursor_uint:
  assumes "loft_inv C parse J cap db" "e \<in> set (db_events db)"
  shows "uint (se_cursor (row_mail J e)) = ev_cursor e"
proof -
  have "0 < ev_cursor e" "ev_cursor e < 2 ^ 63"
    using assms by (auto simp: loft_inv_def events_ok_def invalid_event_def)
  then show ?thesis unfolding row_mail_def stored_event.simps by (intro uint_u64) simp_all
qed

lemma row_mail_valid:
  assumes "loft_inv C parse J cap db" "e \<in> set (db_events db)"
  shows "w_recipient (se_wrap (row_mail J e)) = ev_recipient e \<and> verify_public C (se_wrap (row_mail J e)) = Ok ()"
  using assms by (auto simp: loft_inv_def mail_ok_def event_mail_def row_mail_def split: option.splits)

lemma fetch_page:
  assumes inv: "loft_inv C parse J cap db" and "uint cursor < 2 ^ 63" "limit < 2 ^ 63"
  shows "\<exists>es. fetch J db k cursor limit = Ok es \<and> length es = min limit (length (mail_after db k cursor))
    \<and> sorted_wrt (<) (map se_cursor es)
    \<and> list_all (\<lambda>e. cursor < se_cursor e \<and> w_recipient (se_wrap e) = k \<and> verify_public C (se_wrap e) = Ok ()) es
    \<and> (es \<noteq> [] \<longrightarrow> mail_after db k (se_cursor (last es)) = drop (length es) (mail_after db k cursor))"
proof -
  define ms where "ms = mail_after db k cursor"
  define es where "es = map (row_mail J) (take limit ms)"
  have sub: "set ms \<subseteq> set (db_events db)" by (auto simp: ms_def mail_after_def)
  have cur: "uint (se_cursor (row_mail J e)) = ev_cursor e" if "e \<in> set ms" for e using cursor_uint [OF inv] sub that by blast
  have srt: "sorted_wrt (<) (map ev_cursor ms)"
    using inv by (simp add: ms_def mail_after_def loft_inv_def events_ok_def sorted_wrt_map sorted_wrt_filter)
  then have "sorted_wrt (\<lambda>x y. ev_cursor x < ev_cursor y) (take limit ms)" by (simp add: sorted_wrt_map sorted_wrt_take)
  then have "sorted_wrt (\<lambda>x y. se_cursor (row_mail J x) < se_cursor (row_mail J y)) (take limit ms)"
    by (rule sorted_wrt_mono_rel [rotated]) (auto simp: word_less_def cur dest!: in_set_takeD)
  then have "sorted_wrt (<) (map se_cursor es)" by (simp add: es_def sorted_wrt_map)
  moreover have "list_all (\<lambda>e. cursor < se_cursor e \<and> w_recipient (se_wrap e) = k \<and> verify_public C (se_wrap e) = Ok ()) es"
    using sub row_mail_valid [OF inv]
    by (auto simp: es_def list_all_iff word_less_def cur dest!: in_set_takeD) (auto simp: ms_def mail_after_def)
  moreover have "mail_after db k (se_cursor (last es)) = drop (length es) ms" if ne: "es \<noteq> []"
  proof -
    from ne have tk: "take limit ms \<noteq> []" by (simp add: es_def)
    define y where "y = last (take limit ms)"
    have split: "ms = butlast (take limit ms) @ y # drop limit ms"
      unfolding y_def by (metis append_butlast_last_id [OF tk] append_take_drop_id append.assoc append_Cons append_Nil)
    have y: "y \<in> set ms" by (subst split) simp
    have "uint (se_cursor (last es)) = ev_cursor y" using tk cur [OF y] by (simp add: es_def last_map y_def)
    moreover have "uint cursor < ev_cursor y" using y by (simp add: ms_def mail_after_def)
    ultimately have "mail_after db k (se_cursor (last es)) = filter (\<lambda>e. ev_cursor y < ev_cursor e) ms"
      by (auto simp: mail_after_def ms_def filter_filter intro!: filter_cong)
    also have "\<dots> = drop limit ms" by (rule filter_after [OF srt split])
    also have "\<dots> = drop (length es) ms" by (simp add: es_def min_def)
    finally show ?thesis .
  qed
  moreover have "fetch J db k cursor limit = Ok es" using fetch_spec [OF inv assms(2,3)] by (simp add: es_def ms_def)
  moreover have "length es = min limit (length ms)" by (simp add: es_def min.commute)
  ultimately show ?thesis unfolding ms_def by blast
qed

section \<open>Properties\<close>

text \<open>C4. Whatever is published, swept or refused, a loft's database passes the checks made when it is next opened, its
  statistics can be read, and with a capacity below 2^63 bytes it never holds more than that capacity nor
  more than a twentieth of it in control records and reservations.\<close>

theorem store_always_validates:
  assumes "reachable C parse J cap db" "loft_contract C J cap"
  shows "validate_loft_invariants C J db = Ok ()
    \<and> (\<exists>s. stats db = Ok s \<and> unat (bytes_used s) \<le> unat cap
        \<and> unat (control_bytes_used s) + unat (control_bytes_reserved s) \<le> unat cap div 20
        \<and> unat (event_count s) = length (db_events db))"
proof -
  have inv: "loft_inv C parse J cap db" by (rule reachable_inv [OF assms])
  then show ?thesis using inv_validates [OF inv] stats_Ok [OF inv] assms(2) by (auto simp: loft_contract_def)
qed

text \<open>C8. Sequence numbers only grow, commitments are pinned and cursors are never reused. Take any state the store can
  reach and any later state of the same run. A recipient's policy row is still there and is the same row, or one with
  a larger sequence number. The agent record stored at an address is byte for byte the same record, or one with a
  larger sequence number; its successor commitment is the same either way. An event of the later state is an event of
  the earlier one or has a cursor above every cursor issued until then, so that a cursor never names two events.\<close>

theorem sequences_only_grow:
  assumes "reachable C parse J cap db" "(loft_step C parse J cap)\<^sup>*\<^sup>* db db'" "loft_contract C J cap"
  shows "(\<forall>k row. map_of (db_policies db) k = Some row \<longrightarrow>
      (\<exists>row'. map_of (db_policies db') k = Some row' \<and> (row' = row \<or> pr_seq row < pr_seq row')))
    \<and> (\<forall>a row. map_of (db_agents db) a = Some row \<longrightarrow>
      (\<exists>row'. map_of (db_agents db') a = Some row'
         \<and> (ag_record row' = ag_record row \<and> ag_seq row' = ag_seq row \<or> ag_seq row < ag_seq row')
         \<and> successor_of J row' = successor_of J row))
    \<and> (\<forall>e' \<in> set (db_events db'). e' \<in> set (db_events db) \<or> db_last_cursor db < ev_cursor e')
    \<and> (\<forall>e \<in> set (db_events db). \<forall>e' \<in> set (db_events db'). ev_cursor e \<le> db_last_cursor db \<and> (ev_cursor e' = ev_cursor e \<longrightarrow> e' = e))
    \<and> db_last_cursor db \<le> db_last_cursor db'"
proof -
  have inv: "loft_inv C parse J cap db" by (rule reachable_inv [OF assms(1,3)])
  have l: "later J db db'" by (rule run_later [OF assms(2,3) inv])
  then have ev: "\<forall>e' \<in> set (db_events db'). e' \<in> set (db_events db) \<or> db_last_cursor db < ev_cursor e'"
    "db_last_cursor db \<le> db_last_cursor db'" unfolding later_def events_later_def by blast+
  moreover have "ev_cursor e \<le> db_last_cursor db \<and> (ev_cursor e' = ev_cursor e \<longrightarrow> e' = e)"
    if "e \<in> set (db_events db)" "e' \<in> set (db_events db')" for e e'
    using that ev(1) cursors_name_events [OF inv that(1)] by fastforce
  ultimately show ?thesis using l unfolding later_def policy_later_def agent_later_def by blast
qed

text \<open>C9. A published rotation is final. From then on, whatever else the store does, the same rotation is served at its
  address and it verifies against the agent record stored there, which can no longer change.\<close>

theorem published_rotation_final:
  assumes "reachable C parse J cap db" "loft_contract C J cap" "(loft_step C parse J cap)\<^sup>*\<^sup>* db db'"
    and "map_of (db_rotations db) a = Some row"
  shows "\<exists>rotation. read_rotation J (ro_record row) = Ok rotation \<and> store_rotation_record C parse J db' a = Ok (Some rotation)
    \<and> map_option ag_record (map_of (db_agents db') a) = map_option ag_record (map_of (db_agents db) a)"
proof -
  have inv: "loft_inv C parse J cap db" by (rule reachable_inv [OF assms(1,2)])
  have inv': "loft_inv C parse J cap db'" by (rule run_inv [OF assms(3,2) inv])
  have l: "later J db db'" by (rule run_later [OF assms(3,2) inv])
  then have row': "map_of (db_rotations db') a = Some row" using assms(4) unfolding later_def rotation_later_def by blast
  from rotation_served [OF inv' _ row'] assms(2) obtain rotation where
    "read_rotation J (ro_record row) = Ok rotation" "store_rotation_record C parse J db' a = Ok (Some rotation)"
    by (auto simp: loft_contract_def)
  moreover obtain arow where "map_of (db_agents db) a = Some arow"
    using inv map_of_SomeD [OF assms(4)] by (auto simp: loft_inv_def records_ok_def rotation_row_ok_def split: option.splits)
  moreover from this obtain arow' where "map_of (db_agents db') a = Some arow'" "ag_record arow' = ag_record arow"
    using l assms(4) unfolding later_def agent_later_def by (metis option.distinct(1))
  ultimately show ?thesis by auto
qed

text \<open>C11. No admitted identity is stranded. However full the loft is, an agent with a stored record and no rotation yet
  can publish a rotation that verifies: the reservation made with its record covers it.\<close>

theorem rotation_never_stranded:
  assumes "reachable C parse J cap db" "loft_contract C J cap" "rotation_typed record"
    and "address_parse addr = Ok a" "verify_source_address C record a = Ok ()"
    and "map_of (db_agents db) a = Some row" "map_of (db_rotations db) a = None"
    and "read_agent_record J (ag_record row) = Ok agent"
    and "rotation_verify C record (ar_successor_hash agent) (ar_seq agent) now = Ok t"
    and "uint (rr_seq record) < 2 ^ 63" "uint (rr_grace_until record) < 2 ^ 63" "0 < uint now" "uint now < 2 ^ 63"
  shows "\<exists>db' row'. put_rotation_record C parse J db addr record now cap = Ok (db', True)
    \<and> map_of (db_rotations db') a = Some row' \<and> ro_record row' = to_vec J (rotation_to_json record)"
  by (rule put_rotation_fresh [OF reachable_inv [OF assms(1,2)] assms(2-13)])

text \<open>Reading never fails and never reorders: a fetch returns the recipient's stored mail after the cursor, oldest first,
  at most the limit, each item a publicly valid envelope for that recipient; and the page after the last
  item returned continues exactly where this one ends.\<close>

theorem fetch_pages:
  assumes "reachable C parse J cap db" "loft_contract C J cap" "uint cursor < 2 ^ 63" "limit < 2 ^ 63"
  shows "\<exists>es. fetch J db k cursor limit = Ok es \<and> length es = min limit (length (mail_after db k cursor))
    \<and> sorted_wrt (<) (map se_cursor es)
    \<and> list_all (\<lambda>e. cursor < se_cursor e \<and> w_recipient (se_wrap e) = k \<and> verify_public C (se_wrap e) = Ok ()) es
    \<and> (es \<noteq> [] \<longrightarrow> mail_after db k (se_cursor (last es)) = drop (length es) (mail_after db k cursor))"
  by (rule fetch_page [OF reachable_inv [OF assms(1,2)] assms(3,4)])

text \<open>C20. A retention sweep ends and is exact: it removes every expired event and no other, in batches of any size, keeps the
  store consistent, and reports how many rows it removed.\<close>

theorem retention_sweep_exact:
  assumes "reachable C parse J cap db" "loft_contract C J cap" "uint now < 2 ^ 63" "0 < batch" "batch < 2 ^ 63"
  shows "\<exists>db'. sweep_once db False now batch = (db', Ok (length (filter (\<lambda>e. ev_expires_at e \<le> uint now) (db_events db))))
    \<and> db_events db' = filter (\<lambda>e. uint now < ev_expires_at e) (db_events db) \<and> validate_loft_invariants C J db' = Ok ()"
proof -
  have inv: "loft_inv C parse J cap db" by (rule reachable_inv [OF assms(1,2)])
  have cap: "uint cap < 2 ^ 63" using assms(2) by (simp add: loft_contract_def)
  have "unat (word_of_nat batch :: u64) = batch" using assms(5) by (intro unat_u64) simp
  then obtain i where i: "to_i64 (word_of_nat batch) = Ok i" using assms(5) by (simp add: to_i64_def)
  have "length (db_events db) < 2 ^ 64" using events_count_bound [OF inv] by simp
  then have "0 + length (expired_in db now) < 2 ^ 64" by (rule le_less_trans [rotated]) simp
  from sweep_loop_exact [OF cap assms(3,4) i inv this] obtain db' where
    "sweep_loop db now batch 0 = (db', Ok (length (expired_in db now)))" "db_events db' = live_in db now" "loft_inv C parse J cap db'"
    by auto
  then show ?thesis using assms(4) inv_validates by (auto simp: sweep_once_def)
qed

section \<open>Witnesses\<close>

definition example_capacity :: u64 where "example_capacity = 1000000000"

definition example_agent :: agent_record where
  "example_agent = with_policy toy (from_seed (replicate 32 1)) (commitment_for_key toy (replicate 32 2)) 3 [example_origin] 4 None"

abbreviation example_address :: address where
  "example_address \<equiv> address_from_pubkey toy (replicate 32 1)"

abbreviation example_reachable :: "loft_db \<Rightarrow> bool" where
  "example_reachable \<equiv> reachable toy example_parser toy_json example_capacity"

lemma example_loft_contract: "loft_contract toy toy_json example_capacity"
  by (simp add: loft_contract_def example_capacity_def)

lemma example_agent_facts:
  "agent_record_typed example_agent" "is_ok (agent_record_verify toy example_parser example_agent example_address)"
  "ar_version example_agent = AGENT_RECORD_VERSION" "ar_seq example_agent = 3"
  "ar_successor_hash example_agent = commitment_for_key toy (replicate 32 2)"
proof -
  have v: "validate_loft_list example_parser [example_origin] = Ok ()" by code_simp
  then have "lofts_wf [example_origin]" by (rule validate_loft_list_wf)
  then show "agent_record_typed example_agent"
    using signature_contractD [of toy "from_seed (replicate 32 1)"]
    by (simp add: agent_record_typed_def example_agent_def with_policy_def Let_def requirement_field_wf_def commitment_for_key_def sha256_length)
  show "is_ok (agent_record_verify toy example_parser example_agent example_address)"
    using with_policy_verifies [of toy "from_seed (replicate 32 1)" example_parser "[example_origin]" None] v
    by (simp add: example_agent_def)
qed (simp_all add: example_agent_def with_policy_def Let_def)

lemma reachable_step: "reachable C parse J cap db \<Longrightarrow> loft_step C parse J cap db db' \<Longrightarrow> reachable C parse J cap db'"
  unfolding reachable_def by (rule rtranclp.rtrancl_into_rtrancl)

lemma reachable_empty: "reachable C parse J cap empty_db"
  unfolding reachable_def by simp

lemma example_loft:
  "\<exists>db row. example_reachable db \<and> map_of (db_agents db) example_address = Some row
    \<and> read_agent_record toy_json (ag_record row) = Ok example_agent \<and> map_of (db_rotations db) example_address = None"
proof -
  have "json_size (agent_record_to_json example_agent) \<le> 5000" by code_simp
  then have "length (agent_blob toy_json example_agent) \<le> 5000"
    using toy_json_contract agent_record_json_wf [OF example_agent_facts(1)] by (auto simp: json_contract_def intro: order_trans)
  then have "\<exists>db' row. put_agent_record toy example_parser toy_json empty_db example_address example_agent example_capacity 1 = Ok db'
    \<and> db_agents db' = AList.update example_address row (db_agents empty_db) \<and> ag_record row = agent_blob toy_json example_agent
    \<and> db_rotations db' = db_rotations empty_db"
    using example_agent_facts address_parse_derived [of toy "replicate 32 1"] address_length [of toy "replicate 32 1"]
    by (intro put_agent_record_fresh) (simp_all add: example_capacity_def counters_ok_def empty_db_def)
  then obtain db row where db: "put_agent_record toy example_parser toy_json empty_db example_address example_agent example_capacity 1 = Ok db"
    "db_agents db = [(example_address, row)]" "ag_record row = agent_blob toy_json example_agent" "db_rotations db = []"
    by (auto simp: empty_db_def)
  have "example_reachable db"
    by (rule reachable_step [OF reachable_empty step_agent [OF example_agent_facts(1) db(1)]])
  moreover have "read_agent_record toy_json (ag_record row) = Ok example_agent"
    using db(3) read_agent_blob [OF toy_json_contract example_agent_facts(1)] by simp
  ultimately show ?thesis using db by (intro exI [of _ db] exI [of _ row]) simp
qed

lemma example_rotation_ready:
  "\<exists>r t. rotation_typed r \<and> verify_source_address toy r example_address = Ok () \<and> rr_seq r = 4 \<and> rr_grace_until r = 7777000
    \<and> rotation_verify toy r (ar_successor_hash example_agent) (ar_seq example_agent) 900 = Ok t"
proof -
  have "checked_add (1000 :: u64) ROTATION_GRACE_SECS = Some 7777000"
    by (simp add: checked_add_Some ROTATION_GRACE_SECS_def)
  then obtain r where r: "example_rotation = Ok r" "rr_from_pubkey r = replicate 32 1" "rr_seq r = 4" "rr_grace_until r = 7777000" "rotation_typed r"
    using signature_contractD [of toy "from_seed (replicate 32 1)"] signature_contractD [of toy "from_seed (replicate 32 2)"]
    by (simp add: example_rotation_def rotation_new_def Let_def rotation_typed_def)
  then have "verify_source_address toy r example_address = Ok ()"
    using signature_contractD [of toy "from_seed (replicate 32 1)"] by (simp add: verify_source_address_def address_matches_def)
  moreover have "\<exists>t. rotation_verify toy r (commitment_for_key toy (replicate 32 2)) 3 900 = Ok t"
    using rotation_new_verifies [OF _ _ _ r(1) [unfolded example_rotation_def], of 3 900] by simp
  ultimately show ?thesis using r example_agent_facts(4,5) by auto
qed

text \<open>A wrap without attribution takes at most 2100000 bytes as JSON.\<close>

lemma wrap_blob_length:
  assumes "json_contract J" "wrap_wf w" "wrap_to_json w = Some j" "w_version w = ENVELOPE_VERSION" "w_attribution w = None"
  shows "length (to_vec J j) \<le> 2100000"
proof -
  have wf: "json_wf j" "length (w_ciphertext w) \<le> MAX_ENVELOPE_CIPHERTEXT" by (rule wrap_json_wf [OF assms(2-4)])+
  have "json_size j \<le> 2100000"
    using assms(2-5) wf(2)
    by (auto simp: wrap_to_json_def wrap_wf_def envelope_consts bind_eq_Some_conv compact_serialize_Some length_to_hex)
  then show ?thesis using assms(1) wf(1) by (auto simp: json_contract_def intro: order_trans)
qed

text \<open>What a loft does with a freshly wrapped message to a recipient that has published no policy.\<close>

lemma delivered_by_loft:
  assumes inv: "loft_inv C parse J cap db" and "loft_contract C J cap"
    and c: "signature_contract C" "agreement_contract C" "aead_contract C" "json_contract J"
      "length (seed sender) = 32" "length (seed R) = 32" "entropy_wf E" and b: "length body \<le> MAX_PLAINTEXT"
    and room: "case counters db of (e, c, r) \<Rightarrow> e + c + r + 2100256 \<le> uint cap" "db_last_cursor db < 2 ^ 63 - 1"
    and fresh: "map_of (db_policies db) (verifying_key C R) = None"
      "\<And>w. wrap_message C J E sender (verifying_key C R) body now = Ok w \<Longrightarrow> wrap_id C w \<notin> set (map ev_id (db_events db))"
    and t: "uint stored_at < 2 ^ 63" "uint expires_at < 2 ^ 63"
  shows "\<exists>w row. wrap_message C J E sender (verifying_key C R) body now = Ok w \<and> wrap_wf w
    \<and> admit C J db w (wrap_id C w) stored_at expires_at cap None = Ok (add_event db row, True)
    \<and> ev_cursor row = db_last_cursor db + 1 \<and> ev_recipient row = verifying_key C R \<and> ev_expires_at row = uint expires_at
    \<and> Option.bind (from_slice J (ev_blob row)) wrap_from_json = Some w
    \<and> open_wrap C J R w = Ok (verifying_key C sender, body)"
proof -
  obtain w where w: "wrap_message C J E sender (verifying_key C R) body now = Ok w" "verify_public C w = Ok ()"
      "open_wrap C J R w = Ok (verifying_key C sender, body)"
    using delivered [OF c, of body now] b by auto
  then have wi: "wrap_inner C J E sender (verifying_key C R) body now None = Ok w" by (simp add: wrap_message_def)
  have wf: "wrap_wf w" "length (w_ciphertext w) \<le> MAX_ENVELOPE_CIPHERTEXT" using wrap_inner_bounds [OF c wi] by auto
  have w': "w_attribution w = None" "w_recipient w = verifying_key C R" using wrap_inner_Ok [OF wi] by auto
  note v = verify_public_version [OF w(2)]
  obtain j where j: "wrap_to_json w = Some j" using wrap_json_round_trip [OF wf] by auto
  have n: "length (to_vec J j) \<le> 2100000" by (rule wrap_blob_length [OF c(4) wf(1) j v w'(1)])
  have ctr: "counters_ok db" using inv by (auto simp: loft_inv_def within_def counters_ok_def split: prod.splits)
  have "admit C J db w (wrap_id C w) stored_at expires_at cap None =
    Ok (add_event db \<lparr>ev_cursor = db_last_cursor db + 1, ev_id = wrap_id C w, ev_recipient = w_recipient w, ev_stored_at = uint stored_at,
      ev_expires_at = uint expires_at, ev_size = int (length (to_vec J j)) + 256, ev_blob = to_vec J j\<rparr>, True)"
    using n room assms(2) fresh(1) w'(2)
    by (intro admit_fresh [OF w(2) j fresh(2) [OF w(1)] _ ctr _ room(2) t]) (auto simp: expected_seq_def loft_contract_def split: prod.splits)
  moreover note wrap_blob_read [OF c(4) wf(1) j v]
  ultimately show ?thesis using w wf(1) w'(2) by auto
qed

lemma example_mailbox:
  "\<exists>db row. example_reachable db \<and> db_events db = [row] \<and> ev_recipient row = verifying_key toy example_recipient
    \<and> ev_cursor row = 1 \<and> ev_expires_at row = 200 \<and> loft_step toy example_parser toy_json example_capacity empty_db db"
proof -
  have "\<exists>w row. wrap_message toy toy_json example_entropy example_sender (verifying_key toy example_recipient) ''hello'' 1700000000 = Ok w \<and> wrap_wf w
    \<and> admit toy toy_json empty_db w (wrap_id toy w) 100 200 example_capacity None = Ok (add_event empty_db row, True)
    \<and> ev_cursor row = db_last_cursor empty_db + 1 \<and> ev_recipient row = verifying_key toy example_recipient \<and> ev_expires_at row = uint (200 :: u64)
    \<and> Option.bind (from_slice toy_json (ev_blob row)) wrap_from_json = Some w
    \<and> open_wrap toy toy_json example_recipient w = Ok (verifying_key toy example_sender, ''hello'')"
    by (rule delivered_by_loft [OF reachable_inv [OF reachable_empty example_loft_contract] example_loft_contract example_contracts])
      (simp_all add: envelope_consts empty_db_def example_capacity_def)
  then obtain w row where w: "wrap_wf w" "admit toy toy_json empty_db w (wrap_id toy w) 100 200 example_capacity None = Ok (add_event empty_db row, True)"
    "ev_cursor row = 1" "ev_recipient row = verifying_key toy example_recipient" "ev_expires_at row = 200" by (auto simp: empty_db_def)
  have "example_reachable (add_event empty_db row)"
    by (rule reachable_step [OF reachable_empty step_admit [OF w(1,2)]])
  then show ?thesis using w step_admit [OF w(1,2)] by (intro exI [of _ "add_event empty_db row"] exI [of _ row]) (simp add: empty_db_def)
qed

lemma example_rotated:
  "\<exists>db0 arow db row. example_reachable db0 \<and> map_of (db_agents db0) example_address = Some arow
    \<and> loft_step toy example_parser toy_json example_capacity db0 db
    \<and> example_reachable db \<and> map_of (db_rotations db) example_address = Some row"
proof -
  obtain db row where db: "example_reachable db" "map_of (db_agents db) example_address = Some row"
    "read_agent_record toy_json (ag_record row) = Ok example_agent" "map_of (db_rotations db) example_address = None"
    using example_loft by blast
  obtain r t where r: "rotation_typed r" "verify_source_address toy r example_address = Ok ()" "rr_seq r = 4" "rr_grace_until r = 7777000"
    "rotation_verify toy r (ar_successor_hash example_agent) (ar_seq example_agent) 900 = Ok t"
    using example_rotation_ready by blast
  have "\<exists>db' row'. put_rotation_record toy example_parser toy_json db example_address r 900 example_capacity = Ok (db', True)
    \<and> map_of (db_rotations db') example_address = Some row' \<and> ro_record row' = rotation_blob toy_json r"
    by (rule put_rotation_fresh [OF reachable_inv [OF db(1) example_loft_contract] example_loft_contract r(1) address_parse_derived r(2) db(2,4,3) r(5)])
      (simp_all add: r(3,4))
  then show ?thesis using db(1,2) step_rotation [OF r(1)] reachable_step [OF db(1) step_rotation [OF r(1)]] by blast
qed

theorem store_always_validates_witness:
  "\<exists>db. example_reachable db \<and> db_rotations db \<noteq> [] \<and> validate_loft_invariants toy toy_json db = Ok ()"
proof -
  obtain db row where db: "example_reachable db" "map_of (db_rotations db) example_address = Some row" using example_rotated by blast
  then show ?thesis using store_always_validates [OF db(1) example_loft_contract] by (intro exI [of _ db]) auto
qed

theorem sequences_only_grow_witness:
  "(\<exists>db db' row row'. example_reachable db \<and> db_rotations db' \<noteq> [] \<and> loft_step toy example_parser toy_json example_capacity db db'
      \<and> map_of (db_agents db) example_address = Some row \<and> map_of (db_agents db') example_address = Some row'
      \<and> (ag_record row' = ag_record row \<and> ag_seq row' = ag_seq row \<or> ag_seq row < ag_seq row')
      \<and> successor_of toy_json row' = successor_of toy_json row)
    \<and> (\<exists>db e. example_reachable db \<and> db_events db = [e] \<and> db_last_cursor empty_db < ev_cursor e)"
proof
  obtain db db' row r where db: "example_reachable db" "map_of (db_agents db) example_address = Some row"
    "loft_step toy example_parser toy_json example_capacity db db'" "map_of (db_rotations db') example_address = Some r"
    using example_rotated by blast
  have "db_rotations db' \<noteq> []" using db(4) by auto
  with sequences_only_grow [OF db(1) r_into_rtranclp [of "loft_step toy example_parser toy_json example_capacity", OF db(3)] example_loft_contract] db
  show "\<exists>db db' row row'. example_reachable db \<and> db_rotations db' \<noteq> [] \<and> loft_step toy example_parser toy_json example_capacity db db'
      \<and> map_of (db_agents db) example_address = Some row \<and> map_of (db_agents db') example_address = Some row'
      \<and> (ag_record row' = ag_record row \<and> ag_seq row' = ag_seq row \<or> ag_seq row < ag_seq row')
      \<and> successor_of toy_json row' = successor_of toy_json row" by blast
next
  obtain db e where db: "example_reachable db" "db_events db = [e]" "loft_step toy example_parser toy_json example_capacity empty_db db"
    using example_mailbox by blast
  have "e \<in> set (db_events empty_db) \<or> db_last_cursor empty_db < ev_cursor e"
    using sequences_only_grow [OF reachable_empty r_into_rtranclp [of "loft_step toy example_parser toy_json example_capacity", OF db(3)]
      example_loft_contract] db(2) by simp
  then show "\<exists>db e. example_reachable db \<and> db_events db = [e] \<and> db_last_cursor empty_db < ev_cursor e"
    using db by (auto simp: empty_db_def)
qed

theorem published_rotation_final_witness:
  "\<exists>db rotation. example_reachable db \<and> store_rotation_record toy example_parser toy_json db example_address = Ok (Some rotation)"
proof -
  obtain db row where db: "example_reachable db" "map_of (db_rotations db) example_address = Some row" using example_rotated by blast
  from published_rotation_final [OF db(1) example_loft_contract rtranclp.rtrancl_refl db(2)] db(1) show ?thesis by blast
qed

theorem rotation_never_stranded_witness:
  "\<exists>db r db'. example_reachable db \<and> put_rotation_record toy example_parser toy_json db example_address r 900 example_capacity = Ok (db', True)"
proof -
  obtain db row where db: "example_reachable db" "map_of (db_agents db) example_address = Some row"
    "read_agent_record toy_json (ag_record row) = Ok example_agent" "map_of (db_rotations db) example_address = None"
    using example_loft by blast
  obtain r t where r: "rotation_typed r" "verify_source_address toy r example_address = Ok ()" "rr_seq r = 4" "rr_grace_until r = 7777000"
    "rotation_verify toy r (ar_successor_hash example_agent) (ar_seq example_agent) 900 = Ok t"
    using example_rotation_ready by blast
  have p: "address_parse example_address = Ok example_address" by (rule address_parse_derived) simp
  from rotation_never_stranded [OF db(1) example_loft_contract r(1) p r(2) db(2,4,3) r(5)] r(3,4) db(1) show ?thesis by auto
qed

theorem fetch_pages_witness:
  "\<exists>db es. example_reachable db \<and> fetch toy_json db (verifying_key toy example_recipient) 0 10 = Ok es \<and> length es = 1"
proof -
  obtain db row where db: "example_reachable db" "db_events db = [row]" "ev_recipient row = verifying_key toy example_recipient" "ev_cursor row = 1"
    using example_mailbox by blast
  then have "length (mail_after db (verifying_key toy example_recipient) 0) = 1" by (simp add: mail_after_def)
  then show ?thesis
    using fetch_pages [OF db(1) example_loft_contract, of 0 10 "verifying_key toy example_recipient"] db(1) by auto
qed

theorem retention_sweep_exact_witness:
  "\<exists>db db'. example_reachable db \<and> sweep_once db False 300 10 = (db', Ok 1) \<and> db_events db' = []"
proof -
  obtain db row where db: "example_reachable db" "db_events db = [row]" "ev_expires_at row = 200"
    using example_mailbox by blast
  then show ?thesis using retention_sweep_exact [OF db(1) example_loft_contract, of 300 10] by auto
qed

end
