(* ===== verification/Limiter.thy ===== *)
theory Limiter
  imports Loft_Error "HOL-Library.AList"
begin

text \<open>
  \<^verbatim>\<open>pigeonpost-loft/src/limiter.rs\<close>: the in-memory admission budgets of a loft. A bucket counts the requests and bytes of one
  fixed window; keyed buckets are a hash map of bounded size (an association list with distinct keys),
  and the controller holds the global, per-source and per-recipient budgets and the request permits. An
  \<^verbatim>\<open>Instant\<close> is a number of nanoseconds of the monotonic clock and an argument of every operation that reads
  the clock; \<^verbatim>\<open>duration_since\<close> is truncated at zero, as subtraction on \<^typ>\<open>nat\<close>. An operation returns
  the new state with its result, since a refused charge may still have opened a new window.
\<close>

type_synonym instant = nat

definition WINDOW :: nat where "WINDOW = 60 * 10 ^ 9"

record limits =
  lm_requests :: u32
  lm_bytes :: u64

record bucket =
  bk_requests :: u32
  bk_bytes :: u64
  bk_window_start :: instant

section \<open>One bucket\<close>

definition bucket_fresh :: "instant \<Rightarrow> bucket" where
  "bucket_fresh now = \<lparr>bk_requests = 0, bk_bytes = 0, bk_window_start = now\<rparr>"

definition bucket_roll :: "bucket \<Rightarrow> instant \<Rightarrow> bucket" where
  "bucket_roll b now = (if WINDOW \<le> now - bk_window_start b then bucket_fresh now else b)"

definition bucket_charge :: "bucket \<Rightarrow> instant \<Rightarrow> u64 \<Rightarrow> limits \<Rightarrow> bucket \<times> (loft_error + unit)" where
  "bucket_charge b0 now bytes limits = (
     let b = bucket_roll b0 now;
         next_requests = saturating_add (bk_requests b) 1;
         next_bytes = saturating_add (bk_bytes b) bytes
     in if lm_requests limits \<noteq> 0 \<and> lm_requests limits < next_requests \<or> lm_bytes limits \<noteq> 0 \<and> lm_bytes limits < next_bytes
        then (b, Err RateLimited)
        else (b\<lparr>bk_requests := next_requests, bk_bytes := next_bytes\<rparr>, Ok ()))"

definition bucket_charge_bytes :: "bucket \<Rightarrow> instant \<Rightarrow> u64 \<Rightarrow> u64 \<Rightarrow> bucket \<times> (loft_error + unit)" where
  "bucket_charge_bytes b0 now bytes limit = (
     let b = bucket_roll b0 now;
         next_bytes = saturating_add (bk_bytes b) bytes
     in if limit \<noteq> 0 \<and> limit < next_bytes then (b, Err RateLimited) else (b\<lparr>bk_bytes := next_bytes\<rparr>, Ok ()))"

section \<open>Keyed buckets\<close>

record 'k keyed_buckets =
  kb_buckets :: "('k \<times> bucket) list"
  kb_next_cleanup_at :: "instant option"
  kb_max_keys :: nat

definition keyed_new :: "nat \<Rightarrow> 'k keyed_buckets" where
  "keyed_new max_keys = \<lparr>kb_buckets = [], kb_next_cleanup_at = None, kb_max_keys = max_keys\<rparr>"

abbreviation contains_key :: "('k \<times> 'v) list \<Rightarrow> 'k \<Rightarrow> bool" where
  "contains_key m k \<equiv> map_of m k \<noteq> None"

definition make_room :: "'k keyed_buckets \<Rightarrow> 'k \<Rightarrow> instant \<Rightarrow> 'k keyed_buckets \<times> (loft_error + unit)" where
  "make_room s key now = (
     if contains_key (kb_buckets s) key \<or> length (kb_buckets s) < kb_max_keys s then (s, Ok ())
     else let s' = (if (case kb_next_cleanup_at s of None \<Rightarrow> False | Some deadline \<Rightarrow> deadline \<le> now)
                    then let kept = filter (\<lambda>(_, b). now - bk_window_start b < WINDOW) (kb_buckets s)
                         in s\<lparr>kb_buckets := kept, kb_next_cleanup_at := (if kept \<noteq> [] then Some (now + WINDOW) else None)\<rparr>
                    else s)
          in (s', if kb_max_keys s' \<le> length (kb_buckets s') then Err RateLimited else Ok ()))"

definition note_insert :: "'k keyed_buckets \<Rightarrow> instant \<Rightarrow> 'k keyed_buckets" where
  "note_insert s now =
     s\<lparr>kb_next_cleanup_at := Some (case kb_next_cleanup_at s of None \<Rightarrow> now + WINDOW | Some earliest \<Rightarrow> min earliest (now + WINDOW))\<rparr>"

text \<open>The body \<^verbatim>\<open>charge\<close> and \<^verbatim>\<open>charge_bytes\<close> share: make room, note an insertion, and charge the entry of the key.\<close>

definition charge_entry ::
  "'k keyed_buckets \<Rightarrow> 'k \<Rightarrow> instant \<Rightarrow> (bucket \<Rightarrow> bucket \<times> (loft_error + unit)) \<Rightarrow> 'k keyed_buckets \<times> (loft_error + unit)" where
  "charge_entry s key now f = (
     let inserting = \<not> contains_key (kb_buckets s) key in
     case make_room s key now of
       (s', Inl e) \<Rightarrow> (s', Inl e)
     | (s', Inr _) \<Rightarrow>
         let s'' = (if inserting then note_insert s' now else s');
             entry = (case map_of (kb_buckets s'') key of Some b \<Rightarrow> b | None \<Rightarrow> bucket_fresh now)
         in case f entry of (b, r) \<Rightarrow> (s''\<lparr>kb_buckets := AList.update key b (kb_buckets s'')\<rparr>, r))"

definition keyed_charge ::
  "'k keyed_buckets \<Rightarrow> 'k \<Rightarrow> u64 \<Rightarrow> limits \<Rightarrow> instant \<Rightarrow> 'k keyed_buckets \<times> (loft_error + unit)" where
  "keyed_charge s key bytes limits now = (
     if lm_requests limits = 0 \<and> lm_bytes limits = 0 then (s, Ok ())
     else if kb_max_keys s = 0 then (s, Err RateLimited)
     else charge_entry s key now (\<lambda>b. bucket_charge b now bytes limits))"

definition keyed_charge_bytes ::
  "'k keyed_buckets \<Rightarrow> 'k \<Rightarrow> u64 \<Rightarrow> u64 \<Rightarrow> instant \<Rightarrow> 'k keyed_buckets \<times> (loft_error + unit)" where
  "keyed_charge_bytes s key bytes limit now = (
     if limit = 0 then (s, Ok ())
     else if kb_max_keys s = 0 then (s, Err RateLimited)
     else charge_entry s key now (\<lambda>b. bucket_charge_bytes b now bytes limit))"

section \<open>The admission controller\<close>

record ('s, 'r) admission_controller =
  ac_permits :: nat
  ac_global :: bucket
  ac_global_limits :: limits
  ac_source :: "'s keyed_buckets"
  ac_source_limits :: limits
  ac_recipient :: "'r keyed_buckets"
  ac_recipient_limits :: limits

definition try_enter :: "('s, 'r) admission_controller \<Rightarrow> loft_error + ('s, 'r) admission_controller" where
  "try_enter ac = (if ac_permits ac = 0 then Err Overloaded else Ok (ac\<lparr>ac_permits := ac_permits ac - 1\<rparr>))"

text \<open>Dropping an admission permit returns it to the semaphore.\<close>

definition leave :: "('s, 'r) admission_controller \<Rightarrow> ('s, 'r) admission_controller" where
  "leave ac = ac\<lparr>ac_permits := ac_permits ac + 1\<rparr>"

definition charge_shared ::
  "('s, 'r) admission_controller \<Rightarrow> 's option \<Rightarrow> u64 \<Rightarrow> instant \<Rightarrow> instant \<Rightarrow> ('s, 'r) admission_controller \<times> (loft_error + unit)" where
  "charge_shared ac source bytes now now' = (
     case bucket_charge (ac_global ac) now bytes (ac_global_limits ac) of
       (g, Inl e) \<Rightarrow> (ac\<lparr>ac_global := g\<rparr>, Inl e)
     | (g, Inr _) \<Rightarrow> (case source of
           None \<Rightarrow> (ac\<lparr>ac_global := g\<rparr>, Ok ())
         | Some src \<Rightarrow> (case keyed_charge (ac_source ac) src bytes (ac_source_limits ac) now' of
             (s, r) \<Rightarrow> (ac\<lparr>ac_global := g, ac_source := s\<rparr>, r))))"

definition charge_recipient ::
  "('s, 'r) admission_controller \<Rightarrow> 'r \<Rightarrow> u64 \<Rightarrow> instant \<Rightarrow> ('s, 'r) admission_controller \<times> (loft_error + unit)" where
  "charge_recipient ac recipient bytes now = (
     case keyed_charge (ac_recipient ac) recipient bytes (ac_recipient_limits ac) now of
       (s, r) \<Rightarrow> (ac\<lparr>ac_recipient := s\<rparr>, r))"

definition charge_egress ::
  "('s, 'r) admission_controller \<Rightarrow> 's option \<Rightarrow> 'r \<Rightarrow> u64 \<Rightarrow> instant \<Rightarrow> instant \<Rightarrow> instant \<Rightarrow>
   ('s, 'r) admission_controller \<times> (loft_error + unit)" where
  "charge_egress ac source recipient bytes now now' now'' = (
     case bucket_charge_bytes (ac_global ac) now bytes (lm_bytes (ac_global_limits ac)) of
       (g, Inl e) \<Rightarrow> (ac\<lparr>ac_global := g\<rparr>, Inl e)
     | (g, Inr _) \<Rightarrow>
         let (s, r) = (case source of
               None \<Rightarrow> (ac_source ac, Ok ())
             | Some src \<Rightarrow> keyed_charge_bytes (ac_source ac) src bytes (lm_bytes (ac_source_limits ac)) now');
             ac' = ac\<lparr>ac_global := g, ac_source := s\<rparr>
         in (case r of
               Inl e \<Rightarrow> (ac', Inl e)
             | Inr _ \<Rightarrow> (case keyed_charge_bytes (ac_recipient ac) recipient bytes (lm_bytes (ac_recipient_limits ac)) now'' of
                 (k, r') \<Rightarrow> (ac'\<lparr>ac_recipient := k\<rparr>, r'))))"

section \<open>Runs of charges\<close>

datatype charge_op = Request u64 | Egress u64

definition bucket_op :: "limits \<Rightarrow> bucket \<Rightarrow> instant \<Rightarrow> charge_op \<Rightarrow> bucket \<times> (loft_error + unit)" where
  "bucket_op L b now op = (case op of Request n \<Rightarrow> bucket_charge b now n L | Egress n \<Rightarrow> bucket_charge_bytes b now n (lm_bytes L))"

definition unlimited :: "limits \<Rightarrow> charge_op \<Rightarrow> bool" where
  "unlimited L op \<longleftrightarrow> lm_bytes L = 0 \<and> (case op of Request _ \<Rightarrow> lm_requests L = 0 | Egress _ \<Rightarrow> True)"

fun keyed_op :: "limits \<Rightarrow> 'k keyed_buckets \<Rightarrow> instant \<times> 'k \<times> charge_op \<Rightarrow> 'k keyed_buckets \<times> (loft_error + unit)" where
  "keyed_op L s (now, key, Request n) = keyed_charge s key n L now"
| "keyed_op L s (now, key, Egress n) = keyed_charge_bytes s key n (lm_bytes L) now"

text \<open>The state after a sequence of charges, and the charges that were granted.\<close>

fun keyed_run :: "limits \<Rightarrow> 'k keyed_buckets \<Rightarrow> (instant \<times> 'k \<times> charge_op) list \<Rightarrow>
    'k keyed_buckets \<times> (instant \<times> 'k \<times> charge_op) list" where
  "keyed_run L s [] = (s, [])"
| "keyed_run L s (c # cs) = (
     let (s', r) = keyed_op L s c; (s'', granted) = keyed_run L s' cs
     in (s'', if r = Ok () then c # granted else granted))"

lemma keyed_op_cases:
  "keyed_op L s (now, key, op) = (if unlimited L op then (s, Ok ()) else if kb_max_keys s = 0 then (s, Err RateLimited)
     else charge_entry s key now (\<lambda>b. bucket_op L b now op))"
  by (cases op) (auto simp: keyed_charge_def keyed_charge_bytes_def unlimited_def bucket_op_def)

lemma map_of_filter_value:
  "distinct (map fst m) \<Longrightarrow> map_of (filter (\<lambda>(_, v). P v) m) k = (case map_of m k of Some v \<Rightarrow> if P v then Some v else None | None \<Rightarrow> None)"
proof (induction m)
  case (Cons x m)
  then show ?case by (cases x) (auto simp: map_of_eq_None_iff split: option.splits)
qed simp

lemma update_length:
  "length (AList.update k v m) = length m + (if k \<in> fst ` set m then 0 else 1)"
  by (induction m) auto

lemma keyed_filter_distinct: "distinct (map fst m) \<Longrightarrow> distinct (map fst (filter P m))"
  by (induction m) auto

definition keyed_ok :: "'k keyed_buckets \<Rightarrow> bool" where
  "keyed_ok s \<longleftrightarrow> distinct (map fst (kb_buckets s)) \<and> length (kb_buckets s) \<le> kb_max_keys s"

definition evicted :: "instant \<Rightarrow> bucket option \<Rightarrow> bucket option \<Rightarrow> bool" where
  "evicted now x y \<longleftrightarrow> x = y \<or> y = None \<and> (\<exists>b. x = Some b \<and> WINDOW \<le> now - bk_window_start b)"

lemma make_room_spec:
  assumes "keyed_ok s" "make_room s key now = (s', r)"
  shows "keyed_ok s'" "kb_max_keys s' = kb_max_keys s" "evicted now (map_of (kb_buckets s) k) (map_of (kb_buckets s') k)"
    and "contains_key (kb_buckets s) key \<Longrightarrow> kb_buckets s' = kb_buckets s \<and> r = Ok ()"
    and "r = Ok () \<Longrightarrow> \<not> contains_key (kb_buckets s) key \<Longrightarrow> length (kb_buckets s') < kb_max_keys s \<and> \<not> contains_key (kb_buckets s') key"
proof -
  have kept: "length (filter (\<lambda>(_, b). now - bk_window_start b < WINDOW) (kb_buckets s)) \<le> kb_max_keys s"
    using assms(1) by (auto simp: keyed_ok_def intro: order_trans [OF length_filter_le])
  show "keyed_ok s'" "kb_max_keys s' = kb_max_keys s"
    using assms kept
    by (auto simp: make_room_def keyed_ok_def Let_def keyed_filter_distinct split: if_splits option.splits)
  have bk: "kb_buckets s' = kb_buckets s \<or> kb_buckets s' = filter (\<lambda>(_, b). now - bk_window_start b < WINDOW) (kb_buckets s)"
    using assms(2) by (auto simp: make_room_def Let_def split: if_splits)
  have look: "map_of (filter (\<lambda>(_, b). now - bk_window_start b < WINDOW) (kb_buckets s)) j =
      (case map_of (kb_buckets s) j of Some b \<Rightarrow> if now - bk_window_start b < WINDOW then Some b else None | None \<Rightarrow> None)" for j
    using assms(1) by (intro map_of_filter_value) (simp add: keyed_ok_def)
  show "evicted now (map_of (kb_buckets s) k) (map_of (kb_buckets s') k)"
    using bk look [of k] by (elim disjE) (simp_all add: evicted_def split: option.splits)
  show "contains_key (kb_buckets s) key \<Longrightarrow> kb_buckets s' = kb_buckets s \<and> r = Ok ()"
    using assms(2) by (auto simp: make_room_def)
  assume r: "r = Ok ()" and new: "\<not> contains_key (kb_buckets s) key"
  have "length (kb_buckets s') < kb_max_keys s" using assms(2) r new by (simp add: make_room_def Let_def split: if_splits) auto
  moreover have "map_of (kb_buckets s') key = None" using bk look [of key] new by (elim disjE) simp_all
  ultimately show "length (kb_buckets s') < kb_max_keys s \<and> \<not> contains_key (kb_buckets s') key" by simp
qed

lemma note_insert_simps [simp]:
  "kb_buckets (note_insert s now) = kb_buckets s" "kb_max_keys (note_insert s now) = kb_max_keys s"
  by (simp_all add: note_insert_def)

text \<open>A charge changes no other key's bucket but to drop one whose window is over, and its own only as the bucket rule says.\<close>

lemma charge_entry_spec:
  assumes "keyed_ok s" "charge_entry s key now f = (s', r)"
  shows "keyed_ok s'" "kb_max_keys s' = kb_max_keys s"
    and "k \<noteq> key \<Longrightarrow> evicted now (map_of (kb_buckets s) k) (map_of (kb_buckets s') k)"
    and "r \<noteq> Ok () \<and> map_of (kb_buckets s) key = None \<and> map_of (kb_buckets s') key = None
      \<or> (\<exists>b. map_of (kb_buckets s') key = Some b
          \<and> f (case map_of (kb_buckets s) key of Some b0 \<Rightarrow> b0 | None \<Rightarrow> bucket_fresh now) = (b, r))"
proof -
  obtain s1 r1 where mr: "make_room s key now = (s1, r1)" by force
  note m = make_room_spec [OF assms(1) mr]
  consider (full) e where "r1 = Inl e" | (room) "r1 = Ok ()" by (cases r1) auto
  then have "keyed_ok s' \<and> kb_max_keys s' = kb_max_keys s \<and> (k \<noteq> key \<longrightarrow> evicted now (map_of (kb_buckets s) k) (map_of (kb_buckets s') k))
    \<and> (r \<noteq> Ok () \<and> map_of (kb_buckets s) key = None \<and> map_of (kb_buckets s') key = None
      \<or> (\<exists>b. map_of (kb_buckets s') key = Some b
          \<and> f (case map_of (kb_buckets s) key of Some b0 \<Rightarrow> b0 | None \<Rightarrow> bucket_fresh now) = (b, r)))"
  proof cases
    case full
    have "map_of (kb_buckets s) key = None" using m(4) full by (cases "map_of (kb_buckets s) key") auto
    moreover have "map_of (kb_buckets s1) key = None"
      using make_room_spec(3) [OF assms(1) mr, of key] \<open>map_of (kb_buckets s) key = None\<close> by (auto simp: evicted_def)
    ultimately show ?thesis using assms(2) m(1,2,3) full by (auto simp: charge_entry_def mr)
  next
    case room
    define ex where "ex = (case map_of (kb_buckets s) key of Some b0 \<Rightarrow> b0 | None \<Rightarrow> bucket_fresh now)"
    obtain b r2 where fb: "f ex = (b, r2)" by force
    have same: "map_of (kb_buckets s1) key = map_of (kb_buckets s) key"
      using m(4) m(5) [OF room] by (cases "map_of (kb_buckets s) key") auto
    have s': "kb_buckets s' = AList.update key b (kb_buckets s1)" "kb_max_keys s' = kb_max_keys s1" "r = r2"
      using assms(2) room same fb by (cases "map_of (kb_buckets s) key"; simp add: charge_entry_def mr Let_def ex_def; auto)+
    have "length (kb_buckets s') \<le> kb_max_keys s'"
    proof (cases "contains_key (kb_buckets s) key")
      case True
      then have "key \<in> fst ` set (kb_buckets s1)" using same by (metis map_of_eq_None_iff)
      then show ?thesis using m(1) s' by (simp add: keyed_ok_def update_length)
    next
      case False
      then show ?thesis using m(2) m(5) [OF room False] s' update_length [of key b "kb_buckets s1"] by (auto split: if_splits)
    qed
    moreover have "distinct (map fst (kb_buckets s'))" using m(1) s'(1) by (simp add: keyed_ok_def distinct_update)
    moreover have "map_of (kb_buckets s') k' = (if k' = key then Some b else map_of (kb_buckets s1) k')" for k'
      by (simp add: s'(1) update_conv')
    ultimately show ?thesis using m(2,3) s' fb by (simp add: keyed_ok_def ex_def)
  qed
  then show "keyed_ok s'" "kb_max_keys s' = kb_max_keys s"
    and "k \<noteq> key \<Longrightarrow> evicted now (map_of (kb_buckets s) k) (map_of (kb_buckets s') k)"
    and "r \<noteq> Ok () \<and> map_of (kb_buckets s) key = None \<and> map_of (kb_buckets s') key = None
      \<or> (\<exists>b. map_of (kb_buckets s') key = Some b
          \<and> f (case map_of (kb_buckets s) key of Some b0 \<Rightarrow> b0 | None \<Rightarrow> bucket_fresh now) = (b, r))"
    by blast+
qed

section \<open>Budgets over a sliding window\<close>

text \<open>
  A measure of a bucket, either its requests or its bytes, with the weight a charge adds to it and a limit that every granted
  charge respects. In any sixty seconds a key is granted at most twice the limit: the interval meets at
  most two of the key's windows, and dropping a bucket never opens a window early.
\<close>

definition spent_in :: "(charge_op \<Rightarrow> nat) \<Rightarrow> 'k \<Rightarrow> instant \<Rightarrow> (instant \<times> 'k \<times> charge_op) list \<Rightarrow> nat" where
  "spent_in weight k t granted =
     sum_list (map (\<lambda>(now, k', op). if k' = k \<and> t \<le> now \<and> now < t + WINDOW then weight op else 0) granted)"

locale window_budget =
  fixes L :: limits and used :: "bucket \<Rightarrow> nat" and weight :: "charge_op \<Rightarrow> nat" and limit :: nat
  assumes used_fresh: "used (bucket_fresh now) = 0"
    and uncharged: "unlimited L op \<Longrightarrow> weight op = 0"
    and charged: "bucket_op L b now op = (b', r) \<Longrightarrow> used (bucket_roll b now) \<le> limit \<Longrightarrow>
      bk_window_start b' = bk_window_start (bucket_roll b now)
      \<and> used b' = used (bucket_roll b now) + (if r = Ok () then weight op else 0) \<and> used b' \<le> limit"
begin

definition balance :: "instant \<Rightarrow> instant \<Rightarrow> nat \<Rightarrow> bucket option \<Rightarrow> bool" where
  "balance t now n x \<longleftrightarrow> (now < t \<longrightarrow> n = 0) \<and> (case x of
       None \<Rightarrow> n \<le> (if now < t + WINDOW then limit else 2 * limit)
     | Some b \<Rightarrow> used b \<le> limit \<and> bk_window_start b \<le> now
         \<and> n \<le> (if bk_window_start b < t then used b else if bk_window_start b < t + WINDOW then limit + used b else 2 * limit))"

lemma balance_later: "balance t now n x \<Longrightarrow> now \<le> now' \<Longrightarrow> balance t now' n x"
  by (auto simp: balance_def split: option.splits if_splits)

lemma balance_bound: "balance t now n x \<Longrightarrow> n \<le> 2 * limit"
  by (auto simp: balance_def split: option.splits if_splits)

lemma balance_evicted: "balance t now n x \<Longrightarrow> evicted now x y \<Longrightarrow> balance t now n y"
  by (auto simp: balance_def evicted_def split: option.splits if_splits)

lemma balance_fresh: "balance t now n None \<Longrightarrow> balance t now n (Some (bucket_fresh now))"
  by (auto simp: balance_def used_fresh bucket_fresh_def [of now] split: if_splits) (simp_all add: used_fresh [unfolded bucket_fresh_def])

lemma balance_roll: "balance t now n (Some b) \<Longrightarrow> balance t now n (Some (bucket_roll b now))"
  using balance_fresh [of t now n] balance_evicted [of t now n "Some b" None] by (simp add: bucket_roll_def evicted_def)

lemma balance_charged:
  assumes "balance t now n (Some b)" "bucket_op L b now op = (b', r)"
  shows "balance t now (n + (if r = Ok () \<and> t \<le> now \<and> now < t + WINDOW then weight op else 0)) (Some b')"
proof -
  have b: "balance t now n (Some (bucket_roll b now))" by (rule balance_roll [OF assms(1)])
  then have "used (bucket_roll b now) \<le> limit" by (simp add: balance_def)
  from charged [OF assms(2) this] b show ?thesis by (auto simp: balance_def split: if_splits)
qed

lemma balance_op:
  assumes ok: "keyed_ok s" and "keyed_op L s (now, key, op) = (s', r)" and bal: "balance t now n (map_of (kb_buckets s) k)"
  shows "keyed_ok s'" "balance t now (n + (if r = Ok () then spent_in weight k t [(now, key, op)] else 0)) (map_of (kb_buckets s') k)"
proof -
  consider (free) "unlimited L op" "s' = s" | (none) "s' = s" "r = Err RateLimited"
    | (entry) "charge_entry s key now (\<lambda>b. bucket_op L b now op) = (s', r)"
    using assms(2) by (cases "unlimited L op"; cases "kb_max_keys s = 0") (simp_all add: keyed_op_cases)
  then have "keyed_ok s' \<and> balance t now (n + (if r = Ok () then spent_in weight k t [(now, key, op)] else 0)) (map_of (kb_buckets s') k)"
  proof cases
    case free
    then show ?thesis using ok bal uncharged by (simp add: spent_in_def)
  next
    case none
    then show ?thesis using ok bal by simp
  next
    case entry
    note e = charge_entry_spec [OF ok entry]
    show ?thesis
    proof (cases "k = key")
      case False
      then show ?thesis using e(1) balance_evicted [OF bal e(3)] by (simp add: spent_in_def)
    next
      case True
      have fr: "balance t now n (Some (case map_of (kb_buckets s) key of Some b0 \<Rightarrow> b0 | None \<Rightarrow> bucket_fresh now))"
        using bal True balance_fresh [of t now n] by (cases "map_of (kb_buckets s) key") simp_all
      from e(4) consider (refused) "r \<noteq> Ok ()" "map_of (kb_buckets s) key = None" "map_of (kb_buckets s') key = None"
        | (charged) b where "map_of (kb_buckets s') key = Some b"
            "bucket_op L (case map_of (kb_buckets s) key of Some b0 \<Rightarrow> b0 | None \<Rightarrow> bucket_fresh now) now op = (b, r)"
        by (elim disjE exE conjE) assumption+
      then show ?thesis
      proof cases
        case refused
        then show ?thesis using bal True e(1) by simp
      next
        case charged
        then show ?thesis using e(1) balance_charged [OF fr charged(2)] True by (cases "r = Ok ()") (simp_all add: spent_in_def)
      qed
    qed
  qed
  then show "keyed_ok s'" "balance t now (n + (if r = Ok () then spent_in weight k t [(now, key, op)] else 0)) (map_of (kb_buckets s') k)"
    by blast+
qed

lemma spent_bounded:
  "keyed_run L s cs = (s', gs) \<Longrightarrow> sorted (now # map fst cs) \<Longrightarrow> keyed_ok s \<Longrightarrow> balance t now n (map_of (kb_buckets s) k)
    \<Longrightarrow> n + spent_in weight k t gs \<le> 2 * limit"
proof (induction cs arbitrary: s s' gs now n)
  case Nil
  then show ?case using balance_bound by (simp add: spent_in_def)
next
  case (Cons c cs)
  obtain at key op where c: "c = (at, key, op)" by (cases c)
  obtain s1 r gs1 where s1: "keyed_op L s c = (s1, r)" and rest: "keyed_run L s1 cs = (s', gs1)"
    and gs: "gs = (if r = Ok () then c # gs1 else gs1)"
    using Cons.prems(1) by (auto split: prod.splits)
  have "balance t at n (map_of (kb_buckets s) k)" using Cons.prems(2,4) balance_later c by simp
  note b = balance_op [OF Cons.prems(3) s1 [unfolded c] this]
  have "sorted (at # map fst cs)" using Cons.prems(2) c by simp
  from Cons.IH [OF rest this b] show ?case by (cases "r = Ok ()") (simp_all add: gs spent_in_def c)
qed

end

definition request_weight :: "charge_op \<Rightarrow> nat" where
  "request_weight op = (case op of Request _ \<Rightarrow> 1 | Egress _ \<Rightarrow> 0)"

definition byte_weight :: "charge_op \<Rightarrow> nat" where
  "byte_weight op = (case op of Request n \<Rightarrow> unat n | Egress n \<Rightarrow> unat n)"

lemma request_budget:
  assumes "lm_requests L \<noteq> 0" "lm_requests L \<noteq> -1"
  shows "window_budget L (\<lambda>b. unat (bk_requests b)) request_weight (unat (lm_requests L))"
proof
  have lim: "unat (lm_requests L) < 2 ^ 32 - 1"
    using assms(2) unsigned_less [of "lm_requests L", where ?'a = nat]
    by (simp add: word_unat_eq_iff unsigned_minus_1_eq_mask mask_eq_exp_minus_1)
  show "unat (bk_requests (bucket_fresh now)) = 0" for now by (simp add: bucket_fresh_def)
  show "request_weight op = 0" if "unlimited L op" for op
    using that assms(1) by (cases op) (simp_all add: unlimited_def request_weight_def)
  fix b now op b' and r :: "loft_error + unit"
  assume "bucket_op L b now op = (b', r)" "unat (bk_requests (bucket_roll b now)) \<le> unat (lm_requests L)"
  then show "bk_window_start b' = bk_window_start (bucket_roll b now)
    \<and> unat (bk_requests b') = unat (bk_requests (bucket_roll b now)) + (if r = Ok () then request_weight op else 0)
    \<and> unat (bk_requests b') \<le> unat (lm_requests L)"
    using assms(1) lim
    by (cases op) (auto simp: bucket_op_def bucket_charge_def bucket_charge_bytes_def Let_def request_weight_def
      unat_saturating_add word_less_nat_alt split: if_splits)
qed

lemma byte_budget:
  assumes "lm_bytes L \<noteq> 0" "lm_bytes L \<noteq> -1"
  shows "window_budget L (\<lambda>b. unat (bk_bytes b)) byte_weight (unat (lm_bytes L))"
proof
  have lim: "unat (lm_bytes L) < 2 ^ 64 - 1"
    using assms(2) unsigned_less [of "lm_bytes L", where ?'a = nat]
    by (simp add: word_unat_eq_iff unsigned_minus_1_eq_mask mask_eq_exp_minus_1)
  show "unat (bk_bytes (bucket_fresh now)) = 0" for now by (simp add: bucket_fresh_def)
  show "byte_weight op = 0" if "unlimited L op" for op
    using that assms(1) by (simp add: unlimited_def)
  fix b now op b' and r :: "loft_error + unit"
  assume "bucket_op L b now op = (b', r)" "unat (bk_bytes (bucket_roll b now)) \<le> unat (lm_bytes L)"
  then show "bk_window_start b' = bk_window_start (bucket_roll b now)
    \<and> unat (bk_bytes b') = unat (bk_bytes (bucket_roll b now)) + (if r = Ok () then byte_weight op else 0)
    \<and> unat (bk_bytes b') \<le> unat (lm_bytes L)"
    using assms(1) lim
    by (cases op) (auto simp: bucket_op_def bucket_charge_def bucket_charge_bytes_def Let_def byte_weight_def
      unat_saturating_add word_less_nat_alt split: if_splits)
qed

section \<open>Isolation\<close>

text \<open>What one key would be granted if it had the limiter to itself.\<close>

fun solo_run :: "limits \<Rightarrow> bucket option \<Rightarrow> (instant \<times> 'k \<times> charge_op) list \<Rightarrow> (instant \<times> 'k \<times> charge_op) list" where
  "solo_run L x [] = []"
| "solo_run L x ((now, k, op) # cs) = (
     if unlimited L op then (now, k, op) # solo_run L x cs
     else let (b, r) = bucket_op L (case x of Some b \<Rightarrow> b | None \<Rightarrow> bucket_fresh now) now op; rest = solo_run L (Some b) cs
          in if r = Ok () then (now, k, op) # rest else rest)"

abbreviation charges_of :: "'k \<Rightarrow> (instant \<times> 'k \<times> charge_op) list \<Rightarrow> (instant \<times> 'k \<times> charge_op) list" where
  "charges_of k \<equiv> filter (\<lambda>(_, k', _). k' = k)"

abbreviation charge_keys :: "(instant \<times> 'k \<times> charge_op) list \<Rightarrow> 'k set" where
  "charge_keys cs \<equiv> (\<lambda>(_, k, _). k) ` set cs"

lemma charge_entry_room:
  assumes "keyed_ok s" "contains_key (kb_buckets s) key \<or> length (kb_buckets s) < kb_max_keys s"
    and "f (case map_of (kb_buckets s) key of Some b0 \<Rightarrow> b0 | None \<Rightarrow> bucket_fresh now) = (b, r)"
  shows "\<exists>s'. charge_entry s key now f = (s', r) \<and> kb_buckets s' = AList.update key b (kb_buckets s) \<and> kb_max_keys s' = kb_max_keys s"
proof -
  have mr: "make_room s key now = (s, Ok ())" using assms(2) by (auto simp: make_room_def)
  show ?thesis using assms(3) by (cases "map_of (kb_buckets s) key") (simp_all add: charge_entry_def mr Let_def)
qed

lemma keys_room:
  assumes "keyed_ok s" "fst ` set (kb_buckets s) \<subseteq> K" "finite K" "card K \<le> kb_max_keys s" "key \<in> K"
  shows "contains_key (kb_buckets s) key \<or> length (kb_buckets s) < kb_max_keys s"
proof (rule disjCI)
  assume "\<not> length (kb_buckets s) < kb_max_keys s"
  then have "card K \<le> card (fst ` set (kb_buckets s))"
    using assms(1,4) distinct_card [of "map fst (kb_buckets s)"] by (simp add: keyed_ok_def)
  then have "fst ` set (kb_buckets s) = K" using card_seteq [OF assms(3,2)] by simp
  then show "contains_key (kb_buckets s) key" using assms(5) by (auto simp: map_of_eq_None_iff)
qed

lemma keyed_run_solo:
  "keyed_run L s cs = (s', gs) \<Longrightarrow> keyed_ok s \<Longrightarrow> fst ` set (kb_buckets s) \<union> charge_keys cs \<subseteq> K \<Longrightarrow> finite K
    \<Longrightarrow> card K \<le> kb_max_keys s \<Longrightarrow> charges_of k gs = solo_run L (map_of (kb_buckets s) k) (charges_of k cs)"
proof (induction cs arbitrary: s s' gs)
  case (Cons c cs)
  obtain now key op where c: "c = (now, key, op)" by (cases c)
  obtain s1 r gs1 where s1: "keyed_op L s (now, key, op) = (s1, r)" and rest: "keyed_run L s1 cs = (s', gs1)"
    and gs: "gs = (if r = Ok () then c # gs1 else gs1)"
    using Cons.prems(1) c by (auto split: prod.splits)
  show ?case
  proof (cases "unlimited L op")
    case True
    then have "s1 = s" "r = Ok ()" using s1 by (simp_all add: keyed_op_cases)
    then show ?thesis using Cons.IH [OF rest] Cons.prems(2-5) True by (simp add: gs c)
  next
    case False
    have "K \<noteq> {}" using Cons.prems(3) c by auto
    then have pos: "kb_max_keys s \<noteq> 0" using Cons.prems(4,5) card_gt_0_iff [of K] by linarith
    have entry: "charge_entry s key now (\<lambda>b. bucket_op L b now op) = (s1, r)" using s1 False pos by (simp add: keyed_op_cases)
    obtain b r' where b: "bucket_op L (case map_of (kb_buckets s) key of Some b0 \<Rightarrow> b0 | None \<Rightarrow> bucket_fresh now) now op = (b, r')"
      by force
    have "contains_key (kb_buckets s) key \<or> length (kb_buckets s) < kb_max_keys s"
      using keys_room [OF Cons.prems(2) _ Cons.prems(4,5)] Cons.prems(3) c by auto
    from charge_entry_room [of s key "\<lambda>b. bucket_op L b now op", OF Cons.prems(2) this b] entry
    have u: "kb_buckets s1 = AList.update key b (kb_buckets s)" "kb_max_keys s1 = kb_max_keys s" "r' = r" by auto
    have ok: "keyed_ok s1" by (rule charge_entry_spec [OF Cons.prems(2) entry])
    have "fst ` set (kb_buckets s1) \<union> charge_keys cs \<subseteq> K"
      using Cons.prems(3) c dom_update [of key b "kb_buckets s"] by (auto simp: u(1))
    from Cons.IH [OF rest ok this Cons.prems(4)] Cons.prems(5)
    have "charges_of k gs1 = solo_run L (map_of (kb_buckets s1) k) (charges_of k cs)" by (simp add: u(2))
    then show ?thesis using b u False by (cases "key = k"; cases "r = Ok ()") (auto simp: gs c update_conv')
  qed
qed simp

lemma keyed_run_ok:
  "keyed_run L s cs = (s', gs) \<Longrightarrow> keyed_ok s \<Longrightarrow> keyed_ok s' \<and> kb_max_keys s' = kb_max_keys s"
proof (induction cs arbitrary: s s' gs)
  case (Cons c cs)
  obtain now key op where c: "c = (now, key, op)" by (cases c)
  obtain s1 r gs1 where s1: "keyed_op L s (now, key, op) = (s1, r)" and rest: "keyed_run L s1 cs = (s', gs1)"
    using Cons.prems(1) c by (auto split: prod.splits)
  have "keyed_ok s1 \<and> kb_max_keys s1 = kb_max_keys s"
    using s1 Cons.prems(2) charge_entry_spec(1,2) [OF Cons.prems(2), of key now "\<lambda>b. bucket_op L b now op" s1 r]
    by (simp add: keyed_op_cases split: if_splits)
  with Cons.IH [OF rest] show ?case by simp
qed simp

section \<open>Properties\<close>

text \<open>C16. A budget cannot be outrun. Whatever keys take part and whatever is evicted, in any sixty seconds one key is granted
  at most twice its requests and twice its bytes per minute, and the map never exceeds its key ceiling.\<close>

theorem limiter_rate_bounded:
  assumes "keyed_run L (keyed_new m) cs = (s, granted)" "sorted (map fst cs)"
  shows "(lm_requests L \<notin> {0, -1} \<longrightarrow> spent_in request_weight k t granted \<le> 2 * unat (lm_requests L))
    \<and> (lm_bytes L \<notin> {0, -1} \<longrightarrow> spent_in byte_weight k t granted \<le> 2 * unat (lm_bytes L))
    \<and> length (kb_buckets s) \<le> m"
proof (intro conjI impI)
  have ok: "keyed_ok (keyed_new m)" by (simp add: keyed_ok_def keyed_new_def)
  have s: "sorted (0 # map fst cs)" using assms(2) by simp
  show "spent_in request_weight k t granted \<le> 2 * unat (lm_requests L)" if "lm_requests L \<notin> {0, -1}"
    using that window_budget.spent_bounded [OF request_budget assms(1) s ok, of t 0 k]
    by (simp add: window_budget.balance_def [OF request_budget] keyed_new_def)
  show "spent_in byte_weight k t granted \<le> 2 * unat (lm_bytes L)" if "lm_bytes L \<notin> {0, -1}"
    using that window_budget.spent_bounded [OF byte_budget assms(1) s ok, of t 0 k]
    by (simp add: window_budget.balance_def [OF byte_budget] keyed_new_def)
  show "length (kb_buckets s) \<le> m" using keyed_run_ok [OF assms(1) ok] by (simp add: keyed_ok_def keyed_new_def)
qed

text \<open>C40. Keys do not share a budget. While no more distinct keys are used than the map may hold, each key is granted exactly what
  it would be granted alone, so a flood under other keys takes nothing from it.\<close>

theorem limiter_isolates_keys:
  assumes "keyed_run L (keyed_new m) cs = (s, granted)" "card (charge_keys cs) \<le> m"
  shows "charges_of k granted = solo_run L None (charges_of k cs)"
  using keyed_run_solo [OF assms(1), of "charge_keys cs" k] assms(2) by (simp add: keyed_ok_def keyed_new_def)

definition example_limits :: limits where "example_limits = \<lparr>lm_requests = 2, lm_bytes = 100\<rparr>"

definition example_charges :: "(instant \<times> nat \<times> charge_op) list" where
  "example_charges = [(1, 7, Request 10), (2, 7, Request 10), (3, 7, Request 10), (4, 8, Request 60), (5, 8, Egress 60)]"

lemma example_granted:
  "snd (keyed_run example_limits (keyed_new 2) example_charges) = [(1, 7, Request 10), (2, 7, Request 10), (4, 8, Request 60)]"
  by (simp add: example_limits_def example_charges_def keyed_new_def keyed_charge_def keyed_charge_bytes_def charge_entry_def
    make_room_def note_insert_def bucket_charge_def bucket_charge_bytes_def bucket_roll_def bucket_fresh_def WINDOW_def
    saturating_add_def word_less_nat_alt Let_def)

theorem limiter_rate_bounded_witness:
  "example_limits = \<lparr>lm_requests = 2, lm_bytes = 100\<rparr>
    \<and> spent_in request_weight 7 0 (snd (keyed_run example_limits (keyed_new 2) example_charges)) \<le> 4"
  using limiter_rate_bounded [of example_limits 2 example_charges, OF prod.collapse [symmetric], of 7 0]
  by (simp add: example_limits_def example_charges_def del: keyed_run.simps)

theorem limiter_isolates_keys_witness:
  "charges_of 8 (snd (keyed_run example_limits (keyed_new 2) example_charges)) = [(4, 8, Request 60)]
    \<and> solo_run example_limits None (charges_of 8 example_charges) = [(4, 8, Request 60)]"
proof -
  have "card (charge_keys example_charges) \<le> 2" by (simp add: example_charges_def)
  from limiter_isolates_keys [OF prod.collapse [symmetric] this, of 8 example_limits]
  have "[(4, 8, Request 60)] = solo_run example_limits None (charges_of 8 example_charges)"
    unfolding example_granted by simp
  from this [symmetric] show ?thesis unfolding example_granted by simp
qed

end
