(* ===== verification/Loft_Config.thy ===== *)
theory Loft_Config
  imports Limiter Network Fetch_Auth
begin

text \<open>
  \<^verbatim>\<open>pigeonpost-loft/src/config.rs\<close> and the checks of \<^verbatim>\<open>validate_config\<close> in \<^verbatim>\<open>server.rs\<close>: the configuration of a loft, its
  defaults and ceilings, and the admission controller built from it. A \<^verbatim>\<open>usize\<close> field is a 64-bit word.
\<close>

section \<open>Ceilings\<close>

definition MAX_EVENT_BYTES :: u64 where "MAX_EVENT_BYTES = 2 * 1024 * 1024"
definition DEFAULT_MAX_EVENT_BYTES :: u64 where "DEFAULT_MAX_EVENT_BYTES = MAX_EVENT_BYTES"
definition DEFAULT_MAX_REQUEST_BYTES :: u64 where "DEFAULT_MAX_REQUEST_BYTES = DEFAULT_MAX_EVENT_BYTES + 64 * 1024"
definition MAX_CAPACITY_BYTES :: u64 where "MAX_CAPACITY_BYTES = 1024 * 1024 * 1024 * 1024 * 1024"
definition MAX_RETENTION_DAYS :: u64 where "MAX_RETENTION_DAYS = 3650"
definition MAX_REQUEST_BYTES :: u64 where "MAX_REQUEST_BYTES = DEFAULT_MAX_REQUEST_BYTES"
definition MAX_FETCH_LIMIT :: u64 where "MAX_FETCH_LIMIT = 500"
definition MAX_FETCH_RESPONSE_BYTES :: u64 where "MAX_FETCH_RESPONSE_BYTES = 8 * 1024 * 1024"
definition MAX_RATE_LIMIT_PER_MINUTE :: u32 where "MAX_RATE_LIMIT_PER_MINUTE = 1000000"
definition MAX_GLOBAL_REQUESTS_PER_MINUTE :: u32 where "MAX_GLOBAL_REQUESTS_PER_MINUTE = 10000000"
definition MAX_RATE_BYTES_PER_MINUTE :: u64 where "MAX_RATE_BYTES_PER_MINUTE = 1024 * 1024 * 1024 * 1024"
definition MAX_CONCURRENT_CONNECTIONS :: u64 where "MAX_CONCURRENT_CONNECTIONS = 4096"
definition MAX_CONCURRENT_REQUESTS :: u64 where "MAX_CONCURRENT_REQUESTS = 4096"
definition MAX_BLOCKING_OPERATIONS :: u64 where "MAX_BLOCKING_OPERATIONS = 256"
definition MAX_LIMITER_KEYS :: u64 where "MAX_LIMITER_KEYS = 65536"
definition MAX_REQUEST_TIMEOUT_SECS :: u64 where "MAX_REQUEST_TIMEOUT_SECS = 300"
definition MAX_HEADER_TIMEOUT_SECS :: u64 where "MAX_HEADER_TIMEOUT_SECS = 300"
definition MAX_RESPONSE_TIMEOUT_SECS :: u64 where "MAX_RESPONSE_TIMEOUT_SECS = 300"
definition MAX_TRACE_TIMEOUT_MS :: u64 where "MAX_TRACE_TIMEOUT_MS = 30000"
definition MAX_SWEEP_BATCH :: u64 where "MAX_SWEEP_BATCH = 10000"
definition MAX_SWEEP_INTERVAL_SECS :: u64 where "MAX_SWEEP_INTERVAL_SECS = 86400"
definition MAX_TRUSTED_PROXIES :: nat where "MAX_TRUSTED_PROXIES = 64"

lemmas config_consts = MAX_EVENT_BYTES_def DEFAULT_MAX_EVENT_BYTES_def DEFAULT_MAX_REQUEST_BYTES_def MAX_CAPACITY_BYTES_def
  MAX_RETENTION_DAYS_def MAX_REQUEST_BYTES_def MAX_FETCH_LIMIT_def MAX_FETCH_RESPONSE_BYTES_def MAX_RATE_LIMIT_PER_MINUTE_def
  MAX_GLOBAL_REQUESTS_PER_MINUTE_def MAX_RATE_BYTES_PER_MINUTE_def MAX_CONCURRENT_CONNECTIONS_def MAX_CONCURRENT_REQUESTS_def
  MAX_BLOCKING_OPERATIONS_def MAX_LIMITER_KEYS_def MAX_REQUEST_TIMEOUT_SECS_def MAX_HEADER_TIMEOUT_SECS_def
  MAX_RESPONSE_TIMEOUT_SECS_def MAX_TRACE_TIMEOUT_MS_def MAX_SWEEP_BATCH_def MAX_SWEEP_INTERVAL_SECS_def MAX_TRUSTED_PROXIES_def

section \<open>The configuration\<close>

record loft_config =
  lc_pubkey :: bytes
  lc_origin :: string
  lc_capacity_bytes :: u64
  lc_retention_days :: u64
  lc_max_event_bytes :: u64
  lc_max_request_bytes :: u64
  lc_default_fetch_limit :: u64
  lc_max_fetch_limit :: u64
  lc_max_fetch_response_bytes :: u64
  lc_rate_limit_per_minute :: u32
  lc_global_requests_per_minute :: u32
  lc_global_bytes_per_minute :: u64
  lc_source_requests_per_minute :: u32
  lc_source_bytes_per_minute :: u64
  lc_recipient_bytes_per_minute :: u64
  lc_max_concurrent_connections :: u64
  lc_max_concurrent_requests :: u64
  lc_max_blocking_operations :: u64
  lc_max_limiter_keys :: u64
  lc_header_timeout_secs :: u64
  lc_request_timeout_secs :: u64
  lc_response_timeout_secs :: u64
  lc_trace_timeout_ms :: u64
  lc_trusted_proxies :: "ip_addr list"
  lc_sweep_batch :: u64
  lc_sweep_interval_secs :: u64

definition loft_config_new :: "bytes \<Rightarrow> string \<Rightarrow> loft_config" where
  "loft_config_new pubkey origin =
     \<lparr>lc_pubkey = pubkey, lc_origin = origin, lc_capacity_bytes = 20 * 1024 * 1024 * 1024, lc_retention_days = 30,
      lc_max_event_bytes = DEFAULT_MAX_EVENT_BYTES, lc_max_request_bytes = DEFAULT_MAX_REQUEST_BYTES,
      lc_default_fetch_limit = 100, lc_max_fetch_limit = 500, lc_max_fetch_response_bytes = 8 * 1024 * 1024,
      lc_rate_limit_per_minute = 120, lc_global_requests_per_minute = 2400, lc_global_bytes_per_minute = 128 * 1024 * 1024,
      lc_source_requests_per_minute = 600, lc_source_bytes_per_minute = 32 * 1024 * 1024,
      lc_recipient_bytes_per_minute = 16 * 1024 * 1024, lc_max_concurrent_connections = 256,
      lc_max_concurrent_requests = 128, lc_max_blocking_operations = 8, lc_max_limiter_keys = 4096,
      lc_header_timeout_secs = 5, lc_request_timeout_secs = 15, lc_response_timeout_secs = 15, lc_trace_timeout_ms = 250,
      lc_trusted_proxies = [], lc_sweep_batch = 500, lc_sweep_interval_secs = 300\<rparr>"

text \<open>\<^verbatim>\<open>IpAddr::is_unspecified\<close> and \<^verbatim>\<open>IpAddr::is_multicast\<close>.\<close>

definition is_unspecified :: "ip_addr \<Rightarrow> bool" where
  "is_unspecified a = (case a of V4 w x y z \<Rightarrow> w = 0 \<and> x = 0 \<and> y = 0 \<and> z = 0 | V6 s \<Rightarrow> s = replicate 8 0)"

definition is_multicast :: "ip_addr \<Rightarrow> bool" where
  "is_multicast a = (case a of V4 w _ _ _ \<Rightarrow> 224 \<le> w \<and> w \<le> 239 | V6 s \<Rightarrow> drop_bit 8 (s ! 0) = 0xff)"

definition validate_config :: "url_parser \<Rightarrow> loft_config \<Rightarrow> loft_error + unit" where
  "validate_config parse c =
     and_then (map_err (validate_loft_origin parse (lc_origin c)) (Configuration ''invalid canonical loft origin'')) (\<lambda>_.
     if lc_capacity_bytes c = 0 \<or> MAX_CAPACITY_BYTES < lc_capacity_bytes c
     then Err (Configuration ''capacity is outside supported bounds'')
     else if lc_retention_days c = 0 \<or> MAX_RETENTION_DAYS < lc_retention_days c
     then Err (Configuration ''retention is outside supported bounds'')
     else if lc_max_event_bytes c = 0 \<or> MAX_EVENT_BYTES < lc_max_event_bytes c
       \<or> MAX_REQUEST_BYTES < lc_max_request_bytes c
       \<or> (case checked_add (lc_max_event_bytes c) (64 * 1024) of None \<Rightarrow> True | Some minimum \<Rightarrow> lc_max_request_bytes c < minimum)
     then Err (Configuration ''invalid event/request body limits'')
     else if lc_max_fetch_limit c = 0 \<or> lc_default_fetch_limit c = 0 \<or> lc_max_fetch_limit c < lc_default_fetch_limit c
       \<or> MAX_FETCH_LIMIT < lc_max_fetch_limit c \<or> MAX_FETCH_RESPONSE_BYTES < lc_max_fetch_response_bytes c
       \<or> lc_max_fetch_response_bytes c < saturating_mul (lc_max_event_bytes c) 2
     then Err (Configuration ''invalid fetch limits'')
     else if lc_rate_limit_per_minute c = 0 \<or> MAX_RATE_LIMIT_PER_MINUTE < lc_rate_limit_per_minute c
       \<or> lc_global_requests_per_minute c = 0 \<or> MAX_GLOBAL_REQUESTS_PER_MINUTE < lc_global_requests_per_minute c
       \<or> lc_source_requests_per_minute c = 0 \<or> MAX_RATE_LIMIT_PER_MINUTE < lc_source_requests_per_minute c
       \<or> lc_global_bytes_per_minute c = 0 \<or> MAX_RATE_BYTES_PER_MINUTE < lc_global_bytes_per_minute c
       \<or> lc_source_bytes_per_minute c = 0 \<or> MAX_RATE_BYTES_PER_MINUTE < lc_source_bytes_per_minute c
       \<or> lc_recipient_bytes_per_minute c = 0 \<or> MAX_RATE_BYTES_PER_MINUTE < lc_recipient_bytes_per_minute c
     then Err (Configuration ''invalid request-rate limits'')
     else if lc_max_concurrent_connections c = 0 \<or> MAX_CONCURRENT_CONNECTIONS < lc_max_concurrent_connections c
       \<or> lc_max_concurrent_requests c = 0 \<or> MAX_CONCURRENT_REQUESTS < lc_max_concurrent_requests c
       \<or> lc_max_blocking_operations c = 0 \<or> MAX_BLOCKING_OPERATIONS < lc_max_blocking_operations c
       \<or> lc_max_limiter_keys c = 0 \<or> MAX_LIMITER_KEYS < lc_max_limiter_keys c
     then Err (Configuration ''admission limits are outside supported bounds'')
     else if lc_header_timeout_secs c = 0 \<or> MAX_HEADER_TIMEOUT_SECS < lc_header_timeout_secs c
       \<or> lc_request_timeout_secs c = 0 \<or> MAX_REQUEST_TIMEOUT_SECS < lc_request_timeout_secs c
       \<or> lc_response_timeout_secs c = 0 \<or> MAX_RESPONSE_TIMEOUT_SECS < lc_response_timeout_secs c
       \<or> lc_trace_timeout_ms c = 0 \<or> MAX_TRACE_TIMEOUT_MS < lc_trace_timeout_ms c
       \<or> saturating_mul (lc_request_timeout_secs c) 1000 < lc_trace_timeout_ms c
       \<or> lc_sweep_batch c = 0 \<or> MAX_SWEEP_BATCH < lc_sweep_batch c
       \<or> lc_sweep_interval_secs c = 0 \<or> MAX_SWEEP_INTERVAL_SECS < lc_sweep_interval_secs c
     then Err (Configuration ''timeouts and retention work limits are outside supported bounds'')
     else if MAX_TRUSTED_PROXIES < length (lc_trusted_proxies c)
       \<or> list_ex (\<lambda>a. is_unspecified a \<or> is_multicast a) (lc_trusted_proxies c)
     then Err (Configuration ''invalid trusted proxy list'')
     else Ok ())"

section \<open>The controller of a configuration\<close>

definition global_limits :: "loft_config \<Rightarrow> limits" where
  "global_limits c = \<lparr>lm_requests = lc_global_requests_per_minute c, lm_bytes = lc_global_bytes_per_minute c\<rparr>"

definition source_limits :: "loft_config \<Rightarrow> limits" where
  "source_limits c = \<lparr>lm_requests = lc_source_requests_per_minute c, lm_bytes = lc_source_bytes_per_minute c\<rparr>"

definition recipient_limits :: "loft_config \<Rightarrow> limits" where
  "recipient_limits c = \<lparr>lm_requests = lc_rate_limit_per_minute c, lm_bytes = lc_recipient_bytes_per_minute c\<rparr>"

definition controller_new :: "loft_config \<Rightarrow> instant \<Rightarrow> (ip_addr, bytes) admission_controller" where
  "controller_new c now =
     \<lparr>ac_permits = unat (lc_max_concurrent_requests c), ac_global = bucket_fresh now, ac_global_limits = global_limits c,
      ac_source = keyed_new (unat (lc_max_limiter_keys c)), ac_source_limits = source_limits c,
      ac_recipient = keyed_new (unat (lc_max_limiter_keys c)), ac_recipient_limits = recipient_limits c\<rparr>"

lemma default_recipient_limits [simp]: "recipient_limits (loft_config_new pk origin) = \<lparr>lm_requests = 120, lm_bytes = 16777216\<rparr>"
  by (simp add: recipient_limits_def loft_config_new_def)

interpretation recipient_requests: window_budget "recipient_limits (loft_config_new pk origin)" "\<lambda>b. unat (bk_requests b)"
  request_weight "unat (lm_requests (recipient_limits (loft_config_new pk origin)))" for pk origin
  by (rule request_budget) (simp_all add: word_unat_eq_iff unsigned_minus_1_eq_mask mask_eq_exp_minus_1)

interpretation recipient_bytes: window_budget "recipient_limits (loft_config_new pk origin)" "\<lambda>b. unat (bk_bytes b)"
  byte_weight "unat (lm_bytes (recipient_limits (loft_config_new pk origin)))" for pk origin
  by (rule byte_budget) (simp_all add: word_unat_eq_iff unsigned_minus_1_eq_mask mask_eq_exp_minus_1)

lemma validate_config_Ok:
  assumes "validate_config parse c = Ok u"
  shows "is_ok (validate_loft_origin parse (lc_origin c))"
    and "0 < unat (lc_capacity_bytes c)" "unat (lc_capacity_bytes c) \<le> 2 ^ 50"
    and "0 < unat (lc_retention_days c)" "unat (lc_retention_days c) \<le> 3650"
    and "0 < unat (lc_max_event_bytes c)" "unat (lc_max_event_bytes c) \<le> 2 ^ 21"
    and "0 < unat (lc_max_fetch_limit c)" "unat (lc_max_fetch_limit c) \<le> 500"
    and "2 * unat (lc_max_event_bytes c) \<le> unat (lc_max_fetch_response_bytes c)" "unat (lc_max_fetch_response_bytes c) \<le> 2 ^ 23"
    and "lm_requests (source_limits c) \<notin> {0, -1}" "lm_bytes (source_limits c) \<notin> {0, -1}"
    and "lm_requests (recipient_limits c) \<notin> {0, -1}" "lm_bytes (recipient_limits c) \<notin> {0, -1}"
    and "0 < unat (lc_max_limiter_keys c)" "unat (lc_max_limiter_keys c) \<le> 65536"
proof -
  note s = assms [unfolded validate_config_def and_then_eq_Ok]
  show "is_ok (validate_loft_origin parse (lc_origin c))" using s by (auto simp: is_ok_iff)
  show "0 < unat (lc_capacity_bytes c)" "unat (lc_capacity_bytes c) \<le> 2 ^ 50"
    using s by (auto simp: config_consts word_less_nat_alt not_less unat_gt_0 split: if_splits)
  show "0 < unat (lc_retention_days c)" "unat (lc_retention_days c) \<le> 3650"
    using s by (auto simp: config_consts word_less_nat_alt not_less unat_gt_0 split: if_splits)
  show e: "0 < unat (lc_max_event_bytes c)" "unat (lc_max_event_bytes c) \<le> 2 ^ 21"
    using s by (auto simp: config_consts word_less_nat_alt not_less unat_gt_0 split: if_splits)
  show "0 < unat (lc_max_fetch_limit c)" "unat (lc_max_fetch_limit c) \<le> 500"
    using s by (auto simp: config_consts word_less_nat_alt not_less unat_gt_0 split: if_splits)
  have "unat (saturating_mul (lc_max_event_bytes c) 2) = 2 * unat (lc_max_event_bytes c)"
    using e by (simp add: saturating_mul_def unat_word_ariths)
  then show "2 * unat (lc_max_event_bytes c) \<le> unat (lc_max_fetch_response_bytes c)" "unat (lc_max_fetch_response_bytes c) \<le> 2 ^ 23"
    using s by (auto simp: config_consts word_less_nat_alt not_less split: if_splits)
  show "lm_requests (source_limits c) \<notin> {0, -1}" "lm_bytes (source_limits c) \<notin> {0, -1}"
    and "lm_requests (recipient_limits c) \<notin> {0, -1}" "lm_bytes (recipient_limits c) \<notin> {0, -1}"
    using s by (auto simp: config_consts source_limits_def recipient_limits_def split: if_splits)
  show "0 < unat (lc_max_limiter_keys c)" "unat (lc_max_limiter_keys c) \<le> 65536"
    using s by (auto simp: config_consts word_less_nat_alt not_less unat_gt_0 split: if_splits)
qed

end
