(* ===== verification/Peer_Source.thy ===== *)
theory Peer_Source
  imports Loft_Config
begin

text \<open>
  \<^verbatim>\<open>resolve_peer_source\<close> and \<^verbatim>\<open>parse_forwarded_socket\<close> of \<^verbatim>\<open>pigeonpost-loft/src/server.rs\<close>: which network source a request is
  charged to and traced under when trusted proxies may report it in a \<^verbatim>\<open>Forwarded\<close> header. The standard
  library's socket address parser is written out over the address parser of \<open>Network\<close>; the conversion of
  a header value to text is the parameter \<open>to_str\<close>.
\<close>

section \<open>The standard library's socket address parser\<close>

record socket_addr =
  sa_ip :: ip_addr
  sa_port :: u16
  sa_scope :: u32

definition read_port :: "string \<Rightarrow> (nat \<times> string) option" where
  "read_port s = (case read_given_char (CHR '':'') s of None \<Rightarrow> None | Some r \<Rightarrow> read_number 10 (length r) True (2 ^ 16) r)"

definition read_scope_id :: "string \<Rightarrow> (nat \<times> string) option" where
  "read_scope_id s = (case read_given_char (CHR ''%'') s of None \<Rightarrow> None | Some r \<Rightarrow> read_number 10 (length r) True (2 ^ 32) r)"

definition read_socket_v4 :: "string \<Rightarrow> (socket_addr \<times> string) option" where
  "read_socket_v4 s =
     Option.bind (read_ipv4_addr s) (\<lambda>(octets, rest).
     Option.bind (read_port rest) (\<lambda>(port, rest').
     Some (\<lparr>sa_ip = V4 (word_of_nat (octets ! 0)) (word_of_nat (octets ! 1)) (word_of_nat (octets ! 2)) (word_of_nat (octets ! 3)),
            sa_port = word_of_nat port, sa_scope = 0\<rparr>, rest')))"

definition read_socket_v6 :: "string \<Rightarrow> (socket_addr \<times> string) option" where
  "read_socket_v6 s =
     Option.bind (read_given_char (CHR ''['') s) (\<lambda>s1.
     Option.bind (read_ipv6_addr s1) (\<lambda>(groups, s2).
     let (scope, s3) = (case read_scope_id s2 of None \<Rightarrow> (0, s2) | Some x \<Rightarrow> x) in
     Option.bind (read_given_char (CHR '']'') s3) (\<lambda>s4.
     Option.bind (read_port s4) (\<lambda>(port, rest).
     Some (\<lparr>sa_ip = V6 (map word_of_nat groups), sa_port = word_of_nat port, sa_scope = word_of_nat scope\<rparr>, rest)))))"

definition parse_socket :: "string \<Rightarrow> socket_addr option" where
  "parse_socket s =
     (case (case read_socket_v4 s of Some x \<Rightarrow> Some x | None \<Rightarrow> read_socket_v6 s) of
        Some (a, []) \<Rightarrow> Some a
      | _ \<Rightarrow> None)"

section \<open>The source of a request\<close>

record peer =
  pe_connected :: "socket_addr option"
  pe_forwarded :: "bytes option"
  pe_x_forwarded_for_present :: bool
  pe_effective_source :: "socket_addr option"

definition is_whitespace :: "char \<Rightarrow> bool" where
  "is_whitespace c \<longleftrightarrow> code c \<in> {9, 10, 11, 12, 13, 32}"

text \<open>\<^verbatim>\<open>str::trim\<close> on ASCII text, the only text a header value gives.\<close>

definition trim :: "string \<Rightarrow> string" where
  "trim s = rev (dropWhile is_whitespace (rev (dropWhile is_whitespace s)))"

definition parse_forwarded_socket :: "string \<Rightarrow> loft_error + socket_addr" where
  "parse_forwarded_socket value =
     and_then (if value \<noteq> [] \<and> hd value = CHR 0x22 \<and> last value = CHR 0x22 \<and> 2 \<le> length value
               then Ok (butlast (tl value))
               else if CHR 0x22 \<in> set value then Err TraceUnavailable
               else Ok value) (\<lambda>v.
     if v = [] \<or> list_ex (\<lambda>c. is_ascii_control c \<or> c = CHR 0x5C) v then Err TraceUnavailable
     else and_then (ok_or (parse_socket v) TraceUnavailable) (\<lambda>address.
       if sa_port address = 0 \<or> is_unspecified (sa_ip address) \<or> is_multicast (sa_ip address)
       then Err TraceUnavailable
       else Ok address))"

text \<open>The parameters of one element: at most 32, each with a value, and at most one named \<^verbatim>\<open>for\<close>.\<close>

fun forwarded_params :: "nat \<Rightarrow> string option \<Rightarrow> string list \<Rightarrow> loft_error + string option" where
  "forwarded_params n found [] = Ok found"
| "forwarded_params n found (parameter # rest) =
     (if 32 < n + 1 then Err TraceUnavailable
      else and_then (ok_or (split_once (CHR ''='') (trim parameter)) TraceUnavailable) (\<lambda>(name, value).
        if eq_ignore_ascii_case (trim name) ''for''
        then (if found \<noteq> None then Err TraceUnavailable else forwarded_params (n + 1) (Some (trim value)) rest)
        else forwarded_params (n + 1) found rest))"

definition forwarded_hop :: "string \<Rightarrow> loft_error + socket_addr" where
  "forwarded_hop element =
     and_then (forwarded_params 0 None (split_on (CHR '';'') element)) (\<lambda>found.
     and_then (ok_or found TraceUnavailable) parse_forwarded_socket)"

fun walk_hops :: "ip_addr list \<Rightarrow> socket_addr \<Rightarrow> bool \<Rightarrow> string list \<Rightarrow> loft_error + (socket_addr \<times> bool)" where
  "walk_hops trusted current consumed [] = Ok (current, consumed)"
| "walk_hops trusted current consumed (element # rest) =
     (if sa_ip current \<notin> set trusted then Ok (current, consumed)
      else and_then (forwarded_hop element) (\<lambda>hop. walk_hops trusted hop True rest))"

definition resolve_peer_source :: "(bytes \<Rightarrow> string option) \<Rightarrow> loft_config \<Rightarrow> peer \<Rightarrow> loft_error + socket_addr" where
  "resolve_peer_source to_str config peer =
     (case pe_effective_source peer of
        Some source \<Rightarrow> Ok source
      | None \<Rightarrow>
     and_then (ok_or (pe_connected peer) TraceUnavailable) (\<lambda>connected.
     if sa_ip connected \<notin> set (lc_trusted_proxies config) then Ok connected
     else if pe_x_forwarded_for_present peer then Err TraceUnavailable
     else and_then (ok_or (case Option.bind (pe_forwarded peer) to_str of
              Some value \<Rightarrow> if length value \<le> 4096 then Some value else None
            | None \<Rightarrow> None) TraceUnavailable) (\<lambda>forwarded.
     let elements = split_on (CHR '','') forwarded in
     if elements = [] \<or> 32 < length elements then Err TraceUnavailable
     else and_then (walk_hops (lc_trusted_proxies config) connected False (rev elements)) (\<lambda>(current, consumed).
       if \<not> consumed then Err TraceUnavailable else Ok current))))"

section \<open>The chain a header reports\<close>

lemma split_on_snoc: "d \<notin> set e \<Longrightarrow> split_on d (x @ d # e) = split_on d x @ [e]"
proof (induction x)
  case (Cons c x)
  then show ?case by (cases "split_on d x") simp_all
qed (simp add: split_on_not_in)

text \<open>The hops from the connected peer outwards: each one was reported by a trusted neighbour.\<close>

definition hop_chain :: "ip_addr list \<Rightarrow> socket_addr \<Rightarrow> string list \<Rightarrow> socket_addr list \<Rightarrow> bool" where
  "hop_chain trusted connected elements hops \<longleftrightarrow>
     length hops \<le> length elements \<and> map forwarded_hop (take (length hops) (rev elements)) = map Ok hops
     \<and> (\<forall>h \<in> set (butlast (connected # hops)). sa_ip h \<in> set trusted)
     \<and> (length hops = length elements \<or> sa_ip (last (connected # hops)) \<notin> set trusted)"

lemma walk_hops_chain:
  "walk_hops trusted c consumed es = Ok (s, consumed') \<Longrightarrow>
   \<exists>hops. hop_chain trusted c (rev es) hops \<and> s = last (c # hops) \<and> (consumed' \<longleftrightarrow> consumed \<or> hops \<noteq> [])"
proof (induction es arbitrary: c consumed)
  case Nil
  then show ?case by (intro exI [of _ "[]"]) (simp add: hop_chain_def)
next
  case (Cons e es)
  show ?case
  proof (cases "sa_ip c \<in> set trusted")
    case False
    then show ?thesis using Cons.prems by (intro exI [of _ "[]"]) (simp add: hop_chain_def)
  next
    case True
    then obtain hop where hop: "forwarded_hop e = Ok hop" "walk_hops trusted hop True es = Ok (s, consumed')"
      using Cons.prems by (auto simp: and_then_eq_Ok)
    from Cons.IH [OF hop(2)] obtain hops where h: "hop_chain trusted hop (rev es) hops" "s = last (hop # hops)" consumed' by auto
    then show ?thesis using hop(1) True by (intro exI [of _ "hop # hops"]) (auto simp: hop_chain_def)
  qed
qed

lemma forwarded_socket_usable:
  "parse_forwarded_socket v = Ok a \<Longrightarrow> sa_port a \<noteq> 0 \<and> \<not> is_unspecified (sa_ip a) \<and> \<not> is_multicast (sa_ip a)"
  by (auto simp: parse_forwarded_socket_def and_then_eq_Ok split: if_splits)

lemma forwarded_hop_usable:
  "forwarded_hop e = Ok a \<Longrightarrow> sa_port a \<noteq> 0 \<and> \<not> is_unspecified (sa_ip a) \<and> \<not> is_multicast (sa_ip a)"
  by (auto simp: forwarded_hop_def and_then_eq_Ok dest: forwarded_socket_usable)

lemma walk_hops_untrusted: "sa_ip c \<notin> set trusted \<Longrightarrow> walk_hops trusted c consumed es = Ok (c, consumed)"
  by (cases es) simp_all

lemma source_appended:
  assumes "pe_effective_source peer = None" "pe_connected peer = Some c" "sa_ip c \<in> set (lc_trusted_proxies config)"
    and "\<not> pe_x_forwarded_for_present peer" "Option.bind (pe_forwarded peer) to_str = Some (anything @ CHR '','' # e)"
    and "CHR '','' \<notin> set e" "length (anything @ CHR '','' # e) \<le> 4096" "length (split_on (CHR '','') anything) < 32"
    and "forwarded_hop e = Ok client" "sa_ip client \<notin> set (lc_trusted_proxies config)"
  shows "resolve_peer_source to_str config peer = Ok client"
  using assms(1-4,7-9) walk_hops_untrusted [OF assms(10), of True]
  by (simp add: resolve_peer_source_def assms(5) split_on_snoc [OF assms(6)])

lemma source_chain:
  assumes "pe_effective_source peer = None" "pe_connected peer = Some c" "sa_ip c \<in> set (lc_trusted_proxies config)"
    and "resolve_peer_source to_str config peer = Ok s"
  shows "\<exists>header hops. Option.bind (pe_forwarded peer) to_str = Some header \<and> hops \<noteq> [] \<and> s = last hops
    \<and> hop_chain (lc_trusted_proxies config) c (split_on (CHR '','') header) hops \<and> sa_port s \<noteq> 0"
proof -
  obtain header where h: "Option.bind (pe_forwarded peer) to_str = Some header"
    using assms by (cases "Option.bind (pe_forwarded peer) to_str") (simp_all add: resolve_peer_source_def split: if_splits)
  have w: "walk_hops (lc_trusted_proxies config) c False (rev (split_on (CHR '','') header)) = Ok (s, True)"
    using assms by (auto simp: resolve_peer_source_def h Let_def and_then_eq_Ok split: if_splits)
  obtain hops where hops: "hop_chain (lc_trusted_proxies config) c (split_on (CHR '','') header) hops" "s = last (c # hops)" "hops \<noteq> []"
    using walk_hops_chain [OF w] by auto
  have "Ok (last hops) \<in> set (map Ok hops :: (loft_error + socket_addr) list)" using hops(3) by simp
  also have "map Ok hops = map forwarded_hop (take (length hops) (rev (split_on (CHR '','') header)))"
    using hops(1) by (simp add: hop_chain_def)
  finally obtain e where "forwarded_hop e = Ok (last hops)" by auto
  then have "sa_port (last hops) \<noteq> 0" using forwarded_hop_usable by blast
  then show ?thesis using h hops by (intro exI [of _ header] exI [of _ hops]) simp
qed

section \<open>Properties\<close>

text \<open>C18. Sources cannot be forged. A peer that is not a trusted proxy is its own source whatever headers it sends; behind a trusted
  proxy the source is the last hop of a chain in which every hop was reported by a trusted one; and when
  the proxy appends an untrusted client to a header, that client is the source whatever the header said
  before.\<close>

theorem forwarded_source_unforgeable:
  assumes "pe_effective_source peer = None" "pe_connected peer = Some c"
  shows "if sa_ip c \<notin> set (lc_trusted_proxies config) then resolve_peer_source to_str config peer = Ok c
    else (\<forall>s. resolve_peer_source to_str config peer = Ok s \<longrightarrow>
        (\<exists>header hops. Option.bind (pe_forwarded peer) to_str = Some header \<and> hops \<noteq> [] \<and> s = last hops
          \<and> hop_chain (lc_trusted_proxies config) c (split_on (CHR '','') header) hops \<and> sa_port s \<noteq> 0))
      \<and> (\<forall>anything e client. \<not> pe_x_forwarded_for_present peer
        \<and> Option.bind (pe_forwarded peer) to_str = Some (anything @ CHR '','' # e) \<and> CHR '','' \<notin> set e
        \<and> length (anything @ CHR '','' # e) \<le> 4096 \<and> length (split_on (CHR '','') anything) < 32
        \<and> forwarded_hop e = Ok client \<and> sa_ip client \<notin> set (lc_trusted_proxies config)
        \<longrightarrow> resolve_peer_source to_str config peer = Ok client)"
proof (cases "sa_ip c \<in> set (lc_trusted_proxies config)")
  case True
  then show ?thesis using source_chain [OF assms True] source_appended [OF assms True] by simp
next
  case False
  then show ?thesis using assms by (simp add: resolve_peer_source_def)
qed

definition example_config :: loft_config where
  "example_config = (loft_config_new (replicate 32 9) example_origin)\<lparr>lc_trusted_proxies := [V4 127 0 0 1]\<rparr>"

definition example_peer :: peer where
  "example_peer = \<lparr>pe_connected = Some \<lparr>sa_ip = V4 127 0 0 1, sa_port = 4000, sa_scope = 0\<rparr>,
     pe_forwarded = Some [1], pe_x_forwarded_for_present = False, pe_effective_source = None\<rparr>"

definition example_header :: "bytes \<Rightarrow> string option" where
  "example_header b = Some ''for=10.0.0.1:1,for=203.0.113.7:5123''"

lemma example_client: "forwarded_hop ''for=203.0.113.7:5123'' = Ok \<lparr>sa_ip = V4 203 0 113 7, sa_port = 5123, sa_scope = 0\<rparr>"
proof -
  let ?v = "''203.0.113.7:5123''"
  have "forwarded_params 0 None (split_on (CHR '';'') ''for=203.0.113.7:5123'') = Ok (Some ?v)" by code_simp
  moreover have "read_ipv4_addr ?v = Some ([203, 0, 113, 7], '':5123'')" by code_simp
  moreover have "read_digits 10 ''5123'' = ([5, 1, 2, 3], [])" by code_simp
  then have "read_port '':5123'' = Some (5123, [])" by (simp add: read_port_def read_given_char_def read_number_def)
  ultimately show ?thesis
    by (simp add: forwarded_hop_def parse_forwarded_socket_def parse_socket_def read_socket_v4_def is_ascii_control_def
      is_unspecified_def is_multicast_def word_le_nat_alt)
qed

theorem forwarded_source_unforgeable_witness:
  "resolve_peer_source example_header example_config example_peer = Ok \<lparr>sa_ip = V4 203 0 113 7, sa_port = 5123, sa_scope = 0\<rparr>"
proof -
  let ?c = "\<lparr>sa_ip = V4 127 0 0 1, sa_port = 4000, sa_scope = 0\<rparr> :: socket_addr"
  have p: "pe_effective_source example_peer = None" "pe_connected example_peer = Some ?c" by (simp_all add: example_peer_def)
  have t: "lc_trusted_proxies example_config = [V4 127 0 0 1]" by (simp add: example_config_def)
  have h: "Option.bind (pe_forwarded example_peer) example_header = Some (''for=10.0.0.1:1'' @ CHR '','' # ''for=203.0.113.7:5123'')"
    by (simp add: example_peer_def example_header_def)
  have x: "\<not> pe_x_forwarded_for_present example_peer" by (simp add: example_peer_def)
  have m: "CHR '','' \<notin> set ''for=203.0.113.7:5123''" "length (''for=10.0.0.1:1'' @ CHR '','' # ''for=203.0.113.7:5123'') \<le> 4096"
    "length (split_on (CHR '','') ''for=10.0.0.1:1'') < 32" by simp_all
  have "\<not> sa_ip ?c \<notin> set (lc_trusted_proxies example_config)" by (simp add: t)
  note r = forwarded_source_unforgeable [OF p, of example_config example_header, unfolded if_not_P [OF this], THEN conjunct2, rule_format]
  show ?thesis by (rule r, intro conjI, rule x, rule h, rule m, rule m, rule m, rule example_client) (simp add: t)
qed

end
