(* ===== verification/Loft_Server.thy ===== *)
theory Loft_Server
  imports Loft_Runs Peer_Source Decimal
begin

text \<open>
  The request handlers of \<^verbatim>\<open>pigeonpost-loft/src/server.rs\<close>, the attribution check of \<^verbatim>\<open>attribution.rs\<close> and the bodies of
  \<^verbatim>\<open>wire.rs\<close>. A handler is a sequence of separate store transactions with other requests in between, so the
  databases it meets are arguments: one per transaction, in order. Work handed to a blocking lane may be
  refused (\<open>Busy\<close>) or lost (\<open>Died\<close>); both are arguments too. Clocks are arguments; a \<^verbatim>\<open>usize\<close> is a 64-bit word.
\<close>

section \<open>Attribution at admission\<close>

datatype compliance_key_status = Active | Retired | Revoked

record resolved_attribution_key =
  rk_public_key :: bytes
  rk_not_before_ms :: u64
  rk_not_after_ms :: u64
  rk_status :: compliance_key_status

datatype attribution_resolution_error = ResolutionUnavailable

record attribution_resolver =
  rs_configured :: bool
  rs_readiness :: "u64 \<Rightarrow> attribution_resolution_error + unit"
  rs_resolve :: "compliance_key_id \<Rightarrow> attribution_resolution_error + resolved_attribution_key option"

definition unconfigured_resolver :: attribution_resolver where
  "unconfigured_resolver = \<lparr>rs_configured = False, rs_readiness = (\<lambda>_. Ok ()), rs_resolve = (\<lambda>_. Ok None)\<rparr>"

definition validate_attribution ::
  "crypto \<Rightarrow> wrap \<Rightarrow> attribution_requirement option \<Rightarrow> attribution_resolver \<Rightarrow> u64 \<Rightarrow> loft_error + unit" where
  "validate_attribution C w requirement resolver now_ms =
     (case w_attribution w of
        None \<Rightarrow> if requirement \<noteq> None then Err AttributionRejected else Ok ()
      | Some blk \<Rightarrow>
     (case as_v3 blk of
        None \<Rightarrow> Err AttributionRejected
      | Some block \<Rightarrow>
     if \<not> is_ok (attribution_epoch_contains (b3_key_id block) now_ms) then Err AttributionRejected
     else if (case requirement of None \<Rightarrow> False | Some required \<Rightarrow> \<not> matches_key_id required (b3_key_id block))
     then Err AttributionRejected
     else if \<not> rs_configured resolver then Err AttributionUnavailable
     else and_then (map_err (rs_readiness resolver now_ms) AttributionUnavailable) (\<lambda>_.
       and_then (map_err (rs_resolve resolver (b3_key_id block)) AttributionUnavailable) (\<lambda>found.
       and_then (ok_or found AttributionUnavailable) (\<lambda>resolved.
       if rk_status resolved \<noteq> Active
         \<or> \<not> is_ok (validate_attribution_epoch (b3_key_id block) (rk_not_before_ms resolved) (rk_not_after_ms resolved))
         \<or> attribution_epoch_contains (b3_key_id block) now_ms \<noteq> Ok True
       then Err AttributionRejected
       else if sha256 C (rk_public_key resolved) \<noteq> b3_compliance_key_digest block then Err AttributionRejected
       else Ok ())))))"

section \<open>Blocking lanes and trace capture\<close>

datatype lane = Ran | Busy | Died

fun blocking :: "lane \<Rightarrow> loft_error + 'a \<Rightarrow> loft_error + 'a" where
  "blocking Ran r = r"
| "blocking Busy r = Err Overloaded"
| "blocking Died r = Err NotReady"

datatype trace_operation = TracePublish bytes bytes u32 | TraceFetch bytes | TracePutAgent | TraceClaim bytes

record trace_input =
  ti_timestamp_ms :: u64
  ti_connected_source :: socket_addr
  ti_operation :: trace_operation

text \<open>
  A job on the trace lane either ran in time, found no lane, ran past its deadline (its effects happen, its answer is
  lost) or was lost.
\<close>

datatype trace_lane = InTime | Saturated | Expired | Lost

record trace_env =
  te_enabled :: bool
  te_now_ms :: u64
  te_lane :: trace_lane
  te_ready :: bool
  te_batch :: trace_batch
  te_observed :: loft_db
  te_db :: loft_db
  te_captures :: "trace_input \<Rightarrow> bool"

definition run_trace_blocking :: "trace_env \<Rightarrow> u32 \<Rightarrow> trace_input \<Rightarrow> trace_batch \<times> loft_db \<times> (loft_error + unit)" where
  "run_trace_blocking env limit input =
     (let idle = (te_batch env, te_db env, Err TraceUnavailable);
          job = (if \<not> te_ready env then idle
                 else case charge_trace_admission (te_batch env) (te_observed env) (te_db env) (ti_timestamp_ms input) limit of
                     (b, db, Inl e) \<Rightarrow> (b, db, Inl e)
                   | (b, db, Inr _) \<Rightarrow> (b, db, if te_captures env input then Ok () else Err TraceUnavailable))
      in case te_lane env of
           InTime \<Rightarrow> job
         | Saturated \<Rightarrow> idle
         | Expired \<Rightarrow> (case job of (b, db, _) \<Rightarrow> (b, db, Err TraceUnavailable))
         | Lost \<Rightarrow> idle)"

definition capture_trace ::
  "(bytes \<Rightarrow> string option) \<Rightarrow> loft_config \<Rightarrow> peer \<Rightarrow> trace_env \<Rightarrow> trace_operation \<Rightarrow> trace_batch \<times> loft_db \<times> (loft_error + unit)" where
  "capture_trace to_str config peer env operation =
     (if \<not> te_enabled env then (te_batch env, te_db env, Ok ())
      else case resolve_peer_source to_str config peer of
          Inl e \<Rightarrow> (te_batch env, te_db env, Inl e)
        | Inr source \<Rightarrow> run_trace_blocking env (lc_global_requests_per_minute config)
            \<lparr>ti_timestamp_ms = te_now_ms env, ti_connected_source = source, ti_operation = operation\<rparr>)"

abbreviation captured ::
  "(bytes \<Rightarrow> string option) \<Rightarrow> loft_config \<Rightarrow> peer \<Rightarrow> trace_env \<Rightarrow> trace_operation \<Rightarrow> loft_error + unit" where
  "captured to_str config peer env operation \<equiv> snd (snd (capture_trace to_str config peer env operation))"

section \<open>Publishing\<close>

record publish_request =
  pq_wrap :: wrap
  pq_token :: "string option"

definition publish_request_from_json :: "json \<Rightarrow> publish_request option" where
  "publish_request_from_json j =
     Option.bind (struct_fields True [''wrap'', ''token''] j) (\<lambda>fs.
     Option.bind (field wrap_from_json ''wrap'' fs) (\<lambda>w.
     Option.bind (field_or (json_option json_string) None ''token'' fs) (\<lambda>token.
     Some \<lparr>pq_wrap = w, pq_token = token\<rparr>)))"

record prepared_publish =
  pp_wrap :: wrap
  pp_token :: "string option"
  pp_encoded_size :: nat
  pp_id :: bytes

definition prepare_publish :: "crypto \<Rightarrow> json_codec \<Rightarrow> bytes \<Rightarrow> u64 \<Rightarrow> loft_error + prepared_publish" where
  "prepare_publish C J body max_event_bytes =
     and_then (ok_or (Option.bind (from_slice J body) publish_request_from_json)
       (Core (MalformedEnvelope ''invalid publish request''))) (\<lambda>request.
     and_then (ok_or (map_option (to_vec J) (wrap_to_json (pq_wrap request))) Serialization) (\<lambda>encoded.
     if unat max_event_bytes < length encoded then Err (Core TooLarge)
     else and_then (from_core (verify_public C (pq_wrap request))) (\<lambda>_.
       Ok \<lparr>pp_wrap = pq_wrap request, pp_token = pq_token request, pp_encoded_size = length encoded,
           pp_id = wrap_id C (pq_wrap request)\<rparr>)))"

definition parse_presentation :: "string \<Rightarrow> bytes option" where
  "parse_presentation value = (if length value \<noteq> 64 then None else from_hex_pairs value)"

text \<open>The checks of a policy on a prepared message.\<close>

definition policy_admits ::
  "crypto \<Rightarrow> recipient_policy \<Rightarrow> prepared_publish \<Rightarrow> attribution_resolver \<Rightarrow> u64 \<Rightarrow> loft_error + unit" where
  "policy_admits C policy prepared resolver now_ms =
     and_then (from_core (verify_work C (pp_wrap prepared) (rp_pow_min policy))) (\<lambda>_.
     and_then (if rp_token_required policy
       then and_then (ok_or (Option.bind (pp_token prepared) parse_presentation) (Core (MalformedEnvelope ''missing token''))) (\<lambda>presented.
         if \<not> accepts_token policy presented then Err (Core (MalformedEnvelope ''token not live'')) else Ok ())
       else Ok ()) (\<lambda>_.
     if rp_attribution_required policy \<and> rp_attribution_requirement policy = None then Err AttributionRejected
     else validate_attribution C (pp_wrap prepared) (rp_attribution_requirement policy) resolver now_ms))"

definition validate_publish_policy ::
  "crypto \<Rightarrow> json_codec \<Rightarrow> loft_db \<Rightarrow> prepared_publish \<Rightarrow> attribution_resolver \<Rightarrow> u64 \<Rightarrow> loft_error + u64 option" where
  "validate_publish_policy C J db prepared resolver now_ms =
     and_then (store_policy C J db (w_recipient (pp_wrap prepared))) (\<lambda>found.
     let (policy, expected_seq) = (case found of
           Some policy \<Rightarrow> (policy, Some (rp_seq policy))
         | None \<Rightarrow> (permissive (w_recipient (pp_wrap prepared)), None))
     in and_then (policy_admits C policy prepared resolver now_ms) (\<lambda>_. Ok expected_seq))"

definition POLICY_ADMISSION_RETRIES :: nat where "POLICY_ADMISSION_RETRIES = 3"

text \<open>The databases and lanes one round of the admission loop meets.\<close>

record attempt =
  at_policy_lane :: lane
  at_policy_db :: loft_db
  at_now_ms :: u64
  at_admit_lane :: lane
  at_admit_db :: loft_db

fun publish_attempts ::
  "crypto \<Rightarrow> json_codec \<Rightarrow> attribution_resolver \<Rightarrow> prepared_publish \<Rightarrow> u64 \<Rightarrow> u64 \<Rightarrow> u64 \<Rightarrow> (loft_error + unit) \<Rightarrow> bool
     \<Rightarrow> attempt list \<Rightarrow> loft_error + loft_db \<times> bool" where
  "publish_attempts C J resolver prepared now expires_at cap trace traced [] = Err PolicyChanged"
| "publish_attempts C J resolver prepared now expires_at cap trace traced (a # rest) =
     and_then (blocking (at_policy_lane a) (validate_publish_policy C J (at_policy_db a) prepared resolver (at_now_ms a))) (\<lambda>expected.
     and_then (if traced then Ok ()
       else if 2 ^ 32 \<le> pp_encoded_size prepared then Err (Core TooLarge) else trace) (\<lambda>_.
     case blocking (at_admit_lane a) (admit C J (at_admit_db a) (pp_wrap prepared) (pp_id prepared) now expires_at cap expected) of
       Inr stored \<Rightarrow> Ok stored
     | Inl e \<Rightarrow> if e = PolicyChanged
         then publish_attempts C J resolver prepared now expires_at cap trace True rest
         else Err e))"

record publish_env =
  pv_lane :: lane
  pv_instant :: instant
  pv_now :: u64
  pv_attempts :: "attempt list"
  pv_trace :: trace_env

record publish_response =
  ps_id :: string
  ps_stored :: bool

definition publish ::
  "crypto \<Rightarrow> (bytes \<Rightarrow> string option) \<Rightarrow> json_codec \<Rightarrow> attribution_resolver \<Rightarrow> loft_config \<Rightarrow> ('s, bytes) admission_controller
     \<Rightarrow> publish_env \<Rightarrow> peer \<Rightarrow> bytes \<Rightarrow> ('s, bytes) admission_controller \<times> (loft_error + loft_db \<times> publish_response)" where
  "publish C to_str J resolver config ac env peer body =
     (case blocking (pv_lane env) (prepare_publish C J body (lc_max_event_bytes config)) of
        Inl e \<Rightarrow> (ac, Inl e)
      | Inr prepared \<Rightarrow>
     (case charge_recipient ac (w_recipient (pp_wrap prepared)) (word_of_nat (pp_encoded_size prepared)) (pv_instant env) of
        (ac', Inl e) \<Rightarrow> (ac', Inl e)
      | (ac', Inr _) \<Rightarrow>
     (ac',
      and_then (ok_or (Option.bind (checked_mul (lc_retention_days config) 86400) (checked_add (pv_now env))) (Core TooLarge)) (\<lambda>expires_at.
      and_then (publish_attempts C J resolver prepared (pv_now env) expires_at (lc_capacity_bytes config)
        (captured to_str config peer (pv_trace env)
          (TracePublish (pp_id prepared) (w_recipient (pp_wrap prepared)) (word_of_nat (pp_encoded_size prepared))))
        False (take POLICY_ADMISSION_RETRIES (pv_attempts env))) (\<lambda>(db, stored).
      Ok (db, \<lparr>ps_id = to_hex (pp_id prepared), ps_stored = stored\<rparr>))))))"

section \<open>Fetching\<close>

record fetch_request =
  fq_auth :: fetch_auth
  fq_limit :: "u64 option"

record fetch_response =
  fr_events :: "wrap list"
  fr_next_cursor :: u64
  fr_more :: bool

fun wraps_to_json :: "wrap list \<Rightarrow> json list option" where
  "wraps_to_json [] = Some []"
| "wraps_to_json (w # ws) = Option.bind (wrap_to_json w) (\<lambda>j. map_option (Cons j) (wraps_to_json ws))"

definition fetch_response_to_json :: "fetch_response \<Rightarrow> json option" where
  "fetch_response_to_json r =
     map_option (\<lambda>events. JObj [(''events'', JArr events), (''next_cursor'', JWord (fr_next_cursor r)), (''more'', JBool (fr_more r))])
       (wraps_to_json (fr_events r))"

definition clamp :: "u64 \<Rightarrow> u64 \<Rightarrow> u64 \<Rightarrow> u64" where
  "clamp v lo hi = (if v < lo then lo else if hi < v then hi else v)"

definition fetch_limit :: "loft_config \<Rightarrow> u64 option \<Rightarrow> u64" where
  "fetch_limit config limit =
     (let requested_limit = clamp (case limit of Some n \<Rightarrow> n | None \<Rightarrow> lc_default_fetch_limit config) 1 (lc_max_fetch_limit config);
          byte_limited = max (saturating_sub (lc_max_fetch_response_bytes config div lc_max_event_bytes config) 1) 1
      in min requested_limit byte_limited)"

definition fetch_page_response :: "json_codec \<Rightarrow> loft_db \<Rightarrow> bytes \<Rightarrow> u64 \<Rightarrow> u64 \<Rightarrow> loft_error + fetch_response" where
  "fetch_page_response J db recipient cursor limit =
     and_then (Loft_Store.fetch J db recipient cursor (unat (saturating_add limit 1))) (\<lambda>found.
     let events = take (unat limit) found in
     Ok \<lparr>fr_events = map se_wrap events,
         fr_next_cursor = (if events = [] then cursor else se_cursor (last events)),
         fr_more = unat limit < length found\<rparr>)"

record fetch_env =
  fv_now :: u64
  fv_lane :: lane
  fv_db :: loft_db
  fv_instants :: "instant \<times> instant \<times> instant"
  fv_trace :: trace_env

definition serve_fetch ::
  "crypto \<Rightarrow> url_parser \<Rightarrow> (bytes \<Rightarrow> string option) \<Rightarrow> json_codec \<Rightarrow> loft_config \<Rightarrow> (ip_addr, bytes) admission_controller
     \<Rightarrow> fetch_env \<Rightarrow> peer \<Rightarrow> fetch_request \<Rightarrow> (ip_addr, bytes) admission_controller \<times> (loft_error + bytes)" where
  "serve_fetch C parse to_str J config ac env peer req =
     (case from_core (fetch_auth_verify C parse (fq_auth req) (lc_pubkey config) (lc_origin config) (fv_now env div 60)) of
        Inl e \<Rightarrow> (ac, Inl e)
      | Inr owner \<Rightarrow>
     (case captured to_str config peer (fv_trace env) (TraceFetch owner) of
        Inl e \<Rightarrow> (ac, Inl e)
      | Inr _ \<Rightarrow>
     (case blocking (fv_lane env)
         (and_then (fetch_page_response J (fv_db env) owner (fa_cursor (fq_auth req)) (fetch_limit config (fq_limit req))) (\<lambda>response.
          and_then (ok_or (map_option (to_vec J) (fetch_response_to_json response)) Serialization) (\<lambda>encoded.
          if unat (lc_max_fetch_response_bytes config) < length encoded then Err (Core TooLarge) else Ok encoded))) of
        Inl e \<Rightarrow> (ac, Inl e)
      | Inr encoded \<Rightarrow>
          (case fv_instants env of (t1, t2, t3) \<Rightarrow>
            (case charge_egress ac (map_option sa_ip (pe_effective_source peer)) owner (word_of_nat (length encoded)) t1 t2 t3 of
               (ac', r) \<Rightarrow> (ac', and_then r (\<lambda>_. Ok encoded)))))))"

section \<open>Policies, agent records and rotations\<close>

definition set_policy :: "crypto \<Rightarrow> json_codec \<Rightarrow> loft_config \<Rightarrow> lane \<Rightarrow> loft_db \<Rightarrow> u64 \<Rightarrow> recipient_policy \<Rightarrow> loft_error + loft_db" where
  "set_policy C J config lane db now policy =
     and_then (from_core (policy_verify C policy None)) (\<lambda>_.
     blocking lane (put_policy C J db policy (lc_capacity_bytes config) now))"

definition MAX_ADDRESS_SEGMENT_BYTES :: nat where "MAX_ADDRESS_SEGMENT_BYTES = 256"

definition decode_address :: "string \<Rightarrow> loft_error + address" where
  "decode_address segment =
     (if MAX_ADDRESS_SEGMENT_BYTES < length segment then Err (Core TooLarge)
      else from_core (address_parse (case split_once (CHR ''-'') segment of
          Some (tier, body) \<Rightarrow> ''/'' @ tier @ ''/'' @ body
        | None \<Rightarrow> segment)))"

definition get_agent :: "json_codec \<Rightarrow> lane \<Rightarrow> loft_db \<Rightarrow> string \<Rightarrow> loft_error + agent_record" where
  "get_agent J lane db segment =
     and_then (decode_address segment) (\<lambda>address.
     and_then (blocking lane (store_agent_record J db address)) (\<lambda>found. ok_or found NotFound))"

definition put_agent ::
  "crypto \<Rightarrow> url_parser \<Rightarrow> (bytes \<Rightarrow> string option) \<Rightarrow> json_codec \<Rightarrow> loft_config \<Rightarrow> trace_env \<Rightarrow> lane \<Rightarrow> loft_db \<Rightarrow> u64 \<Rightarrow> peer
     \<Rightarrow> string \<Rightarrow> agent_record \<Rightarrow> loft_error + loft_db" where
  "put_agent C parse to_str J config trace lane db now peer segment record =
     and_then (decode_address segment) (\<lambda>address.
     and_then (from_core (agent_record_verify C parse record address)) (\<lambda>_.
     and_then (captured to_str config peer trace TracePutAgent) (\<lambda>_.
     blocking lane (put_agent_record C parse J db address record (lc_capacity_bytes config) now))))"

definition get_rotation :: "crypto \<Rightarrow> url_parser \<Rightarrow> json_codec \<Rightarrow> lane \<Rightarrow> loft_db \<Rightarrow> string \<Rightarrow> loft_error + rotation_record" where
  "get_rotation C parse J lane db segment =
     and_then (decode_address segment) (\<lambda>address.
     and_then (blocking lane (store_rotation_record C parse J db address)) (\<lambda>found. ok_or found NotFound))"

definition put_rotation ::
  "crypto \<Rightarrow> url_parser \<Rightarrow> (bytes \<Rightarrow> string option) \<Rightarrow> json_codec \<Rightarrow> loft_config \<Rightarrow> trace_env \<Rightarrow> lane \<Rightarrow> loft_db \<Rightarrow> u64 \<Rightarrow> peer
     \<Rightarrow> string \<Rightarrow> rotation_record \<Rightarrow> loft_error + loft_db" where
  "put_rotation C parse to_str J config trace lane db now peer segment record =
     and_then (decode_address segment) (\<lambda>address.
     and_then (from_core (verify_source_address C record address)) (\<lambda>_.
     and_then (captured to_str config peer trace TracePutAgent) (\<lambda>_.
     and_then (blocking lane (put_rotation_record C parse J db address record now (lc_capacity_bytes config))) (\<lambda>(db', _). Ok db'))))"

section \<open>Startup and readiness\<close>

text \<open>What the store's custody and connection probe, the trace sink and the backend answer.\<close>

record loft_runtime =
  lr_health :: "loft_error + unit"
  lr_trace_enabled :: bool
  lr_durable_trace :: bool
  lr_trace_ready :: bool

definition validate_startup :: "url_parser \<Rightarrow> loft_config \<Rightarrow> loft_runtime \<Rightarrow> attribution_resolver \<Rightarrow> loft_db \<Rightarrow> u64 \<Rightarrow> loft_error + unit" where
  "validate_startup parse config rt resolver db now_ms =
     and_then (validate_config parse config) (\<lambda>_.
     and_then (lr_health rt) (\<lambda>_.
     and_then (stats db) (\<lambda>s.
     and_then (ok_or (checked_add (control_bytes_used s) (control_bytes_reserved s))
       (Configuration ''loft control storage accounting overflow'')) (\<lambda>control_total.
     if lc_capacity_bytes config < bytes_used s \<or> lc_capacity_bytes config div CONTROL_STORAGE_DIVISOR < control_total
     then Err (Configuration ''persisted loft storage exceeds configured capacity'')
     else if lr_trace_enabled rt \<and> \<not> lr_durable_trace rt then Err (Configuration ''durable trace admission is unavailable'')
     else if \<not> lr_trace_ready rt then Err TraceUnavailable
     else if rs_configured resolver then map_err (rs_readiness resolver now_ms) AttributionUnavailable
     else Ok ()))))"

section \<open>What the handlers guarantee\<close>

text \<open>The policy in force for a recipient: the stored one, or the permissive default.\<close>

definition current_policy :: "crypto \<Rightarrow> json_codec \<Rightarrow> loft_db \<Rightarrow> bytes \<Rightarrow> loft_error + recipient_policy" where
  "current_policy C J db k = and_then (store_policy C J db k) (\<lambda>found. Ok (case found of Some p \<Rightarrow> p | None \<Rightarrow> permissive k))"

lemma validate_publish_policy_Ok:
  "validate_publish_policy C J db prepared resolver now_ms = Ok expected \<longleftrightarrow>
     (\<exists>found. store_policy C J db (w_recipient (pp_wrap prepared)) = Ok found \<and> expected = map_option rp_seq found
       \<and> policy_admits C (case found of Some p \<Rightarrow> p | None \<Rightarrow> permissive (w_recipient (pp_wrap prepared))) prepared resolver now_ms = Ok ())"
  by (auto simp: validate_publish_policy_def and_then_eq_Ok split: option.splits)

text \<open>What a policy that admits a message has checked of it.\<close>

definition policy_demands :: "crypto \<Rightarrow> recipient_policy \<Rightarrow> prepared_publish \<Rightarrow> bool" where
  "policy_demands C policy prepared \<longleftrightarrow>
     verify_work C (pp_wrap prepared) (rp_pow_min policy) = Ok ()
     \<and> (rp_token_required policy \<longrightarrow>
          (\<exists>presented. Option.bind (pp_token prepared) parse_presentation = Some presented \<and> accepts_token policy presented))
     \<and> (rp_attribution_required policy \<longrightarrow> rp_attribution_requirement policy \<noteq> None)
     \<and> (\<forall>required. rp_attribution_requirement policy = Some required \<longrightarrow>
          (\<exists>blk block. w_attribution (pp_wrap prepared) = Some blk \<and> as_v3 blk = Some block \<and> matches_key_id required (b3_key_id block)))"

lemma policy_admits_demands:
  assumes "policy_admits C policy prepared resolver now_ms = Ok ()"
  shows "policy_demands C policy prepared"
proof -
  have "verify_work C (pp_wrap prepared) (rp_pow_min policy) = Ok ()"
    and t: "rp_token_required policy \<longrightarrow>
      (\<exists>presented. Option.bind (pp_token prepared) parse_presentation = Some presented \<and> accepts_token policy presented)"
    and a: "rp_attribution_required policy \<longrightarrow> rp_attribution_requirement policy \<noteq> None"
      "validate_attribution C (pp_wrap prepared) (rp_attribution_requirement policy) resolver now_ms = Ok ()"
    using assms by (auto simp: policy_admits_def and_then_eq_Ok split: if_splits)
  moreover have "\<exists>blk block. w_attribution (pp_wrap prepared) = Some blk \<and> as_v3 blk = Some block \<and> matches_key_id required (b3_key_id block)"
    if "rp_attribution_requirement policy = Some required" for required
    using a(2) that by (auto simp: validate_attribution_def split: option.splits if_splits)
  ultimately show ?thesis by (simp add: policy_demands_def)
qed

lemma prepare_publish_Ok:
  assumes "prepare_publish C J body limit = Ok prepared"
  obtains j where "wrap_to_json (pp_wrap prepared) = Some j" "pp_encoded_size prepared = length (to_vec J j)"
    "length (to_vec J j) \<le> unat limit"
  using assms by (auto simp: prepare_publish_def and_then_eq_Ok not_less split: if_splits)

lemma publish_attempts_Ok:
  "publish_attempts C J resolver prepared now expires_at cap trace traced as = Ok (db', stored) \<Longrightarrow>
   \<exists>a \<in> set as. \<exists>expected. validate_publish_policy C J (at_policy_db a) prepared resolver (at_now_ms a) = Ok expected
     \<and> admit C J (at_admit_db a) (pp_wrap prepared) (pp_id prepared) now expires_at cap expected = Ok (db', stored)"
proof (induction as arbitrary: traced)
  case (Cons a as)
  obtain expected where v: "validate_publish_policy C J (at_policy_db a) prepared resolver (at_now_ms a) = Ok expected"
    and r: "(case blocking (at_admit_lane a) (admit C J (at_admit_db a) (pp_wrap prepared) (pp_id prepared) now expires_at cap expected) of
       Inr stored \<Rightarrow> Ok stored
     | Inl e \<Rightarrow> if e = PolicyChanged
         then publish_attempts C J resolver prepared now expires_at cap trace True as else Err e) = Ok (db', stored)"
    using Cons.prems by (cases "at_policy_lane a") (auto simp: and_then_eq_Ok)
  show ?case
  proof (cases "blocking (at_admit_lane a) (admit C J (at_admit_db a) (pp_wrap prepared) (pp_id prepared) now expires_at cap expected)")
    case (Inl e)
    then show ?thesis using r Cons.IH [of True] by (auto split: if_splits)
  next
    case (Inr x)
    then have "admit C J (at_admit_db a) (pp_wrap prepared) (pp_id prepared) now expires_at cap expected = Ok (db', stored)"
      using r by (cases "at_admit_lane a") simp_all
    then show ?thesis using v by auto
  qed
qed simp

lemma store_policy_row:
  assumes "store_policy C J db k = Ok found"
  shows "case found of None \<Rightarrow> map_of (db_policies db) k = None
    | Some p \<Rightarrow> \<exists>row. map_of (db_policies db) k = Some row \<and> decode_policy C J (pr_policy row) = Ok p \<and> pr_seq row = uint (rp_seq p)"
  using assms by (cases "map_of (db_policies db) k") (auto simp: store_policy_def and_then_eq_Ok to_i64_Ok split: if_splits)

text \<open>A policy whose sequence number is still the expected one is still the same policy.\<close>

lemma policy_unchanged:
  assumes inv: "loft_inv C parse J cap db'" and l: "later J db db'" and s: "store_policy C J db k = Ok found"
    and e: "expected_seq C J db' k (map_option rp_seq found)"
  shows "store_policy C J db' k = Ok found"
proof (cases found)
  case None
  then have "map_of (db_policies db') k = None" using e by (auto simp: expected_seq_def split: option.splits)
  then show ?thesis using None by (simp add: store_policy_def)
next
  case (Some p)
  then obtain row where row: "map_of (db_policies db) k = Some row" "decode_policy C J (pr_policy row) = Ok p" "pr_seq row = uint (rp_seq p)"
    using store_policy_row [OF s] by auto
  obtain row' where row': "map_of (db_policies db') k = Some row'" "row' = row \<or> pr_seq row < pr_seq row'"
    using l row(1) by (auto simp: later_def policy_later_def)
  obtain p' where p': "decode_policy C J (pr_policy row') = Ok p'" "rp_seq p' = rp_seq p"
    using e Some row'(1) by (auto simp: expected_seq_def)
  have "check_policy_row C J (k, row') = Ok ()" using inv map_of_SomeD [OF row'(1)] by (auto simp: loft_inv_def policies_ok_def)
  then have "pr_seq row' = uint (rp_seq p')"
    using p'(1) by (auto simp: check_policy_row_def decode_policy_def and_then_eq_Ok to_i64_Ok split: if_splits)
  then have "row' = row" using row'(2) p'(2) row(3) by auto
  then show ?thesis using s row(1) row'(1) by (simp add: store_policy_def)
qed

text \<open>Every handler that changes the store does it in one step of the store.\<close>

lemma handler_steps:
  "policy_typed p \<Longrightarrow> set_policy C J config lane db now p = Ok db' \<Longrightarrow> loft_step C parse J (lc_capacity_bytes config) db db'"
  "agent_record_typed r \<Longrightarrow> put_agent C parse to_str J config trace lane db now peer segment r = Ok db' \<Longrightarrow>
     loft_step C parse J (lc_capacity_bytes config) db db'"
  "rotation_typed t \<Longrightarrow> put_rotation C parse to_str J config trace lane db now peer segment t = Ok db' \<Longrightarrow>
     loft_step C parse J (lc_capacity_bytes config) db db'"
  by (cases lane; auto simp: set_policy_def put_agent_def put_rotation_def and_then_eq_Ok
      intro: step_policy step_agent step_rotation)+

text \<open>What a page holds of a stored row: the row's own envelope, for its owner and with its identifier.\<close>

definition mail_of :: "crypto \<Rightarrow> json_codec \<Rightarrow> bytes \<Rightarrow> event_row \<Rightarrow> wrap \<Rightarrow> bool" where
  "mail_of C J owner e w \<longleftrightarrow> Option.bind (from_slice J (ev_blob e)) wrap_from_json = Some w \<and> ev_id e = wrap_id C w
     \<and> ev_recipient e = owner \<and> w_recipient w = owner \<and> verify_public C w = Ok ()"

lemma row_mail_of:
  assumes "loft_inv C parse J cap db" "e \<in> set (mail_after db k cursor)"
  shows "mail_of C J k e (se_wrap (row_mail J e))" "uint (se_cursor (row_mail J e)) = ev_cursor e"
  using assms cursor_uint [OF assms(1), of e]
  by (auto simp: mail_of_def mail_after_def loft_inv_def mail_ok_def event_mail_def row_mail_def split: option.splits)

lemma fetch_page_response_spec:
  assumes inv: "loft_inv C parse J cap db" and r: "fetch_page_response J db k cursor limit = Ok resp"
    and lim: "0 < unat limit" "unat limit < 2 ^ 62"
  defines "page \<equiv> take (unat limit) (mail_after db k cursor)"
  shows "list_all2 (mail_of C J k) page (fr_events resp)
    \<and> sorted_wrt (<) (map ev_cursor page)
    \<and> uint (fr_next_cursor resp) = (if page = [] then uint cursor else ev_cursor (last page))
    \<and> mail_after db k (fr_next_cursor resp) = drop (unat limit) (mail_after db k cursor)
    \<and> (fr_more resp \<longleftrightarrow> mail_after db k (fr_next_cursor resp) \<noteq> [])"
proof -
  have cur: "uint cursor < 2 ^ 63" using r by (auto simp: fetch_page_response_def fetch_def and_then_eq_Ok to_i64_Ok)
  have l1: "unat (saturating_add limit 1) = Suc (unat limit)" using lim by (simp add: unat_saturating_add)
  let ?ms = "mail_after db k cursor" and ?n = "unat limit"
  have found: "fetch J db k cursor (Suc ?n) = Ok (map (row_mail J) (take (Suc ?n) ?ms))"
    and fetched: "fetch J db k cursor ?n = Ok (map (row_mail J) page)"
    using fetch_spec [OF inv cur] lim by (simp_all add: page_def)
  have held: "mail_of C J k e (se_wrap (row_mail J e)) \<and> uint (se_cursor (row_mail J e)) = ev_cursor e" if "e \<in> set page" for e
    using row_mail_of [OF inv] in_set_takeD [OF that [unfolded page_def]] by blast
  have tk: "take ?n (map (row_mail J) (take (Suc ?n) ?ms)) = map (row_mail J) page" by (simp add: page_def take_map)
  have "resp = \<lparr>fr_events = map se_wrap (map (row_mail J) page),
      fr_next_cursor = (if map (row_mail J) page = [] then cursor else se_cursor (last (map (row_mail J) page))),
      fr_more = ?n < length (take (Suc ?n) ?ms)\<rparr>"
    using r by (simp only: fetch_page_response_def l1 found and_then_Ok Let_def tk length_map sum.inject)
  then have resp: "fr_events resp = map (\<lambda>e. se_wrap (row_mail J e)) page"
    "fr_next_cursor resp = (if page = [] then cursor else se_cursor (row_mail J (last page)))" "fr_more resp \<longleftrightarrow> ?n < length ?ms"
    by (auto simp: last_map)
  have "list_all2 (mail_of C J k) page (fr_events resp)"
    unfolding resp(1) list_all2_map2 using held by (simp add: list.rel_refl_strong)
  moreover have nxt: "uint (fr_next_cursor resp) = (if page = [] then uint cursor else ev_cursor (last page))"
    using held [of "last page"] by (simp add: resp(2))
  moreover have "sorted_wrt (<) (map ev_cursor page)"
    using inv by (simp add: page_def mail_after_def loft_inv_def events_ok_def sorted_wrt_map sorted_wrt_filter sorted_wrt_take)
  moreover have "mail_after db k (fr_next_cursor resp) = drop ?n ?ms"
  proof (cases "page = []")
    case True
    then have "?ms = []" using lim(1) by (simp add: page_def)
    then show ?thesis using resp(2) True by simp
  next
    case False
    obtain es where es: "fetch J db k cursor ?n = Ok es" "es \<noteq> [] \<longrightarrow> mail_after db k (se_cursor (last es)) = drop (length es) ?ms"
      using fetch_page [OF inv cur, of ?n k] lim(2) by auto
    have "es = map (row_mail J) page" using es(1) fetched by simp
    moreover have "drop (length page) ?ms = drop ?n ?ms" by (simp add: page_def min_def)
    ultimately show ?thesis using es(2) False resp(2) by (simp add: last_map)
  qed
  ultimately show ?thesis using resp(3) by (simp add: not_le)
qed

lemma fetch_limit_bounds:
  assumes "validate_config parse config = Ok ()"
  shows "0 < unat (fetch_limit config limit)" "unat (fetch_limit config limit) \<le> 500"
proof -
  have m: "unat (min a b) = min (unat a) (unat b)" for a b :: u64 by (simp add: min_def word_le_nat_alt)
  have c: "0 < unat (clamp v 1 (lc_max_fetch_limit config))" "unat (clamp v 1 (lc_max_fetch_limit config)) \<le> 500" for v
    using validate_config_Ok(8,9) [OF assms] by (auto simp: clamp_def word_less_nat_alt)
  have "0 < unat (max b 1)" for b :: u64 by (simp add: max_def word_le_nat_alt)
  then show "0 < unat (fetch_limit config limit)" "unat (fetch_limit config limit) \<le> 500"
    using c [of "case limit of Some n \<Rightarrow> n | None \<Rightarrow> lc_default_fetch_limit config"] by (simp_all add: fetch_limit_def Let_def m min.coboundedI1)
qed

text \<open>The address of a key survives the path segment form in which a client sends it.\<close>

definition encode_address :: "address \<Rightarrow> string" where
  "encode_address address = map (\<lambda>c. if c = CHR ''/'' then CHR ''-'' else c) (dropWhile (\<lambda>c. c = CHR ''/'') address)"

lemma blocking_Ok [simp]: "blocking lane r = Ok x \<longleftrightarrow> lane = Ran \<and> r = Ok x"
  by (cases lane) simp_all

lemma publish_Ok:
  assumes "publish C to_str J resolver config ac env peer body = (ac', Ok (db', response))"
  obtains prepared expires where "prepare_publish C J body (lc_max_event_bytes config) = Ok prepared"
    "Option.bind (checked_mul (lc_retention_days config) 86400) (checked_add (pv_now env)) = Some expires"
    "publish_attempts C J resolver prepared (pv_now env) expires (lc_capacity_bytes config)
       (captured to_str config peer (pv_trace env)
         (TracePublish (pp_id prepared) (w_recipient (pp_wrap prepared)) (word_of_nat (pp_encoded_size prepared))))
       False (take POLICY_ADMISSION_RETRIES (pv_attempts env)) = Ok (db', ps_stored response)"
    "ps_id response = to_hex (pp_id prepared)"
    "charge_recipient ac (w_recipient (pp_wrap prepared)) (word_of_nat (pp_encoded_size prepared)) (pv_instant env) = (ac', Ok ())"
proof -
  obtain prepared where p: "blocking (pv_lane env) (prepare_publish C J body (lc_max_event_bytes config)) = Ok prepared"
    using assms by (cases "blocking (pv_lane env) (prepare_publish C J body (lc_max_event_bytes config))") (simp_all add: publish_def)
  obtain ac1 r where ch: "charge_recipient ac (w_recipient (pp_wrap prepared)) (word_of_nat (pp_encoded_size prepared)) (pv_instant env) = (ac1, r)"
    by force
  have r: "r = Ok ()" using assms by (cases r) (simp_all add: publish_def p ch)
  obtain expires where x: "Option.bind (checked_mul (lc_retention_days config) 86400) (checked_add (pv_now env)) = Some expires"
    using assms by (cases "Option.bind (checked_mul (lc_retention_days config) 86400) (checked_add (pv_now env))") (simp_all add: publish_def p ch r)
  show ?thesis
  proof (rule that [OF _ x])
    show "prepare_publish C J body (lc_max_event_bytes config) = Ok prepared" using p by simp
  qed (use assms in \<open>auto simp: publish_def p ch r x and_then_eq_Ok\<close>)
qed

lemma serve_fetch_Ok:
  assumes "serve_fetch C parse to_str J config ac env peer req = (ac', Ok encoded)"
  obtains owner response json where
    "fetch_auth_verify C parse (fq_auth req) (lc_pubkey config) (lc_origin config) (fv_now env div 60) = Ok owner"
    "captured to_str config peer (fv_trace env) (TraceFetch owner) = Ok ()"
    "fetch_page_response J (fv_db env) owner (fa_cursor (fq_auth req)) (fetch_limit config (fq_limit req)) = Ok response"
    "fetch_response_to_json response = Some json" "encoded = to_vec J json" "length encoded \<le> unat (lc_max_fetch_response_bytes config)"
    "case fv_instants env of (t1, t2, t3) \<Rightarrow>
       charge_egress ac (map_option sa_ip (pe_effective_source peer)) owner (word_of_nat (length encoded)) t1 t2 t3 = (ac', Ok ())"
proof -
  obtain owner where o: "fetch_auth_verify C parse (fq_auth req) (lc_pubkey config) (lc_origin config) (fv_now env div 60) = Ok owner"
    using assms by (cases "fetch_auth_verify C parse (fq_auth req) (lc_pubkey config) (lc_origin config) (fv_now env div 60)") (simp_all add: serve_fetch_def)
  have c: "captured to_str config peer (fv_trace env) (TraceFetch owner) = Ok ()"
    using assms by (cases "captured to_str config peer (fv_trace env) (TraceFetch owner)") (simp_all add: serve_fetch_def o)
  define page where "page = and_then (fetch_page_response J (fv_db env) owner (fa_cursor (fq_auth req)) (fetch_limit config (fq_limit req))) (\<lambda>response.
          and_then (ok_or (map_option (to_vec J) (fetch_response_to_json response)) Serialization) (\<lambda>encoded.
          if unat (lc_max_fetch_response_bytes config) < length encoded then Err (Core TooLarge) else Ok encoded))"
  obtain e where e: "blocking (fv_lane env) page = Ok e"
    using assms by (cases "blocking (fv_lane env) page") (simp_all add: serve_fetch_def o c page_def)
  obtain t1 t2 t3 where t: "fv_instants env = (t1, t2, t3)" by (cases "fv_instants env") auto
  obtain ac1 r where ch: "charge_egress ac (map_option sa_ip (pe_effective_source peer)) owner (word_of_nat (length e)) t1 t2 t3 = (ac1, r)"
    by force
  have q: "encoded = e" "ac1 = ac'" "r = Ok ()"
    using assms by (auto simp: serve_fetch_def o c page_def [symmetric] e t ch and_then_eq_Ok)
  moreover have "page = Ok e" using e by simp
  ultimately obtain response json where
    "fetch_page_response J (fv_db env) owner (fa_cursor (fq_auth req)) (fetch_limit config (fq_limit req)) = Ok response"
    "fetch_response_to_json response = Some json" "encoded = to_vec J json" "length encoded \<le> unat (lc_max_fetch_response_bytes config)"
    by (auto simp: page_def and_then_eq_Ok not_less split: if_splits)
  then show ?thesis using that [OF o c] ch t q by simp
qed

section \<open>Properties\<close>

text \<open>C6. No message slips past a policy change or past the recipient's limits. When publishing stores a message, the policy
  in force in the very database it is stored in admits it, even if the policy was replaced between the check and the
  write: the work the policy asks for is there, a token it accepts where it requires one, and an attribution under the
  required key where it requires that. The stored row is the encoding of the verified envelope, no longer than the event
  limit, for its recipient, and expires after the configured retention. The recipient's limiter was charged once for that
  message, for exactly the bytes stored, and accepted it; the controller after publishing is the one that charge left.\<close>

theorem publish_respects_policy:
  assumes "publish C to_str J resolver config ac env peer body = (ac', Ok (db', response))" "ps_stored response"
    and "loft_contract C J (lc_capacity_bytes config)"
    and "\<forall>a \<in> set (pv_attempts env). reachable C parse J (lc_capacity_bytes config) (at_policy_db a)
      \<and> (loft_step C parse J (lc_capacity_bytes config))\<^sup>*\<^sup>* (at_policy_db a) (at_admit_db a)"
  shows "\<exists>prepared a policy row. prepare_publish C J body (lc_max_event_bytes config) = Ok prepared \<and> a \<in> set (pv_attempts env)
    \<and> current_policy C J (at_admit_db a) (w_recipient (pp_wrap prepared)) = Ok policy
    \<and> policy_admits C policy prepared resolver (at_now_ms a) = Ok () \<and> policy_demands C policy prepared
    \<and> charge_recipient ac (w_recipient (pp_wrap prepared)) (word_of_nat (length (ev_blob row))) (pv_instant env) = (ac', Ok ())
    \<and> db_events db' = db_events (at_admit_db a) @ [row] \<and> ev_recipient row = w_recipient (pp_wrap prepared)
    \<and> map_option (to_vec J) (wrap_to_json (pp_wrap prepared)) = Some (ev_blob row)
    \<and> length (ev_blob row) \<le> unat (lc_max_event_bytes config)
    \<and> ev_id row = wrap_id C (pp_wrap prepared) \<and> verify_public C (pp_wrap prepared) = Ok ()
    \<and> ev_expires_at row = uint (pv_now env) + 86400 * uint (lc_retention_days config)"
proof -
  obtain prepared expires where p: "prepare_publish C J body (lc_max_event_bytes config) = Ok prepared"
    and x: "Option.bind (checked_mul (lc_retention_days config) 86400) (checked_add (pv_now env)) = Some expires"
    and at: "publish_attempts C J resolver prepared (pv_now env) expires (lc_capacity_bytes config)
        (captured to_str config peer (pv_trace env)
          (TracePublish (pp_id prepared) (w_recipient (pp_wrap prepared)) (word_of_nat (pp_encoded_size prepared))))
        False (take POLICY_ADMISSION_RETRIES (pv_attempts env)) = Ok (db', True)"
    and ch: "charge_recipient ac (w_recipient (pp_wrap prepared)) (word_of_nat (pp_encoded_size prepared)) (pv_instant env) = (ac', Ok ())"
    using publish_Ok [OF assms(1)] assms(2) by metis
  obtain a expected where a: "a \<in> set (pv_attempts env)"
    and v: "validate_publish_policy C J (at_policy_db a) prepared resolver (at_now_ms a) = Ok expected"
    and adm: "admit C J (at_admit_db a) (pp_wrap prepared) (pp_id prepared) (pv_now env) expires (lc_capacity_bytes config) expected = Ok (db', True)"
    using publish_attempts_Ok [OF at] by (auto dest: in_set_takeD)
  have inv: "loft_inv C parse J (lc_capacity_bytes config) (at_policy_db a)"
    by (rule reachable_inv [OF _ assms(3)]) (use assms(4) a in blast)
  have run: "(loft_step C parse J (lc_capacity_bytes config))\<^sup>*\<^sup>* (at_policy_db a) (at_admit_db a)" using assms(4) a by blast
  obtain found where f: "store_policy C J (at_policy_db a) (w_recipient (pp_wrap prepared)) = Ok found" "expected = map_option rp_seq found"
      "policy_admits C (case found of Some p \<Rightarrow> p | None \<Rightarrow> permissive (w_recipient (pp_wrap prepared))) prepared resolver (at_now_ms a) = Ok ()"
    using v by (auto simp: validate_publish_policy_Ok)
  obtain j where j: "wrap_to_json (pp_wrap prepared) = Some j" "pp_encoded_size prepared = length (to_vec J j)"
      "length (to_vec J j) \<le> unat (lc_max_event_bytes config)" by (rule prepare_publish_Ok [OF p])
  from adm j(1) obtain row where row: "db' = add_event (at_admit_db a) row" "ev_recipient row = w_recipient (pp_wrap prepared)"
      "ev_id row = wrap_id C (pp_wrap prepared)" "ev_expires_at row = uint expires" "verify_public C (pp_wrap prepared) = Ok ()"
      "expected_seq C J (at_admit_db a) (w_recipient (pp_wrap prepared)) expected" "ev_blob row = to_vec J j"
    by (cases rule: admit_cases) auto
  have "store_policy C J (at_admit_db a) (w_recipient (pp_wrap prepared)) = Ok found"
    using policy_unchanged [OF run_inv [OF run assms(3) inv] run_later [OF run assms(3) inv] f(1)] row(6) f(2) by simp
  moreover have "uint expires = uint (pv_now env) + 86400 * uint (lc_retention_days config)"
  proof -
    obtain secs where "checked_mul (lc_retention_days config) 86400 = Some secs" "checked_add (pv_now env) secs = Some expires"
      using x by (auto simp: bind_eq_Some_conv)
    then have "unat secs = unat (lc_retention_days config) * 86400" "unat expires = unat (pv_now env) + unat secs"
      using checked_mul_Some [of "lc_retention_days config" 86400 secs] by (simp_all add: checked_add_Some)
    then show ?thesis using uint_int_unat [of expires] uint_int_unat [of "pv_now env"] uint_int_unat [of "lc_retention_days config"] by linarith
  qed
  ultimately show ?thesis
    using p a f row ch j policy_admits_demands [OF f(3)] by (intro exI [of _ prepared] exI [of _ a] exI [of _ "case found of Some p \<Rightarrow> p | None \<Rightarrow> permissive (w_recipient (pp_wrap prepared))"]
      exI [of _ row]) (simp add: current_policy_def)
qed

text \<open>C13. Only the owner reads, and reading drains the mailbox in order. A served fetch carries the owner's signature over this loft,
  its origin, the minute and the cursor. The page is the front of the owner's stored mail after the cursor, up to the limit:
  its envelopes are, one by one and in the order of the cursors, the ones those rows hold, each valid and for the owner. The
  returned cursor is that of the last row served, or the one given when there is none; what is left after it is exactly the
  rest of the mail, and the more flag says whether that is empty. The encoded page is within the response limit and was
  charged, byte for byte, to the egress limits of the process, the source and the owner, which accepted it.\<close>

theorem fetch_serves_owner:
  assumes "serve_fetch C parse to_str J config ac env peer req = (ac', Ok encoded)"
    and "validate_config parse config = Ok ()"
    and "reachable C parse' J cap (fv_db env)" "loft_contract C J cap"
  shows "\<exists>owner response json page rest.
      fetch_auth_verify C parse (fq_auth req) (lc_pubkey config) (lc_origin config) (fv_now env div 60) = Ok owner
    \<and> ed_verify_strict C owner (fetch_payload owner (lc_pubkey config) (lc_origin config) (fa_minute (fq_auth req)) (fa_cursor (fq_auth req)))
        (fa_signature (fq_auth req))
    \<and> mail_after (fv_db env) owner (fa_cursor (fq_auth req)) = page @ rest
    \<and> length page = min (unat (fetch_limit config (fq_limit req))) (length (page @ rest))
    \<and> sorted_wrt (<) (map ev_cursor page)
    \<and> list_all2 (mail_of C J owner) page (fr_events response)
    \<and> uint (fr_next_cursor response) = (if page = [] then uint (fa_cursor (fq_auth req)) else ev_cursor (last page))
    \<and> mail_after (fv_db env) owner (fr_next_cursor response) = rest \<and> (fr_more response \<longleftrightarrow> rest \<noteq> [])
    \<and> fetch_response_to_json response = Some json \<and> encoded = to_vec J json
    \<and> length encoded \<le> unat (lc_max_fetch_response_bytes config)
    \<and> (case fv_instants env of (t1, t2, t3) \<Rightarrow>
         charge_egress ac (map_option sa_ip (pe_effective_source peer)) owner (word_of_nat (length encoded)) t1 t2 t3 = (ac', Ok ()))"
proof -
  obtain owner response json where o: "fetch_auth_verify C parse (fq_auth req) (lc_pubkey config) (lc_origin config) (fv_now env div 60) = Ok owner"
    and r: "fetch_page_response J (fv_db env) owner (fa_cursor (fq_auth req)) (fetch_limit config (fq_limit req)) = Ok response"
    and j: "fetch_response_to_json response = Some json" "encoded = to_vec J json" "length encoded \<le> unat (lc_max_fetch_response_bytes config)"
      "case fv_instants env of (t1, t2, t3) \<Rightarrow>
         charge_egress ac (map_option sa_ip (pe_effective_source peer)) owner (word_of_nat (length encoded)) t1 t2 t3 = (ac', Ok ())"
    using serve_fetch_Ok [OF assms(1)] by metis
  let ?n = "unat (fetch_limit config (fq_limit req))" and ?ms = "mail_after (fv_db env) owner (fa_cursor (fq_auth req))"
  have lim: "0 < ?n" "?n < 2 ^ 62" using fetch_limit_bounds [OF assms(2), of "fq_limit req"] by simp_all
  have sig: "ed_verify_strict C owner (fetch_payload owner (lc_pubkey config) (lc_origin config) (fa_minute (fq_auth req)) (fa_cursor (fq_auth req)))
      (fa_signature (fq_auth req))"
    using o by (auto simp: fetch_auth_verify_def Let_def verifying_key_from_bytes_def verify_Ok and_then_eq_Ok split: if_splits)
  show ?thesis
    using fetch_page_response_spec [OF reachable_inv [OF assms(3,4)] r lim] o sig j
    by (intro exI [of _ owner] exI [of _ response] exI [of _ json] exI [of _ "take ?n ?ms"] exI [of _ "drop ?n ?ms"]) simp
qed


text \<open>C22. A loft restarts on what it stored. Whatever the store has been through under a valid configuration, a loft opened on it with
  the same capacity passes its startup checks.\<close>

theorem startup_accepts_stored:
  assumes "validate_config parse config = Ok ()" "hash_contract C" "json_contract J"
    and "reachable C parse' J (lc_capacity_bytes config) db"
    and "lr_health rt = Ok ()" "lr_trace_ready rt" "lr_trace_enabled rt \<Longrightarrow> lr_durable_trace rt"
      "rs_configured resolver \<Longrightarrow> rs_readiness resolver now_ms = Ok ()"
  shows "validate_startup parse config rt resolver db now_ms = Ok ()"
proof -
  have "unat (lc_capacity_bytes config) < 2 ^ 63" using validate_config_Ok(3) [OF assms(1)] by simp
  then have c: "loft_contract C J (lc_capacity_bytes config)" using assms(2,3) by (simp add: loft_contract_def uint_less_numeral)
  obtain s where s: "stats db = Ok s" "unat (bytes_used s) \<le> unat (lc_capacity_bytes config)"
      "unat (control_bytes_used s) + unat (control_bytes_reserved s) \<le> unat (lc_capacity_bytes config) div 20"
    using stats_Ok [OF reachable_inv [OF assms(4) c]] c by (auto simp: loft_contract_def)
  define total where "total = control_bytes_used s + control_bytes_reserved s"
  have "unat (control_bytes_used s) + unat (control_bytes_reserved s) < 2 ^ 64"
    using s(3) \<open>unat (lc_capacity_bytes config) < 2 ^ 63\<close> by simp
  then have t: "checked_add (control_bytes_used s) (control_bytes_reserved s) = Some total"
      "unat total = unat (control_bytes_used s) + unat (control_bytes_reserved s)"
    by (simp_all add: checked_add_def total_def unat_add_fits)
  have "unat (lc_capacity_bytes config div CONTROL_STORAGE_DIVISOR) = unat (lc_capacity_bytes config) div 20"
    by (simp add: unat_div store_consts)
  then show ?thesis using assms(1,5-8) s t by (auto simp: validate_startup_def word_less_nat_alt not_less)
qed

section \<open>Witnesses\<close>

abbreviation example_ephemeral :: identity where
  "example_ephemeral \<equiv> from_seed (replicate 32 3)"

definition example_unsigned :: wrap where
  "example_unsigned = \<lparr>w_version = ENVELOPE_VERSION, w_ephemeral_pubkey = verifying_key toy example_ephemeral, w_recipient = replicate 32 2,
     w_nonce = replicate 24 3, w_ciphertext = replicate (16 + PAD_BLOCK) 7, w_created_at = 1700000000, w_signature = [],
     w_pow_nonce = 0, w_attribution = None\<rparr>"

definition example_post :: wrap where
  "example_post = example_unsigned\<lparr>w_signature :=
     (case public_payload example_unsigned of Inr m \<Rightarrow> sign toy example_ephemeral m | Inl _ \<Rightarrow> [])\<rparr>"

lemma example_post_fields [simp]:
  "w_version example_post = ENVELOPE_VERSION" "w_recipient example_post = replicate 32 2" "w_attribution example_post = None"
  "w_ciphertext example_post = replicate (16 + PAD_BLOCK) 7" "w_nonce example_post = replicate 24 3"
  "w_ephemeral_pubkey example_post = verifying_key toy example_ephemeral" "w_created_at example_post = 1700000000" "w_pow_nonce example_post = 0"
  by (simp_all add: example_post_def example_unsigned_def)

lemma example_post_signed:
  "verify_public toy example_post = Ok ()" "length (w_signature example_post) = 64"
proof -
  have "length (w_ciphertext example_unsigned) < 2 ^ 64" by (simp add: example_unsigned_def envelope_consts)
  then obtain m where m: "public_payload example_unsigned = Ok m"
    by (simp add: public_payload_def wrap_signing_payload_v3_def example_unsigned_def envelope_consts)
  then have s: "w_signature example_post = sign toy example_ephemeral m" by (simp add: example_post_def)
  show "length (w_signature example_post) = 64"
    using s signature_contractD(3) [of toy example_ephemeral] by simp
  have "verifying_key_from_bytes toy (replicate 32 2) = Ok (replicate 32 2)"
    by (simp add: verifying_key_from_bytes_def toy_def)
  moreover have "wrap_signing_payload_v3 ENVELOPE_VERSION (verifying_key toy example_ephemeral) (replicate 32 2) 1700000000
      (replicate 24 3) (replicate (16 + PAD_BLOCK) 7) None = Ok m"
    using m by (simp add: public_payload_def example_unsigned_def)
  ultimately show "verify_public toy example_post = Ok ()"
    using signature_contractD(2,4) [of toy example_ephemeral]
    by (simp add: verify_public_def s envelope_consts)
qed

definition example_loft_config :: loft_config where
  "example_loft_config = loft_config_new (replicate 32 2) example_origin"

lemma example_loft_config_valid: "validate_config example_parser example_loft_config = Ok ()"
  by (simp add: validate_config_def example_loft_config_def loft_config_new_def example_origin_valid config_consts checked_add_def
    saturating_mul_def word_less_nat_alt)

lemma example_config_contract: "loft_contract toy toy_json (lc_capacity_bytes example_loft_config)"
  by (simp add: loft_contract_def example_loft_config_def loft_config_new_def)

definition quiet :: trace_env where
  "quiet = \<lparr>te_enabled = False, te_now_ms = 1, te_lane = InTime, te_ready = True, te_batch = default_batch, te_observed = empty_db,
     te_db = empty_db, te_captures = (\<lambda>_. True)\<rparr>"

lemma captured_quiet [simp]: "captured to_str config peer quiet op = Ok ()"
  by (simp add: capture_trace_def quiet_def)

definition example_publish_env :: publish_env where
  "example_publish_env = \<lparr>pv_lane = Ran, pv_instant = 5, pv_now = 100,
     pv_attempts = replicate 3 \<lparr>at_policy_lane = Ran, at_policy_db = empty_db, at_now_ms = 100000, at_admit_lane = Ran, at_admit_db = empty_db\<rparr>,
     pv_trace = quiet\<rparr>"

lemma example_post_json:
  "\<exists>j. wrap_to_json example_post = Some j \<and> wrap_from_json j = Some example_post \<and> json_wf (JObj [(''wrap'', j)])
    \<and> json_size j \<le> 5000 \<and> length (to_vec toy_json j) \<le> 5000"
proof -
  have wf: "wrap_wf example_post" using example_post_signed(2) signature_contractD(1) [of toy example_ephemeral] by (simp add: wrap_wf_def)
  have c: "length (w_ciphertext example_post) \<le> MAX_ENVELOPE_CIPHERTEXT" by (simp add: envelope_consts)
  obtain j where j: "wrap_to_json example_post = Some j" "wrap_from_json j = Some example_post" using wrap_json_round_trip [OF wf c] by auto
  have w: "json_wf j" by (rule wrap_json_wf [OF wf j(1)]) simp
  have sz: "json_size j \<le> 5000"
    using j(1) example_post_signed(2) signature_contractD(1) [of toy example_ephemeral]
    by (auto simp: wrap_to_json_def envelope_consts bind_eq_Some_conv compact_serialize_Some length_to_hex)
  then have "length (to_vec toy_json j) \<le> 5000" using toy_json_contract w by (auto simp: json_contract_def intro: order_trans)
  then show ?thesis using j w sz by (auto simp: fits_u32_def)
qed

lemma example_prepared:
  "\<exists>body prepared. prepare_publish toy toy_json body (lc_max_event_bytes example_loft_config) = Ok prepared \<and> pp_wrap prepared = example_post
    \<and> pp_id prepared = wrap_id toy example_post \<and> pp_encoded_size prepared \<le> 5000"
proof -
  obtain j where j: "wrap_to_json example_post = Some j" "wrap_from_json j = Some example_post" "json_wf (JObj [(''wrap'', j)])"
      "length (to_vec toy_json j) \<le> 5000" using example_post_json by blast
  have "from_slice toy_json (to_vec toy_json (JObj [(''wrap'', j)])) = Some (JObj [(''wrap'', j)])"
    using toy_json_contract j(3) by (simp add: json_contract_def)
  then have "prepare_publish toy toy_json (to_vec toy_json (JObj [(''wrap'', j)])) (lc_max_event_bytes example_loft_config) =
      Ok \<lparr>pp_wrap = example_post, pp_token = None, pp_encoded_size = length (to_vec toy_json j), pp_id = wrap_id toy example_post\<rparr>"
    using j example_post_signed(1)
    by (simp add: prepare_publish_def publish_request_from_json_def struct_fields_def field_def field_or_def
      example_loft_config_def loft_config_new_def config_consts)
  then show ?thesis using j(4) by (intro exI) (auto simp del: One_nat_def)
qed

lemma example_admitted:
  "\<exists>j row. wrap_to_json example_post = Some j \<and> wrap_from_json j = Some example_post \<and> json_wf j \<and> json_size j \<le> 5000
    \<and> admit toy toy_json empty_db example_post (wrap_id toy example_post) 100 2592100 (lc_capacity_bytes example_loft_config) None =
      Ok (add_event empty_db row, True)
    \<and> ev_cursor row = 1 \<and> ev_recipient row = replicate 32 2 \<and> ev_blob row = to_vec toy_json j"
proof -
  obtain j where j: "wrap_to_json example_post = Some j" "wrap_from_json j = Some example_post" "json_wf (JObj [(''wrap'', j)])"
    "json_size j \<le> 5000" "length (to_vec toy_json j) \<le> 5000" using example_post_json by blast
  define row where "row = \<lparr>ev_cursor = db_last_cursor empty_db + 1, ev_id = wrap_id toy example_post, ev_recipient = w_recipient example_post,
      ev_stored_at = uint (100 :: u64), ev_expires_at = uint (2592100 :: u64), ev_size = int (length (to_vec toy_json j)) + 256,
      ev_blob = to_vec toy_json j\<rparr>"
  have "admit toy toy_json empty_db example_post (wrap_id toy example_post) 100 2592100 (lc_capacity_bytes example_loft_config) None =
    Ok (add_event empty_db row, True)"
    unfolding row_def using j(5) by (intro admit_fresh [OF example_post_signed(1) j(1)])
      (simp_all add: empty_db_def expected_seq_def counters_ok_def example_loft_config_def loft_config_new_def)
  then show ?thesis using j by (intro exI [of _ j] exI [of _ row]) (simp add: row_def empty_db_def)
qed

lemma example_published:
  "\<exists>body ac' db' response. publish toy example_header toy_json unconfigured_resolver example_loft_config
      (controller_new example_loft_config 0 :: (ip_addr, bytes) admission_controller) example_publish_env example_peer body = (ac', Ok (db', response))
    \<and> ps_stored response"
proof -
  obtain body prepared where p: "prepare_publish toy toy_json body (lc_max_event_bytes example_loft_config) = Ok prepared"
      "pp_wrap prepared = example_post" "pp_id prepared = wrap_id toy example_post" "pp_encoded_size prepared \<le> 5000"
    using example_prepared by blast
  define size where "size = (word_of_nat (pp_encoded_size prepared) :: u64)"
  have size: "unat size \<le> 5000" using p(4) unat_u64 [of "pp_encoded_size prepared"] by (simp add: size_def)
  have ch: "\<exists>ac'. charge_recipient (controller_new example_loft_config 0 :: (ip_addr, bytes) admission_controller) k size 5 = (ac', Ok ())" for k
    using size by (simp add: charge_recipient_def controller_new_def keyed_charge_def keyed_new_def charge_entry_def make_room_def note_insert_def
      bucket_charge_def bucket_roll_def bucket_fresh_def recipient_limits_def example_loft_config_def loft_config_new_def config_consts Let_def
      WINDOW_def word_less_nat_alt unat_saturating_add)
  obtain row where adm: "admit toy toy_json empty_db example_post (wrap_id toy example_post) 100 2592100
      (lc_capacity_bytes example_loft_config) None = Ok (add_event empty_db row, True)" using example_admitted by blast
  have "validate_publish_policy toy toy_json empty_db prepared unconfigured_resolver 100000 = Ok None"
    by (simp add: validate_publish_policy_def store_policy_def empty_db_def policy_admits_def permissive_def verify_work_def pow_verify_def
      validate_attribution_def p(2))
  then have at: "publish_attempts toy toy_json unconfigured_resolver prepared 100 2592100 (lc_capacity_bytes example_loft_config) (Ok ()) False
      (take POLICY_ADMISSION_RETRIES (pv_attempts example_publish_env)) = Ok (fst (projr (admit toy toy_json empty_db example_post
        (wrap_id toy example_post) 100 2592100 (lc_capacity_bytes example_loft_config) None)), True)"
    using p(4) by (simp add: example_publish_env_def POLICY_ADMISSION_RETRIES_def numeral_3_eq_3 adm p(2,3))
  have x: "Option.bind (checked_mul (lc_retention_days example_loft_config) 86400) (checked_add 100) = Some 2592100"
    by (simp add: example_loft_config_def loft_config_new_def checked_mul_def checked_add_def)
  have e: "pv_lane example_publish_env = Ran" "pv_instant example_publish_env = 5" "pv_now example_publish_env = 100"
      "pv_trace example_publish_env = quiet"
    by (simp_all add: example_publish_env_def)
  obtain ac' where ac: "charge_recipient (controller_new example_loft_config 0 :: (ip_addr, bytes) admission_controller)
      (w_recipient (pp_wrap prepared)) size 5 = (ac', Ok ())" using ch by blast
  have "publish toy example_header toy_json unconfigured_resolver example_loft_config
      (controller_new example_loft_config 0 :: (ip_addr, bytes) admission_controller) example_publish_env example_peer body =
      (ac', Ok (fst (projr (admit toy toy_json empty_db example_post (wrap_id toy example_post) 100 2592100
        (lc_capacity_bytes example_loft_config) None)), \<lparr>ps_id = to_hex (pp_id prepared), ps_stored = True\<rparr>))"
    by (simp only: publish_def e blocking.simps p(1) sum.case size_def [symmetric] ac prod.case x ok_or_simps and_then_Ok captured_quiet at)
  then show ?thesis by (intro exI) auto
qed

theorem publish_respects_policy_witness:
  "\<exists>body ac' db' response row. publish toy example_header toy_json unconfigured_resolver example_loft_config
      (controller_new example_loft_config 0 :: (ip_addr, bytes) admission_controller) example_publish_env example_peer body = (ac', Ok (db', response))
    \<and> db_events db' = [row] \<and> ev_expires_at row = 2592100 \<and> length (ev_blob row) \<le> unat (lc_max_event_bytes example_loft_config)
    \<and> charge_recipient (controller_new example_loft_config 0) (ev_recipient row) (word_of_nat (length (ev_blob row))) 5 = (ac', Ok ())"
proof -
  obtain body ac' db' response where p: "publish toy example_header toy_json unconfigured_resolver example_loft_config
      (controller_new example_loft_config 0 :: (ip_addr, bytes) admission_controller) example_publish_env example_peer body = (ac', Ok (db', response))"
    "ps_stored response" using example_published by blast
  have r: "\<forall>a \<in> set (pv_attempts example_publish_env).
      reachable toy example_parser toy_json (lc_capacity_bytes example_loft_config) (at_policy_db a)
      \<and> (loft_step toy example_parser toy_json (lc_capacity_bytes example_loft_config))\<^sup>*\<^sup>* (at_policy_db a) (at_admit_db a)"
    and e: "a \<in> set (pv_attempts example_publish_env) \<Longrightarrow> at_admit_db a = empty_db" for a
    using reachable_empty by (auto simp: example_publish_env_def)
  have "\<exists>(prepared :: prepared_publish) (a :: attempt) (row :: event_row). a \<in> set (pv_attempts example_publish_env)
      \<and> charge_recipient (controller_new example_loft_config 0 :: (ip_addr, bytes) admission_controller) (w_recipient (pp_wrap prepared))
        (word_of_nat (length (ev_blob row))) (pv_instant example_publish_env) = (ac', Ok ())
      \<and> db_events db' = db_events (at_admit_db a) @ [row] \<and> ev_recipient row = w_recipient (pp_wrap prepared)
      \<and> length (ev_blob row) \<le> unat (lc_max_event_bytes example_loft_config)
      \<and> ev_expires_at row = uint (pv_now example_publish_env) + 86400 * uint (lc_retention_days example_loft_config)"
    using publish_respects_policy [OF p example_config_contract r]
    by (elim exE conjE) (intro exI conjI; assumption)
  then obtain prepared :: prepared_publish and a :: attempt and row :: event_row where row: "a \<in> set (pv_attempts example_publish_env)"
      "charge_recipient (controller_new example_loft_config 0 :: (ip_addr, bytes) admission_controller) (w_recipient (pp_wrap prepared))
        (word_of_nat (length (ev_blob row))) (pv_instant example_publish_env) = (ac', Ok ())"
      "db_events db' = db_events (at_admit_db a) @ [row]" "ev_recipient row = w_recipient (pp_wrap prepared)"
      "length (ev_blob row) \<le> unat (lc_max_event_bytes example_loft_config)"
      "ev_expires_at row = uint (pv_now example_publish_env) + 86400 * uint (lc_retention_days example_loft_config)" by blast
  have "db_events db' = [row]" using row(3) e [OF row(1)] by (simp add: empty_db_def)
  moreover have "pv_instant example_publish_env = 5" "pv_now example_publish_env = 100" "lc_retention_days example_loft_config = 30"
    by (simp_all add: example_publish_env_def example_loft_config_def loft_config_new_def)
  ultimately show ?thesis using p(1) row(2,4-6)
    by (intro exI [of _ body] exI [of _ ac'] exI [of _ db'] exI [of _ response] exI [of _ row]) simp
qed

text \<open>A key address survives the path segment in which a client sends it to a loft.\<close>

theorem address_segment_round_trip:
  assumes "address_parse s = Ok a"
  shows "decode_address (encode_address a) = Ok a"
proof -
  obtain bs where a: "a = KEY_PREFIX @ encode bs" "length bs = 16" using assms by (auto simp: address_parse_Ok)
  have al: "CHR ''/'' \<notin> set (encode bs)"
    using encode_alphabet [of bs] by (auto simp: ALPHABET_def)
  have e: "encode_address a = ''k-'' @ encode bs"
    using al by (auto simp: a(1) encode_address_def KEY_PREFIX_def intro!: map_idI)
  have n: "length (encode bs) = 26" using a(2) by (simp add: length_encode)
  have "address_parse (KEY_PREFIX @ encode bs) = Ok (KEY_PREFIX @ encode bs)"
    using n a(2) decode_encode [of bs] by (auto simp: address_parse_Ok)
  then show ?thesis unfolding e by (simp add: decode_address_def a(1) split_once_def MAX_ADDRESS_SEGMENT_BYTES_def n KEY_PREFIX_def)
qed

theorem address_segment_round_trip_witness:
  "decode_address (encode_address (address_from_pubkey toy (replicate 32 1))) = Ok (address_from_pubkey toy (replicate 32 1))"
  by (rule address_segment_round_trip [OF address_parse_derived]) simp

definition example_fetch_env :: "loft_db \<Rightarrow> fetch_env" where
  "example_fetch_env db = \<lparr>fv_now = 6180, fv_lane = Ran, fv_db = db, fv_instants = (1, 2, 3), fv_trace = quiet\<rparr>"

text \<open>The owner's request for everything, made at minute 100.\<close>

lemma example_request:
  "\<exists>a. fetch_auth_verify toy example_parser a (replicate 32 2) example_origin 103 = Ok (replicate 32 2)
    \<and> fa_cursor a = 0 \<and> fa_loft_origin a = example_origin \<and> fa_loft_pubkey a = replicate 32 2 \<and> fa_minute a = 100
    \<and> fa_recipient a = replicate 32 2"
proof -
  obtain a where a: "fetch_auth_new toy example_parser (from_seed (replicate 32 2)) (replicate 32 2) example_origin 100 0 = Ok a"
    by (simp add: fetch_auth_new_def example_origin_valid Let_def)
  have "fetch_auth_verify toy example_parser a (replicate 32 2) example_origin 103 = Ok (verifying_key toy (from_seed (replicate 32 2)))"
    by (rule fetch_auth_accepted [OF _ _ a]) (simp_all add: from_seed_def abs_diff_def)
  with a show ?thesis by (auto simp: fetch_auth_new_def example_origin_valid Let_def)
qed

lemma example_egress:
  assumes "unat n \<le> 6000"
  shows "\<exists>ac'. charge_egress (controller_new example_loft_config 0) None (replicate 32 2) n 1 2 3 = (ac', Ok ())"
  using assms by (simp add: charge_egress_def controller_new_def keyed_charge_bytes_def keyed_new_def charge_entry_def make_room_def note_insert_def
    bucket_charge_bytes_def bucket_roll_def bucket_fresh_def recipient_limits_def global_limits_def example_loft_config_def loft_config_new_def
    config_consts Let_def WINDOW_def word_less_nat_alt unat_saturating_add)

text \<open>A loft that stores one message, whose page the owner's request is served.\<close>

lemma example_page:
  "\<exists>db row j. reachable toy example_parser toy_json (lc_capacity_bytes example_loft_config) db \<and> db_events db = [row]
    \<and> ev_recipient row = replicate 32 2 \<and> ev_cursor row = 1
    \<and> and_then (fetch_page_response toy_json db (replicate 32 2) 0 (fetch_limit example_loft_config None)) (\<lambda>response.
      and_then (ok_or (map_option (to_vec toy_json) (fetch_response_to_json response)) Serialization) (\<lambda>encoded.
      if unat (lc_max_fetch_response_bytes example_loft_config) < length encoded then Err (Core TooLarge) else Ok encoded)) = Ok (to_vec toy_json j)
    \<and> length (to_vec toy_json j) \<le> 6000"
proof -
  obtain j row where j: "wrap_to_json example_post = Some j" "wrap_from_json j = Some example_post" "json_wf j" "json_size j \<le> 5000"
    and adm: "admit toy toy_json empty_db example_post (wrap_id toy example_post) 100 2592100 (lc_capacity_bytes example_loft_config) None =
      Ok (add_event empty_db row, True)"
    and row: "ev_cursor row = 1" "ev_recipient row = replicate 32 2" "ev_blob row = to_vec toy_json j" using example_admitted by blast
  define db where "db = add_event empty_db row"
  have "wrap_wf example_post" using example_post_signed(2) signature_contractD(1) [of toy example_ephemeral] by (simp add: wrap_wf_def)
  then have r: "reachable toy example_parser toy_json (lc_capacity_bytes example_loft_config) db"
    unfolding db_def by (rule reachable_step [OF reachable_empty step_admit [OF _ adm]])
  have ev: "db_events db = [row]" by (simp add: db_def empty_db_def)
  have m: "row_mail toy_json row = \<lparr>se_cursor = 1, se_wrap = example_post\<rparr>"
    using toy_json_contract j(2,3) by (simp add: row_mail_def row json_contract_def)
  let ?n = "unat (fetch_limit example_loft_config None)"
  have n: "0 < ?n" "?n \<le> 500" using fetch_limit_bounds [OF example_loft_config_valid, of None] by simp_all
  then have n1: "unat (saturating_add (fetch_limit example_loft_config None) 1) = Suc ?n" by (simp add: unat_saturating_add)
  have "Loft_Store.fetch toy_json db (replicate 32 2) 0 (Suc ?n) = Ok [\<lparr>se_cursor = 1, se_wrap = example_post\<rparr>]"
    using fetch_spec [OF reachable_inv [OF r example_config_contract], of 0 "Suc ?n" "replicate 32 2"] n
    by (simp add: mail_after_def ev row m)
  then have f: "fetch_page_response toy_json db (replicate 32 2) 0 (fetch_limit example_loft_config None) =
      Ok \<lparr>fr_events = [example_post], fr_next_cursor = 1, fr_more = False\<rparr>"
    using n by (simp add: fetch_page_response_def n1 take_Cons')
  define page where "page = JObj [(''events'', JArr [j]), (''next_cursor'', JWord (1 :: u64)), (''more'', JBool False)]"
  have "json_wf page" "json_size page \<le> 6000" using j(3,4) by (simp_all add: page_def fits_u32_def)
  then have len: "length (to_vec toy_json page) \<le> 6000" using toy_json_contract by (auto simp: json_contract_def intro: order_trans)
  moreover have "unat (lc_max_fetch_response_bytes example_loft_config) \<ge> 6000" by (simp add: example_loft_config_def loft_config_new_def)
  ultimately show ?thesis using r ev row j(1)
    by (intro exI [of _ db] exI [of _ row] exI [of _ page]) (simp add: f fetch_response_to_json_def page_def)
qed

lemma example_fetched:
  "\<exists>db row req ac' encoded. reachable toy example_parser toy_json (lc_capacity_bytes example_loft_config) db \<and> db_events db = [row]
     \<and> ev_recipient row = replicate 32 2 \<and> ev_cursor row = 1 \<and> fa_cursor (fq_auth req) = 0 \<and> fq_limit req = None
     \<and> fetch_auth_verify toy example_parser (fq_auth req) (replicate 32 2) example_origin 103 = Ok (replicate 32 2)
     \<and> serve_fetch toy example_parser example_header toy_json example_loft_config
         (controller_new example_loft_config 0) (example_fetch_env db) example_peer req = (ac', Ok encoded)"
proof -
  obtain a where a: "fetch_auth_verify toy example_parser a (replicate 32 2) example_origin 103 = Ok (replicate 32 2)" "fa_cursor a = 0"
    using example_request by blast
  define req where "req = \<lparr>fq_auth = a, fq_limit = None\<rparr>"
  obtain db row j where db: "reachable toy example_parser toy_json (lc_capacity_bytes example_loft_config) db" "db_events db = [row]"
      "ev_recipient row = replicate 32 2" "ev_cursor row = 1"
    and page: "and_then (fetch_page_response toy_json db (replicate 32 2) 0 (fetch_limit example_loft_config None)) (\<lambda>response.
      and_then (ok_or (map_option (to_vec toy_json) (fetch_response_to_json response)) Serialization) (\<lambda>encoded.
      if unat (lc_max_fetch_response_bytes example_loft_config) < length encoded then Err (Core TooLarge) else Ok encoded)) = Ok (to_vec toy_json j)"
    and len: "length (to_vec toy_json j) \<le> 6000"
    using example_page by blast
  define n where "n = (word_of_nat (length (to_vec toy_json j)) :: u64)"
  have "unat n \<le> 6000" using len unat_u64 [of "length (to_vec toy_json j)"] by (simp add: n_def)
  then obtain ac' where ac: "charge_egress (controller_new example_loft_config 0) None (replicate 32 2) n 1 2 3 = (ac', Ok ())"
    using example_egress by blast
  have e: "lc_pubkey example_loft_config = replicate 32 2" "lc_origin example_loft_config = example_origin"
      "fv_now (example_fetch_env db) div 60 = 103" "fv_lane (example_fetch_env db) = Ran" "fv_db (example_fetch_env db) = db"
      "fv_instants (example_fetch_env db) = (1, 2, 3)" "fv_trace (example_fetch_env db) = quiet" "pe_effective_source example_peer = None"
      "fq_auth req = a" "fq_limit req = None"
    by (simp_all add: example_loft_config_def loft_config_new_def example_fetch_env_def example_peer_def req_def)
  have "serve_fetch toy example_parser example_header toy_json example_loft_config (controller_new example_loft_config 0)
      (example_fetch_env db) example_peer req = (ac', Ok (to_vec toy_json j))"
    by (simp only: serve_fetch_def e a from_core_simps sum.case captured_quiet page blocking.simps prod.case option.map n_def [symmetric] ac
      and_then_Ok)
  then show ?thesis using db a e(9,10)
    by (intro exI [of _ db] exI [of _ row] exI [of _ req] exI [of _ ac'] exI [of _ "to_vec toy_json j"]) simp
qed

theorem fetch_serves_owner_witness:
  "\<exists>db row req ac' encoded response w. serve_fetch toy example_parser example_header toy_json example_loft_config
      (controller_new example_loft_config 0) (example_fetch_env db) example_peer req = (ac', Ok encoded)
    \<and> db_events db = [row] \<and> fr_events response = [w] \<and> mail_of toy toy_json (replicate 32 2) row w
    \<and> fr_next_cursor response = 1 \<and> \<not> fr_more response \<and> map_option (to_vec toy_json) (fetch_response_to_json response) = Some encoded"
proof -
  obtain db row req ac' encoded where r: "reachable toy example_parser toy_json (lc_capacity_bytes example_loft_config) db"
    and row: "db_events db = [row]" "ev_recipient row = replicate 32 2" "ev_cursor row = 1"
    and req: "fa_cursor (fq_auth req) = 0" "fq_limit req = None"
      "fetch_auth_verify toy example_parser (fq_auth req) (replicate 32 2) example_origin 103 = Ok (replicate 32 2)"
    and s: "serve_fetch toy example_parser example_header toy_json example_loft_config
         (controller_new example_loft_config 0) (example_fetch_env db) example_peer req = (ac', Ok encoded)"
    using example_fetched by blast
  have e: "fv_db (example_fetch_env db) = db" "lc_pubkey example_loft_config = replicate 32 2" "lc_origin example_loft_config = example_origin"
      "fv_now (example_fetch_env db) div 60 = 103"
    by (simp_all add: example_fetch_env_def example_loft_config_def loft_config_new_def)
  have "reachable toy example_parser toy_json (lc_capacity_bytes example_loft_config) (fv_db (example_fetch_env db))" using r by (simp add: e)
  from fetch_serves_owner [OF s example_loft_config_valid this example_config_contract]
  obtain owner response json page rest where o: "fetch_auth_verify toy example_parser (fq_auth req) (lc_pubkey example_loft_config)
      (lc_origin example_loft_config) (fv_now (example_fetch_env db) div 60) = Ok owner"
    and p: "mail_after (fv_db (example_fetch_env db)) owner (fa_cursor (fq_auth req)) = page @ rest"
      "length page = min (unat (fetch_limit example_loft_config (fq_limit req))) (length (page @ rest))"
      "list_all2 (mail_of toy toy_json owner) page (fr_events response)"
      "uint (fr_next_cursor response) = (if page = [] then uint (fa_cursor (fq_auth req)) else ev_cursor (last page))"
      "fr_more response \<longleftrightarrow> rest \<noteq> []" "fetch_response_to_json response = Some json" "encoded = to_vec toy_json json"
    by blast
  have o': "owner = replicate 32 2" using o req(3) by (simp add: e)
  then have pr: "page @ rest = [row]" using p(1) row req(1) by (simp add: e mail_after_def)
  then have "page = [row]" "rest = []"
    using p(2) fetch_limit_bounds(1) [OF example_loft_config_valid, of "fq_limit req"] by (auto simp: append_eq_Cons_conv)
  moreover from this have "fr_next_cursor response = 1" using p(4) row(3) by (simp add: word_uint_eq_iff)
  ultimately show ?thesis using s row(1) p(3,5-7) o'
    by (auto simp: list_all2_Cons1 intro!: exI [of _ db] exI [of _ row] exI [of _ req] exI [of _ ac'] exI [of _ response])
qed


theorem startup_accepts_stored_witness:
  "\<exists>db row. db_events db = [row] \<and> validate_startup example_parser (example_loft_config\<lparr>lc_capacity_bytes := example_capacity\<rparr>)
     \<lparr>lr_health = Ok (), lr_trace_enabled = False, lr_durable_trace = False, lr_trace_ready = True\<rparr> unconfigured_resolver db 1 = Ok ()"
proof -
  let ?config = "example_loft_config\<lparr>lc_capacity_bytes := example_capacity\<rparr>"
  obtain db row where db: "example_reachable db" "db_events db = [row]" using example_mailbox by blast
  have v: "validate_config example_parser ?config = Ok ()"
    by (simp add: validate_config_def example_loft_config_def loft_config_new_def example_origin_valid config_consts checked_add_def
      saturating_mul_def word_less_nat_alt example_capacity_def)
  have "reachable toy example_parser toy_json (lc_capacity_bytes ?config) db" using db(1) by simp
  from startup_accepts_stored [OF v toy_contracts(1) toy_json_contract this,
      of "\<lparr>lr_health = Ok (), lr_trace_enabled = False, lr_durable_trace = False, lr_trace_ready = True\<rparr>" unconfigured_resolver 1]
  show ?thesis using db(2) by (auto simp: unconfigured_resolver_def)
qed

section \<open>The middleware every request passes\<close>

record http_request =
  rq_get_or_head :: bool
  rq_path :: string
  rq_content_encoding :: "bytes option"
  rq_content_length :: "bytes option"
  rq_content_type :: "bytes option"
  rq_peer :: peer

definition declared_length :: "(bytes \<Rightarrow> string option) \<Rightarrow> http_request \<Rightarrow> u64 option" where
  "declared_length to_str request =
     map_option word_of_nat (Option.bind (Option.bind (rq_content_length request) to_str) (parse_unsigned (2 ^ 64)))"

definition charged_bytes :: "(bytes \<Rightarrow> string option) \<Rightarrow> loft_config \<Rightarrow> http_request \<Rightarrow> u64" where
  "charged_bytes to_str config request =
     (if rq_get_or_head request then 0
      else case declared_length to_str request of Some n \<Rightarrow> n | None \<Rightarrow> lc_max_request_bytes config)"

definition request_source :: "(bytes \<Rightarrow> string option) \<Rightarrow> loft_config \<Rightarrow> http_request \<Rightarrow> loft_error + socket_addr option" where
  "request_source to_str config request =
     (if rq_path request \<in> {''/health'', ''/ready''} then Ok None
      else case pe_connected (rq_peer request) of
          None \<Rightarrow> Ok None
        | Some _ \<Rightarrow> and_then (resolve_peer_source to_str config ((rq_peer request)\<lparr>pe_effective_source := None\<rparr>)) (\<lambda>source. Ok (Some source)))"

text \<open>A request is answered at once, or passed on with the source it was charged to.\<close>

definition run_admitted_request ::
  "(bytes \<Rightarrow> string option) \<Rightarrow> loft_config \<Rightarrow> (ip_addr, bytes) admission_controller \<Rightarrow> instant \<Rightarrow> instant \<Rightarrow> http_request
     \<Rightarrow> (ip_addr, bytes) admission_controller \<times> ((nat \<times> string) + socket_addr option)" where
  "run_admitted_request to_str config ac now now' request =
     (if (case rq_content_encoding request of None \<Rightarrow> False | Some e \<Rightarrow> e \<noteq> as_bytes ''identity'')
      then (ac, Inl (415, ''content encoding is not supported''))
      else if (case declared_length to_str request of None \<Rightarrow> False | Some n \<Rightarrow> lc_max_request_bytes config < n)
      then (ac, Inl (413, ''request too large''))
      else case request_source to_str config request of
          Inl e \<Rightarrow> (ac, Inl (into_response e))
        | Inr source \<Rightarrow>
            (case charge_shared ac (map_option sa_ip source) (charged_bytes to_str config request) now now' of
               (ac', Inl e) \<Rightarrow> (ac', Inl (into_response e))
             | (ac', Inr _) \<Rightarrow> (ac', Inr source)))"

definition admission_middleware ::
  "(bytes \<Rightarrow> string option) \<Rightarrow> loft_config \<Rightarrow> (ip_addr, bytes) admission_controller \<Rightarrow> instant \<Rightarrow> instant \<Rightarrow> http_request
     \<Rightarrow> (ip_addr, bytes) admission_controller \<times> ((nat \<times> string) + socket_addr option)" where
  "admission_middleware to_str config ac now now' request =
     (case try_enter ac of
        Inl e \<Rightarrow> (ac, Inl (into_response e))
      | Inr ac' \<Rightarrow> run_admitted_request to_str config ac' now now' request)"

definition json_content_type :: "(bytes \<Rightarrow> string option) \<Rightarrow> http_request \<Rightarrow> bool" where
  "json_content_type to_str request =
     (case Option.bind (rq_content_type request) to_str of
        None \<Rightarrow> False
      | Some value \<Rightarrow>
          (case split_once (CHR ''/'') (trim (hd (split_on (CHR '';'') value))) of
             None \<Rightarrow> False
           | Some (top_level, subtype) \<Rightarrow> eq_ignore_ascii_case top_level ''application''
               \<and> (eq_ignore_ascii_case subtype ''json''
                  \<or> (case rsplit_once (CHR ''+'') subtype of None \<Rightarrow> False | Some (_, structured) \<Rightarrow> eq_ignore_ascii_case structured ''json''))))"

lemma charge_shared_global:
  assumes "charge_shared ac source bytes now now' = (ac', r)"
  shows "ac_global ac' = fst (bucket_charge (ac_global ac) now bytes (ac_global_limits ac))
    \<and> ac_recipient ac' = ac_recipient ac \<and> ac_permits ac' = ac_permits ac
    \<and> (r = Ok () \<longrightarrow> snd (bucket_charge (ac_global ac) now bytes (ac_global_limits ac)) = Ok ())"
  using assms by (cases "bucket_charge (ac_global ac) now bytes (ac_global_limits ac)")
    (auto simp: charge_shared_def split: sum.splits option.splits prod.splits)

text \<open>C23. Nothing reaches a handler unpaid. A request that is passed on took one of the permits, fits the body limit it declares, and
  was charged to the global budget, whatever source or recipient it names; a refused one never touches a
  recipient budget.\<close>

theorem handlers_run_after_admission:
  assumes "admission_middleware to_str config ac now now' request = (ac', r)"
  shows "ac_recipient ac' = ac_recipient ac
    \<and> (\<forall>source. r = Inr source \<longrightarrow>
        Suc (ac_permits ac') = ac_permits ac
        \<and> (\<forall>n. declared_length to_str request = Some n \<longrightarrow> n \<le> lc_max_request_bytes config)
        \<and> bucket_charge (ac_global ac) now (charged_bytes to_str config request) (ac_global_limits ac) = (ac_global ac', Ok ()))"
proof (cases "try_enter ac")
  case (Inl e)
  then show ?thesis using assms by (auto simp: admission_middleware_def)
next
  case (Inr ac1)
  then have ac1: "ac1 = ac\<lparr>ac_permits := ac_permits ac - 1\<rparr>" "ac_permits ac \<noteq> 0" by (auto simp: try_enter_def split: if_splits)
  have run: "run_admitted_request to_str config ac1 now now' request = (ac', r)" using assms Inr by (simp add: admission_middleware_def)
  obtain ac2 r2 where ch: "charge_shared ac1 (map_option sa_ip (projr (request_source to_str config request)))
      (charged_bytes to_str config request) now now' = (ac2, r2)" by force
  consider (early) "ac' = ac1" "\<forall>x. r \<noteq> Inr x"
    | (charged) source where "request_source to_str config request = Inr source" "ac' = ac2" "\<forall>x. r = Inr x \<longrightarrow> r2 = Ok ()"
        "\<forall>n. declared_length to_str request = Some n \<longrightarrow> n \<le> lc_max_request_bytes config"
    using run ch
    by (cases "request_source to_str config request"; cases r2)
      (auto simp: run_admitted_request_def not_less split: if_splits option.splits)
  then show ?thesis
  proof cases
    case early
    then show ?thesis using ac1 by simp
  next
    case charged
    then show ?thesis using charge_shared_global [OF ch] ac1
      by (cases r2) (auto simp: prod_eq_iff)
  qed
qed

definition example_get :: http_request where
  "example_get = \<lparr>rq_get_or_head = True, rq_path = ''/health'', rq_content_encoding = None, rq_content_length = None,
     rq_content_type = None, rq_peer = example_peer\<rparr>"

theorem handlers_run_after_admission_witness:
  "\<exists>ac'. admission_middleware example_header example_loft_config (controller_new example_loft_config 0) 5 6 example_get = (ac', Inr None)
    \<and> ac_permits ac' = 127"
proof -
  have "\<exists>ac'. admission_middleware example_header example_loft_config (controller_new example_loft_config 0) 5 6 example_get = (ac', Inr None)"
    by (simp add: admission_middleware_def try_enter_def controller_new_def run_admitted_request_def example_get_def declared_length_def
      request_source_def charged_bytes_def charge_shared_def bucket_charge_def bucket_roll_def bucket_fresh_def global_limits_def WINDOW_def
      Let_def example_loft_config_def loft_config_new_def saturating_add_def word_less_nat_alt)
  then obtain ac' where a: "admission_middleware example_header example_loft_config (controller_new example_loft_config 0) 5 6 example_get = (ac', Inr None)"
    by blast
  from handlers_run_after_admission [OF a]
  have "Suc (ac_permits ac') = ac_permits (controller_new example_loft_config 0)" by blast
  then show ?thesis using a by (simp add: controller_new_def example_loft_config_def loft_config_new_def)
qed

end
