(* ===== verification/Base64.thy ===== *)
theory Base64
  imports Prelude
begin

text \<open>
  The standard base64 codec at the end of \<^verbatim>\<open>pigeonpost-registry/src/checkpoint.rs\<close>. The encoder works on chunks of
  three bytes; the decoder keeps a 32-bit buffer whose high bits are never cleared, and accepts only the
  text the encoder would have produced.
\<close>

unbundle bit_operations_syntax

definition B64 :: string where
  "B64 = ''ABCDEFGHIJKLMNOPQRSTUVWXYZabcdefghijklmnopqrstuvwxyz0123456789+/''"

definition b64_char :: "u32 \<Rightarrow> char" where
  "b64_char v = B64 ! unat (v AND 63)"

definition b64_word :: "u8 \<Rightarrow> u8 \<Rightarrow> u8 \<Rightarrow> u32" where
  "b64_word a b c = (push_bit 16 (ucast a)) OR (push_bit 8 (ucast b)) OR ucast c"

text \<open>One iteration of the encoder, on a chunk of one to three bytes; missing bytes count as zero.\<close>

definition b64_chunk :: "bytes \<Rightarrow> string" where
  "b64_chunk chunk =
     (let n = b64_word (chunk ! 0) (if 1 < length chunk then chunk ! 1 else 0) (if 2 < length chunk then chunk ! 2 else 0)
      in [b64_char (drop_bit 18 n), b64_char (drop_bit 12 n),
          if 1 < length chunk then b64_char (drop_bit 6 n) else CHR ''='',
          if 2 < length chunk then b64_char n else CHR ''=''])"

function b64 :: "bytes \<Rightarrow> string" where
  "b64 input = (if input = [] then [] else b64_chunk (take 3 input) @ b64 (drop 3 input))"
  by pat_completeness auto
termination
  by (relation "measure length") auto

declare b64.simps [simp del]

fun position :: "char \<Rightarrow> string \<Rightarrow> nat option" where
  "position c [] = None"
| "position c (d # ds) = (if d = c then Some 0 else map_option Suc (position c ds))"

fun unb64_loop :: "u32 \<Rightarrow> nat \<Rightarrow> string \<Rightarrow> bytes option" where
  "unb64_loop buffer bits [] = Some []"
| "unb64_loop buffer bits (ch # rest) =
     (if ch = CHR ''='' then Some []
      else case position ch B64 of
          None \<Rightarrow> None
        | Some v \<Rightarrow>
            (let buffer' = (push_bit 6 buffer) OR word_of_nat v; bits' = bits + 6 in
             if 8 \<le> bits'
             then map_option (Cons (ucast (drop_bit (bits' - 8) buffer'))) (unb64_loop buffer' (bits' - 8) rest)
             else unb64_loop buffer' bits' rest))"

definition unb64 :: "string \<Rightarrow> bytes option" where
  "unb64 input =
     (if \<not> 4 dvd length input
       \<or> list_ex (\<lambda>c. \<not> is_ascii_alphanumeric c \<and> c \<notin> {CHR ''+'', CHR ''/'', CHR ''=''}) input
       \<or> (case position (CHR ''='') input of None \<Rightarrow> False | Some first \<Rightarrow> first < length input - 2)
      then None
      else case unb64_loop 0 0 input of
          None \<Rightarrow> None
        | Some out \<Rightarrow> if b64 out = input then Some out else None)"

section \<open>Reading back what was written\<close>

lemma length_B64 [simp]: "length B64 = 64"
  by (simp add: B64_def)

lemma position_B64: "map (\<lambda>c. position c B64) B64 = map Some [0..<64]"
  by (simp add: B64_def upt_conv_Cons)

lemma B64_chars: "list_all (\<lambda>c. is_ascii_alphanumeric c \<or> c \<in> {CHR ''+'', CHR ''/''}) B64"
  by (simp add: B64_def ascii_defs)

lemma position_nth: "i < 64 \<Longrightarrow> position (B64 ! i) B64 = Some i"
  using arg_cong [OF position_B64, of "\<lambda>l. l ! i"] by simp

lemma mask6: "(63 :: u32) = mask 6"
  by (simp add: mask_eq_exp_minus_1)

lemma unat_and63: "unat (v AND 63 :: u32) < 64"
proof -
  have "unat (take_bit 6 v) = take_bit 6 (unat v)" by (simp only: unsigned_take_bit_eq)
  then have "unat (take_bit 6 v) < 64" by (simp only: take_bit_eq_mod) simp
  then show ?thesis by (simp add: mask6 take_bit_eq_mask)
qed

lemma b64_char_props:
  "position (b64_char v) B64 = Some (unat (v AND 63))" "b64_char v \<noteq> CHR ''=''"
  "is_ascii_alphanumeric (b64_char v) \<or> b64_char v \<in> {CHR ''+'', CHR ''/''}"
proof -
  show "position (b64_char v) B64 = Some (unat (v AND 63))" unfolding b64_char_def by (rule position_nth [OF unat_and63])
  have "b64_char v \<in> set B64" using unat_and63 [of v] by (simp add: b64_char_def)
  then show "is_ascii_alphanumeric (b64_char v) \<or> b64_char v \<in> {CHR ''+'', CHR ''/''}"
    using B64_chars by (auto simp: list_all_iff)
  then show "b64_char v \<noteq> CHR ''=''" by (auto simp: ascii_defs)
qed

text \<open>Pushing six more bits into the buffer.\<close>

definition put6 :: "u32 \<Rightarrow> u32 \<Rightarrow> u32" where
  "put6 buffer v = (push_bit 6 buffer) OR (v AND 63)"

lemma unb64_loop_char:
  "unb64_loop buffer bits (b64_char v # rest) =
     (if 2 \<le> bits
      then map_option (Cons (ucast (drop_bit (bits - 2) (put6 buffer v)))) (unb64_loop (put6 buffer v) (bits - 2) rest)
      else unb64_loop (put6 buffer v) (bits + 6) rest)"
  using b64_char_props(1,2) [of v] by (simp add: Let_def put6_def)

lemma unb64_loop_pad: "unb64_loop buffer bits (CHR ''='' # rest) = Some []"
  by simp

lemmas unb64_loop_steps = unb64_loop_char unb64_loop_pad

declare unb64_loop.simps(2) [simp del]


text \<open>
  Whatever the buffer still holds from earlier chunks, the four characters of a chunk put its bytes back
  in the places they are read from.
\<close>

lemma eight_bits: "k < 8 \<Longrightarrow> k = 0 \<or> k = 1 \<or> k = 2 \<or> k = 3 \<or> k = 4 \<or> k = 5 \<or> k = 6 \<or> k = (7::nat)"
  by linarith

lemma not_bit_u8: "8 \<le> k \<Longrightarrow> \<not> bit (w :: u8) k"
  using bit_imp_le_length [of w k] by auto

lemma unb64_bytes:
  fixes buf :: u32 and a b c :: u8
  defines "n \<equiv> b64_word a b c"
  defines "b2 \<equiv> put6 (put6 buf (drop_bit 18 n)) (drop_bit 12 n)"
  shows "ucast (drop_bit 4 b2) = a" "ucast (drop_bit 2 (put6 b2 (drop_bit 6 n))) = b"
    "ucast (put6 (put6 b2 (drop_bit 6 n)) n) = c"
proof -
  note defs = b2_def n_def b64_word_def put6_def mask6
  have "bit (ucast (drop_bit 4 b2) :: u8) k = bit a k" "bit (ucast (drop_bit 2 (put6 b2 (drop_bit 6 n))) :: u8) k = bit b k"
    "bit (ucast (put6 (put6 b2 (drop_bit 6 n)) n) :: u8) k = bit c k" if "k < 8" for k
    using eight_bits [OF that] by (elim disjE; simp add: defs bit_simps not_bit_u8)+
  then show "ucast (drop_bit 4 b2) = a" "ucast (drop_bit 2 (put6 b2 (drop_bit 6 n))) = b"
    "ucast (put6 (put6 b2 (drop_bit 6 n)) n) = c"
    by (auto intro!: bit_word_eqI)
qed

lemma unb64_loop_chunk3:
  "\<exists>buf'. unb64_loop buf 0 (b64_chunk [a, b, c] @ rest) = map_option (\<lambda>r. a # b # c # r) (unb64_loop buf' 0 rest)"
  using unb64_bytes [where buf = buf and a = a and b = b and c = c]
  by (auto simp: b64_chunk_def Let_def unb64_loop_steps option.map_comp comp_def)

lemma unb64_loop_chunk2: "unb64_loop buf 0 (b64_chunk [a, b]) = Some [a, b]"
  using unb64_bytes [where buf = buf and a = a and b = b and c = 0]
  by (auto simp: b64_chunk_def Let_def unb64_loop_steps)

lemma unb64_loop_chunk1: "unb64_loop buf 0 (b64_chunk [a]) = Some [a]"
  using unb64_bytes [where buf = buf and a = a and b = 0 and c = 0]
  by (auto simp: b64_chunk_def Let_def unb64_loop_steps)

lemma b64_simps [simp]:
  "b64 [] = []" "b64 [a] = b64_chunk [a]" "b64 [a, b] = b64_chunk [a, b]"
  "b64 (a # b # c # rest) = b64_chunk [a, b, c] @ b64 rest"
  by (simp_all add: b64.simps)

lemma bytes3_induct [case_names Nil One Two Three]:
  "P [] \<Longrightarrow> (\<And>a. P [a]) \<Longrightarrow> (\<And>a b. P [a, b]) \<Longrightarrow> (\<And>a b c rest. P rest \<Longrightarrow> P (a # b # c # rest)) \<Longrightarrow> P xs"
  by induction_schema (pat_completeness, lexicographic_order)

lemma unb64_loop_b64: "unb64_loop buf 0 (b64 x) = Some x"
proof (induction x arbitrary: buf rule: bytes3_induct)
  case (Three a b c rest)
  then show ?case using unb64_loop_chunk3 [of buf a b c "b64 rest"] by auto
qed (simp_all add: unb64_loop_chunk1 unb64_loop_chunk2)

lemma length_b64_chunk [simp]: "length (b64_chunk x) = 4"
  by (simp add: b64_chunk_def Let_def)

lemma length_b64: "length (b64 x) = 4 * ((length x + 2) div 3)"
proof (induction x rule: bytes3_induct)
  case (Three a b c rest)
  have "(length (a # b # c # rest) + 2) div 3 = Suc ((length rest + 2) div 3)" by simp
  with Three show ?case by (simp del: length_Cons)
qed simp_all

lemma b64_chars: "list_all (\<lambda>c. is_ascii_alphanumeric c \<or> c \<in> {CHR ''+'', CHR ''/'', CHR ''=''}) (b64 x)"
  using b64_char_props(3) by (induction x rule: bytes3_induct) (auto simp: b64_chunk_def Let_def)

lemma position_append: "position c (s @ t) = (case position c s of None \<Rightarrow> map_option (\<lambda>i. i + length s) (position c t) | Some i \<Rightarrow> Some i)"
  by (induction s) (auto simp: option.map_comp comp_def option.map_ident split: option.splits)

lemma b64_padding: "position (CHR ''='') (b64 x) = Some first \<Longrightarrow> length (b64 x) - 2 \<le> first"
proof (induction x arbitrary: first rule: bytes3_induct)
  case (Three a b c rest)
  have "position (CHR ''='') (b64_chunk [a, b, c]) = None"
    using b64_char_props(2) by (simp add: b64_chunk_def Let_def)
  with Three.prems obtain i where "position (CHR ''='') (b64 rest) = Some i" "first = i + 4"
    by (auto simp: position_append)
  with Three.IH show ?case by simp
qed (use b64_char_props(2) in \<open>auto simp: b64_chunk_def Let_def split: if_splits\<close>)

lemma unb64_iff: "unb64 s = Some x \<longleftrightarrow> s = b64 x"
proof
  assume "unb64 s = Some x"
  then show "s = b64 x" by (auto simp: unb64_def split: if_splits option.splits)
next
  assume s: "s = b64 x"
  have "\<not> list_ex (\<lambda>c. \<not> is_ascii_alphanumeric c \<and> c \<notin> {CHR ''+'', CHR ''/'', CHR ''=''}) (b64 x)"
    using b64_chars [of x] by (simp add: list_ex_iff list_all_iff)
  then show "unb64 s = Some x"
    using b64_padding [of x] by (auto simp: s unb64_def unb64_loop_b64 length_b64 split: option.splits)
qed

lemma unb64_b64 [simp]: "unb64 (b64 x) = Some x"
  by (simp add: unb64_iff)

lemma b64_inject [simp]: "b64 x = b64 y \<longleftrightarrow> x = y"
  by (metis unb64_b64 option.inject)

lemma b64_no_char: "\<not> is_ascii_alphanumeric c \<Longrightarrow> c \<notin> {CHR ''+'', CHR ''/'', CHR ''=''} \<Longrightarrow> c \<notin> set (b64 x)"
  using b64_chars [of x] by (auto simp: list_all_iff)

end
