(* ===== verification/Registry_Error.thy ===== *)
theory Registry_Error
  imports Core_Error
begin

text \<open>
  The errors of \<^verbatim>\<open>pigeonpost-registry/src/error.rs\<close>, the HTTP status of each and its label in the log. Payloads that other libraries attach to their own errors are
  not kept.
\<close>

datatype registry_error =
    UnknownNamespace string
  | MalformedHandle string
  | MalformedCheckpoint string
  | MalformedEntry string
  | UnsupportedSchema nat nat
  | MigrationRequired string
  | CorruptStorage string
  | WrongProvider
  | ProviderNotConfigured
  | InvalidConfiguration string
  | ProviderUnreachable string
  | RegistryUnavailable
  | WitnessUnavailable
  | WitnessConflict
  | ClaimTraceUnavailable
  | RateLimited
  | Overloaded
  | ProofRejected string
  | SubjectMismatch string string
  | KeyPossessionNotProved
  | DirectoryPublisherUnauthorized
  | HandleQuotaExceeded nat
  | AlreadyBound
  | DirectoryKeyMismatch
  | DirectoryReplay
  | NotFound
  | Core error
  | Storage
  | Serialization
  | Io

fun registry_status :: "registry_error \<Rightarrow> nat" where
  "registry_status (UnknownNamespace _) = 400"
| "registry_status (MalformedHandle _) = 400"
| "registry_status (MalformedCheckpoint _) = 400"
| "registry_status (MalformedEntry _) = 400"
| "registry_status (UnsupportedSchema _ _) = 500"
| "registry_status (MigrationRequired _) = 500"
| "registry_status (CorruptStorage _) = 500"
| "registry_status WrongProvider = 400"
| "registry_status ProviderNotConfigured = 501"
| "registry_status (InvalidConfiguration _) = 500"
| "registry_status (ProviderUnreachable _) = 502"
| "registry_status RegistryUnavailable = 502"
| "registry_status WitnessUnavailable = 503"
| "registry_status WitnessConflict = 409"
| "registry_status ClaimTraceUnavailable = 503"
| "registry_status RateLimited = 429"
| "registry_status Overloaded = 503"
| "registry_status (ProofRejected _) = 401"
| "registry_status (SubjectMismatch _ _) = 401"
| "registry_status KeyPossessionNotProved = 401"
| "registry_status DirectoryPublisherUnauthorized = 401"
| "registry_status AlreadyBound = 409"
| "registry_status (HandleQuotaExceeded _) = 409"
| "registry_status DirectoryKeyMismatch = 401"
| "registry_status DirectoryReplay = 409"
| "registry_status NotFound = 404"
| "registry_status (Core _) = 400"
| "registry_status Storage = 500"
| "registry_status Serialization = 500"
| "registry_status Io = 500"

fun registry_kind :: "registry_error \<Rightarrow> string" where
  "registry_kind (UnknownNamespace _) = ''namespace''"
| "registry_kind (MalformedHandle _) = ''handle''"
| "registry_kind (MalformedCheckpoint _) = ''checkpoint''"
| "registry_kind (MalformedEntry _) = ''entry''"
| "registry_kind (UnsupportedSchema _ _) = ''schema''"
| "registry_kind (MigrationRequired _) = ''migration''"
| "registry_kind (CorruptStorage _) = ''storage_integrity''"
| "registry_kind WrongProvider = ''provider''"
| "registry_kind ProviderNotConfigured = ''provider_config''"
| "registry_kind (InvalidConfiguration _) = ''configuration''"
| "registry_kind (ProviderUnreachable _) = ''provider_transport''"
| "registry_kind RegistryUnavailable = ''registry_transport''"
| "registry_kind WitnessUnavailable = ''witness_unavailable''"
| "registry_kind WitnessConflict = ''witness_conflict''"
| "registry_kind ClaimTraceUnavailable = ''claim_trace''"
| "registry_kind RateLimited = ''rate_limit''"
| "registry_kind Overloaded = ''overloaded''"
| "registry_kind (ProofRejected _) = ''proof''"
| "registry_kind (SubjectMismatch _ _) = ''subject''"
| "registry_kind KeyPossessionNotProved = ''key_possession''"
| "registry_kind DirectoryPublisherUnauthorized = ''directory_publisher''"
| "registry_kind AlreadyBound = ''already_bound''"
| "registry_kind (HandleQuotaExceeded _) = ''handle_quota''"
| "registry_kind DirectoryKeyMismatch = ''directory_key_mismatch''"
| "registry_kind DirectoryReplay = ''directory_replay''"
| "registry_kind NotFound = ''not_found''"
| "registry_kind (Core _) = ''core''"
| "registry_kind Storage = ''storage''"
| "registry_kind Serialization = ''serialization''"
| "registry_kind Io = ''io''"

text \<open>The label that goes to the log determines the status of the response, whatever the error carries.\<close>

lemma registry_kind_status: "registry_kind e = registry_kind f \<Longrightarrow> registry_status e = registry_status f"
  by (cases e; cases f) simp_all

end
