(* ===== verification/Checkpoint.thy ===== *)
theory Checkpoint
  imports Base64 Registry_Error Merkle_Log Decimal
begin

text \<open>
  Signed tree heads, \<^verbatim>\<open>pigeonpost-registry/src/checkpoint.rs\<close>: the three-line body, the operator's signature
  line, the timestamped cosignature lines of witnesses, and the verification of all of them under a
  witness policy. A note is the list of its UTF-8 bytes; a signing key is its 32-byte seed.
\<close>

abbreviation NL :: char where
  "NL \<equiv> CHR 0x0A"

text \<open>\<^verbatim>\<open>str::split_once("\n\n")\<close>: around the first blank line.\<close>

fun split_blank :: "string \<Rightarrow> (string \<times> string) option" where
  "split_blank (c # d # s) =
     (if c = NL \<and> d = NL then Some ([], s) else map_option (\<lambda>(a, b). (c # a, b)) (split_blank (d # s)))"
| "split_blank _ = None"

text \<open>\<^verbatim>\<open>str::lines\<close>: a terminated line loses one carriage return, and an empty last line is not a line.\<close>

definition strip_cr :: "string \<Rightarrow> string" where
  "strip_cr l = (if l \<noteq> [] \<and> last l = CHR 0x0D then butlast l else l)"

definition str_lines :: "string \<Rightarrow> string list" where
  "str_lines s =
     (let parts = split_on NL s
      in map strip_cr (butlast parts) @ (if last parts = [] then [] else [last parts]))"

section \<open>Keys and bodies\<close>

definition ALG_ED25519 :: u8 where "ALG_ED25519 = 1"
definition ALG_ED25519_COSIGNATURE :: u8 where "ALG_ED25519_COSIGNATURE = 4"

definition I64_MAX :: u64 where "I64_MAX = 0x7FFFFFFFFFFFFFFF"

definition witness_quorum_intersects :: "nat \<Rightarrow> nat \<Rightarrow> bool" where
  "witness_quorum_intersects threshold witness_count \<longleftrightarrow>
     threshold \<noteq> 0 \<and> threshold \<le> witness_count \<and> threshold > witness_count div 2"

record checkpoint =
  ck_origin :: string
  ck_size :: u64
  ck_root :: bytes

record witness_key =
  wk_name :: string
  wk_key :: bytes

record verified_checkpoint =
  vc_checkpoint :: checkpoint
  witnessed_at :: "u64 option"

definition witness_key_new :: "crypto \<Rightarrow> string \<Rightarrow> bytes \<Rightarrow> registry_error + witness_key" where
  "witness_key_new C name key =
     (if name = [] \<or> 256 < length name \<or> list_ex (\<lambda>c. is_ascii_control c \<or> is_ascii_whitespace c) name
      then Err (MalformedCheckpoint ''witness name is malformed'')
      else if ed_is_weak C key then Err (InvalidConfiguration ''invalid registry witness key'')
      else Ok \<lparr>wk_name = name, wk_key = key\<rparr>)"

definition key_hash :: "crypto \<Rightarrow> string \<Rightarrow> bytes \<Rightarrow> bytes" where
  "key_hash C origin key = take 4 (sha256 C (as_bytes origin @ [10] @ [ALG_ED25519] @ key))"

definition cosignature_key_hash :: "crypto \<Rightarrow> string \<Rightarrow> bytes \<Rightarrow> bytes" where
  "cosignature_key_hash C name key = take 4 (sha256 C (as_bytes name @ [10] @ [ALG_ED25519_COSIGNATURE] @ key))"

definition checkpoint_body :: "checkpoint \<Rightarrow> string" where
  "checkpoint_body c = ck_origin c @ [NL] @ decimal (unat (ck_size c)) @ [NL] @ b64 (ck_root c) @ [NL]"

text \<open>The em dash and space that open a signature line.\<close>

definition SIG_PREFIX :: string where
  "SIG_PREFIX = [CHR 0xE2, CHR 0x80, CHR 0x94, CHR 0x20]"

definition signature_line :: "string \<Rightarrow> bytes \<Rightarrow> string" where
  "signature_line name blob = SIG_PREFIX @ name @ [CHR 0x20] @ b64 blob @ [NL]"

section \<open>Signing\<close>

definition checkpoint_sign :: "crypto \<Rightarrow> checkpoint \<Rightarrow> bytes \<Rightarrow> string" where
  "checkpoint_sign C c key =
     (let body = checkpoint_body c;
          signature = ed_sign C key (as_bytes body);
          keyhash = key_hash C (ck_origin c) (ed_public C key)
      in body @ [NL] @ signature_line (ck_origin c) (keyhash @ signature))"

definition cosignature_message :: "u64 \<Rightarrow> string \<Rightarrow> bytes" where
  "cosignature_message timestamp body =
     as_bytes (''cosignature/v1'' @ [NL] @ ''time '' @ decimal (unat timestamp) @ [NL] @ body)"

definition cosignature_line :: "crypto \<Rightarrow> checkpoint \<Rightarrow> string \<Rightarrow> bytes \<Rightarrow> u64 \<Rightarrow> registry_error + string" where
  "cosignature_line C c witness_name witness_key timestamp =
     and_then (witness_key_new C witness_name (ed_public C witness_key)) (\<lambda>_.
     if timestamp > I64_MAX then Err (MalformedCheckpoint ''cosignature timestamp exceeds the C2SP limit'')
     else let signature = ed_sign C witness_key (cosignature_message timestamp (checkpoint_body c));
              blob = cosignature_key_hash C witness_name (ed_public C witness_key) @ u64_be timestamp @ signature
          in Ok (signature_line witness_name blob))"

section \<open>Verification\<close>

text \<open>The two fields of a signature line, when the line is one and bears the expected name.\<close>

definition signature_blob :: "string \<Rightarrow> string \<Rightarrow> bytes option" where
  "signature_blob expected_name line =
     Option.bind (strip_prefix SIG_PREFIX line) (\<lambda>rest.
     Option.bind (split_once (CHR 0x20) rest) (\<lambda>(name, encoded).
     if name \<noteq> expected_name \<or> CHR 0x20 \<in> set encoded then None else unb64 encoded))"

definition has_valid_signature :: "crypto \<Rightarrow> string \<Rightarrow> string \<Rightarrow> string \<Rightarrow> bytes \<Rightarrow> bool" where
  "has_valid_signature C body signatures expected_name key \<longleftrightarrow>
     list_ex (\<lambda>line. case signature_blob expected_name line of
          None \<Rightarrow> False
        | Some blob \<Rightarrow> length blob = 4 + 64 \<and> take 4 blob = key_hash C expected_name key
            \<and> ed_verify_strict C key (as_bytes (body @ [NL])) (drop 4 blob))
       (str_lines signatures)"

definition valid_cosignature ::
  "crypto \<Rightarrow> string \<Rightarrow> string \<Rightarrow> bytes \<Rightarrow> (u64 \<times> u64 \<times> u64) option \<Rightarrow> string \<Rightarrow> u64 option" where
  "valid_cosignature C body expected_name key freshness line =
     Option.bind (signature_blob expected_name line) (\<lambda>blob.
     if length blob \<noteq> 4 + 8 + 64 \<or> take 4 blob \<noteq> cosignature_key_hash C expected_name key then None
     else let timestamp = u64_from_be (take 8 (drop 4 blob)) in
       if timestamp > I64_MAX then None
       else if (case freshness of None \<Rightarrow> False
              | Some (now, max_age, future_skew) \<Rightarrow>
                  timestamp > saturating_add now future_skew \<or> timestamp < saturating_sub now max_age)
       then None
       else if ed_verify_strict C key (cosignature_message timestamp (body @ [NL])) (drop 12 blob)
       then Some timestamp else None)"

definition newest :: "u64 list \<Rightarrow> u64 option" where
  "newest ts = (case ts of [] \<Rightarrow> None | t # rest \<Rightarrow> Some (fold max rest t))"

definition newest_valid_cosignature ::
  "crypto \<Rightarrow> string \<Rightarrow> string \<Rightarrow> string \<Rightarrow> bytes \<Rightarrow> (u64 \<times> u64 \<times> u64) option \<Rightarrow> u64 option" where
  "newest_valid_cosignature C body signatures expected_name key freshness =
     newest (List.map_filter (valid_cosignature C body expected_name key freshness) (str_lines signatures))"

definition checkpoint_verify :: "crypto \<Rightarrow> string \<Rightarrow> bytes \<Rightarrow> registry_error + checkpoint" where
  "checkpoint_verify C txt key =
     (if 64 * 1024 < length txt then Err (MalformedCheckpoint ''checkpoint exceeds 64 KiB'')
      else and_then (ok_or (split_blank txt) (MalformedCheckpoint ''missing signature block'')) (\<lambda>(body, signatures).
      case str_lines body of
        [] \<Rightarrow> Err (MalformedCheckpoint ''no origin'')
      | [origin] \<Rightarrow> Err (MalformedCheckpoint ''no size'')
      | origin # size_text # rest \<Rightarrow>
          and_then (ok_or (parse_unsigned (2 ^ 64) size_text) (MalformedCheckpoint ''size is not a number'')) (\<lambda>size.
          case rest of
            [] \<Rightarrow> Err (MalformedCheckpoint ''no root'')
          | root_b64 # extra \<Rightarrow>
              if extra \<noteq> [] then Err (MalformedCheckpoint ''checkpoint body has extra fields'')
              else case unb64 root_b64 of
                  None \<Rightarrow> Err (MalformedCheckpoint ''root is not 32 bytes'')
                | Some root \<Rightarrow>
                    if length root \<noteq> 32 then Err (MalformedCheckpoint ''root is not 32 bytes'')
                    else if \<not> has_valid_signature C body signatures origin key
                    then Err (MalformedCheckpoint ''no valid signature from the expected key'')
                    else Ok \<lparr>ck_origin = origin, ck_size = word_of_nat size, ck_root = root\<rparr>)))"

fun duplicate_witness :: "witness_key list \<Rightarrow> witness_key list \<Rightarrow> bool" where
  "duplicate_witness prior [] \<longleftrightarrow> False"
| "duplicate_witness prior (w # ws) \<longleftrightarrow>
     list_ex (\<lambda>p. wk_name p = wk_name w \<or> wk_key p = wk_key w) prior \<or> duplicate_witness (prior @ [w]) ws"

definition verify_witness_policy ::
  "crypto \<Rightarrow> string \<Rightarrow> bytes \<Rightarrow> witness_key list \<Rightarrow> nat \<Rightarrow> (u64 \<times> u64 \<times> u64) option \<Rightarrow>
   registry_error + verified_checkpoint" where
  "verify_witness_policy C txt registry_key witnesses threshold freshness =
     (if threshold \<noteq> 0 \<and> \<not> witness_quorum_intersects threshold (length witnesses)
      then Err (MalformedCheckpoint ''witness threshold does not guarantee quorum intersection'')
      else if duplicate_witness [] witnesses then Err (MalformedCheckpoint ''duplicate witness configuration'')
      else and_then (checkpoint_verify C txt registry_key) (\<lambda>c.
        if threshold = 0 then Ok \<lparr>vc_checkpoint = c, witnessed_at = None\<rparr>
        else and_then (ok_or (split_blank txt) (MalformedCheckpoint ''missing signature block'')) (\<lambda>(body, signatures).
        let verified = List.map_filter (\<lambda>w. newest_valid_cosignature C body signatures (wk_name w) (wk_key w) freshness)
              witnesses
        in if length verified < threshold
           then Err (MalformedCheckpoint ''fresh witness cosignature threshold not met'')
           else Ok \<lparr>vc_checkpoint = c, witnessed_at = Some (rev (sort verified) ! (threshold - 1))\<rparr>)))"

definition verify_with_witnesses ::
  "crypto \<Rightarrow> string \<Rightarrow> bytes \<Rightarrow> witness_key list \<Rightarrow> nat \<Rightarrow> registry_error + checkpoint" where
  "verify_with_witnesses C txt registry_key witnesses threshold =
     and_then (verify_witness_policy C txt registry_key witnesses threshold None) (\<lambda>v. Ok (vc_checkpoint v))"

definition verify_with_fresh_witnesses ::
  "crypto \<Rightarrow> string \<Rightarrow> bytes \<Rightarrow> witness_key list \<Rightarrow> nat \<Rightarrow> u64 \<Rightarrow> u64 \<Rightarrow> u64 \<Rightarrow>
   registry_error + verified_checkpoint" where
  "verify_with_fresh_witnesses C txt registry_key witnesses threshold now_secs max_age_secs future_skew_secs =
     (if now_secs > I64_MAX \<or> max_age_secs = 0 \<or> future_skew_secs > max_age_secs
      then Err (MalformedCheckpoint ''invalid witness freshness policy'')
      else verify_witness_policy C txt registry_key witnesses threshold
             (Some (now_secs, max_age_secs, future_skew_secs)))"


section \<open>Lines\<close>

lemma split_blank_first [simp]:
  "NL \<notin> set l \<Longrightarrow> split_blank (l @ NL # NL # r) = Some (l, r)"
proof (induction l)
  case (Cons c l)
  then show ?case by (cases l) auto
qed simp

lemma split_blank_line:
  "NL \<notin> set l \<Longrightarrow> s \<noteq> [] \<Longrightarrow> hd s \<noteq> NL \<Longrightarrow>
    split_blank (l @ NL # s) = map_option (\<lambda>(a, b). (l @ NL # a, b)) (split_blank s)"
proof (induction l)
  case Nil
  then show ?case by (cases s) (auto split: option.splits)
next
  case (Cons c l)
  then show ?case by (cases l) (auto simp: option.map_comp comp_def case_prod_beta)
qed

lemma split_blank_Some: "split_blank s = Some (b, r) \<Longrightarrow> s = b @ NL # NL # r"
  by (induction s arbitrary: b r rule: split_blank.induct) (auto split: if_splits)

lemma str_lines_Nil [simp]: "str_lines [] = []"
  by (simp add: str_lines_def)

lemma str_lines_line [simp]: "NL \<notin> set l \<Longrightarrow> str_lines (l @ NL # s) = strip_cr l # str_lines s"
  by (simp add: str_lines_def split_on_append Let_def)

lemma str_lines_last: "NL \<notin> set l \<Longrightarrow> l \<noteq> [] \<Longrightarrow> str_lines l = [l]"
  by (simp add: str_lines_def split_on_not_in)

lemma str_lines_concat:
  "list_all (\<lambda>l. NL \<notin> set l) ls \<Longrightarrow> str_lines (concat (map (\<lambda>l. l @ [NL]) ls)) = map strip_cr ls"
  by (induction ls) simp_all

lemma strip_cr_id: "CHR 0x0D \<notin> set l \<Longrightarrow> strip_cr l = l"
  by (auto simp: strip_cr_def dest: last_in_set)

lemma b64_Nil_iff: "b64 x = [] \<longleftrightarrow> x = []"
  by (metis b64_inject b64_simps(1))

lemma b64_no_breaks [simp]: "NL \<notin> set (b64 x)" "CHR 0x0D \<notin> set (b64 x)" "CHR 0x20 \<notin> set (b64 x)"
  by (rule b64_no_char; simp add: ascii_defs)+

lemma decimal_no_breaks [simp]:
  "NL \<notin> set (decimal n)" "CHR 0x0D \<notin> set (decimal n)" "CHR 0x20 \<notin> set (decimal n)"
  using decimal_digits [of n] by (auto simp: list_all_iff is_ascii_digit_def)

lemma body_eq:
  "NL \<notin> set o1 \<Longrightarrow> NL \<notin> set o2 \<Longrightarrow>
    o1 @ NL # r1 = o2 @ NL # r2 \<longleftrightarrow> o1 = o2 \<and> r1 = (r2 :: string)"
proof (induction o1 arbitrary: o2)
  case Nil
  then show ?case by (cases o2) auto
next
  case (Cons c o1)
  then show ?case by (cases o2) auto
qed

lemma cosignature_message_inject:
  "cosignature_message t b = cosignature_message t' b' \<longleftrightarrow> t = t' \<and> b = b'"
  using body_eq [of "decimal (unat t)" "decimal (unat t')" b b']
  by (auto simp: cosignature_message_def decimal_inject word_unat_eq_iff simp del: as_bytes_append)

text \<open>
  A body whose lines are an origin, a number and a root. The origin loses a final carriage return when it is
  read; the other two lines cannot have one.
\<close>

lemma split_blank_body:
  assumes "NL \<notin> set origin" "root \<noteq> []"
  shows "split_blank (origin @ NL # decimal n @ NL # b64 root @ NL # NL # rest)
    = Some (origin @ NL # decimal n @ NL # b64 root, rest)"
proof -
  have hd: "hd (decimal n @ s) \<noteq> NL" for s
    using decimal_no_breaks(1) [of n] hd_in_set [OF decimal_nonempty, of n] by (metis decimal_nonempty hd_append2)
  have r: "b64 root \<noteq> []" using assms(2) by (simp add: b64_Nil_iff)
  then have hr: "hd (b64 root @ s) \<noteq> NL" for s
    using b64_no_breaks(1) [of root] hd_in_set [of "b64 root"] by (metis hd_append2)
  show ?thesis
    using assms(1) hd hr r by (simp add: split_blank_line)
qed

lemma str_lines_body:
  assumes "NL \<notin> set origin" "root \<noteq> []"
  shows "str_lines (origin @ NL # decimal n @ NL # b64 root) = [strip_cr origin, decimal n, b64 root]"
proof -
  have "b64 root \<noteq> []" using assms(2) by (simp add: b64_Nil_iff)
  then show ?thesis using assms(1) by (simp add: str_lines_last strip_cr_id)
qed

lemma split_once_first: "d \<notin> set a \<Longrightarrow> split_once d (a @ d # b) = Some (a, b)"
  by (induction a) (auto simp: split_once_def)

lemma signature_blob_line:
  "CHR 0x20 \<notin> set name \<Longrightarrow> signature_blob name (SIG_PREFIX @ name @ [CHR 0x20] @ b64 blob) = Some blob"
  by (simp add: signature_blob_def split_once_first)

lemma strip_cr_signature: "strip_cr (SIG_PREFIX @ name @ [CHR 0x20] @ b64 blob) = SIG_PREFIX @ name @ [CHR 0x20] @ b64 blob"
  using b64_no_breaks(2) [of blob] by (auto simp: strip_cr_def dest: last_in_set)

lemma str_lines_signature:
  "NL \<notin> set name \<Longrightarrow>
    str_lines (signature_line name blob @ tail) = (SIG_PREFIX @ name @ [CHR 0x20] @ b64 blob) # str_lines tail"
  using str_lines_line [of "SIG_PREFIX @ name @ [CHR 0x20] @ b64 blob" tail]
  by (simp only: strip_cr_signature) (simp add: signature_line_def SIG_PREFIX_def)

section \<open>What a verified note says\<close>

lemma checkpoint_verify_Ok:
  assumes "checkpoint_verify C txt key = Ok c"
  obtains body signatures size_text where
    "length txt \<le> 64 * 1024" "split_blank txt = Some (body, signatures)"
    "str_lines body = [ck_origin c, size_text, b64 (ck_root c)]"
    "parse_unsigned (2 ^ 64) size_text = Some (unat (ck_size c))" "length (ck_root c) = 32"
    "has_valid_signature C body signatures (ck_origin c) key"
proof -
  obtain body signatures where s: "split_blank txt = Some (body, signatures)" and l: "length txt \<le> 64 * 1024"
    using assms by (cases "split_blank txt") (auto simp: checkpoint_verify_def split: if_splits)
  obtain origin size_text rest where "str_lines body = origin # size_text # rest"
    using assms s l by (auto simp: checkpoint_verify_def split: list.splits)
  moreover from this obtain root_b64 where "rest = [root_b64]"
    using assms s l by (cases rest) (auto simp: checkpoint_verify_def and_then_eq_Ok split: if_splits)
  ultimately have b: "str_lines body = [origin, size_text, root_b64]" by simp
  obtain size where z: "parse_unsigned (2 ^ 64) size_text = Some size"
    using assms s l b by (auto simp: checkpoint_verify_def and_then_eq_Ok)
  then have "size < 2 ^ 64" by (auto simp: parse_unsigned_def Let_def split: if_splits)
  then have "unat (word_of_nat size :: u64) = size" by (simp add: unat_of_nat take_bit_eq_mod)
  moreover have "\<exists>root. unb64 root_b64 = Some root \<and> length root = 32
      \<and> has_valid_signature C body signatures origin key
      \<and> c = \<lparr>ck_origin = origin, ck_size = word_of_nat size, ck_root = root\<rparr>"
    using assms s l b z by (auto simp: checkpoint_verify_def split: option.splits if_splits)
  ultimately show ?thesis using that l s b z by (auto simp: unb64_iff)
qed

lemma str_lines_no_break: "l \<in> set (str_lines s) \<Longrightarrow> NL \<notin> set l"
proof -
  have "NL \<notin> set (strip_cr x)" if "x \<in> set (split_on NL s)" for x
    using split_on_no_sep [OF that] by (auto simp: strip_cr_def dest: in_set_butlastD)
  then show "l \<in> set (str_lines s) \<Longrightarrow> NL \<notin> set l"
    using split_on_no_sep [of l NL s]
    by (auto simp: str_lines_def Let_def dest: in_set_butlastD split: if_splits)
qed

lemma checkpoint_verify_origin: "checkpoint_verify C t key = Ok c \<Longrightarrow> NL \<notin> set (ck_origin c)"
  by (erule checkpoint_verify_Ok) (metis list.set_intros(1) str_lines_no_break)

lemma checkpoint_verify_complete:
  assumes "length txt \<le> 64 * 1024" "split_blank txt = Some (body, signatures)"
    "str_lines body = [ck_origin c, decimal (unat (ck_size c)), b64 (ck_root c)]" "length (ck_root c) = 32"
    "has_valid_signature C body signatures (ck_origin c) key"
  shows "checkpoint_verify C txt key = Ok c"
proof -
  have "unat (ck_size c) < 2 ^ 64" using unat_lt2p [of "ck_size c"] by simp
  then show ?thesis using assms by (simp add: checkpoint_verify_def parse_decimal)
qed

text \<open>An origin that survives being written on a line of its own and as the name of a signature line.\<close>

definition plain_name :: "string \<Rightarrow> bool" where
  "plain_name s \<longleftrightarrow> NL \<notin> set s \<and> CHR 0x20 \<notin> set s \<and> CHR 0x0D \<notin> set s"

lemma split_blank_sign:
  assumes "plain_name (ck_origin c)" "ck_root c \<noteq> []"
  shows "split_blank (checkpoint_sign C c key @ tail) = Some (butlast (checkpoint_body c),
    signature_line (ck_origin c) (key_hash C (ck_origin c) (ed_public C key) @ ed_sign C key (as_bytes (checkpoint_body c))) @ tail)"
  using split_blank_body [of "ck_origin c" "ck_root c" "unat (ck_size c)"] assms
  by (simp add: checkpoint_sign_def Let_def plain_name_def checkpoint_body_def butlast_append)

lemma checkpoint_body_snoc: "butlast (checkpoint_body c) @ [NL] = checkpoint_body c"
  by (simp add: checkpoint_body_def butlast_append)

lemma str_lines_checkpoint_body:
  assumes "plain_name (ck_origin c)" "ck_root c \<noteq> []"
  shows "str_lines (butlast (checkpoint_body c)) = [ck_origin c, decimal (unat (ck_size c)), b64 (ck_root c)]"
  using str_lines_body [of "ck_origin c" "ck_root c" "unat (ck_size c)"] assms
  by (simp add: checkpoint_body_def butlast_append plain_name_def strip_cr_id)

lemma verify_sign:
  assumes "hash_contract C" "signature_contract C" "length key = 32"
    and "plain_name (ck_origin c)" "length (ck_root c) = 32" "length (checkpoint_sign C c key @ tail) \<le> 64 * 1024"
  shows "checkpoint_verify C (checkpoint_sign C c key @ tail) (ed_public C key) = Ok c"
proof -
  let ?blob = "key_hash C (ck_origin c) (ed_public C key) @ ed_sign C key (as_bytes (checkpoint_body c))"
  have r: "ck_root c \<noteq> []" using assms(5) by auto
  have "length ?blob = 68" "take 4 ?blob = key_hash C (ck_origin c) (ed_public C key)"
      "drop 4 ?blob = ed_sign C key (as_bytes (checkpoint_body c))"
    using assms(1,2,3) by (simp_all add: key_hash_def hash_contract_def signature_contract_def)
  moreover have "ed_verify_strict C (ed_public C key) m (ed_sign C key m)" for m
    using assms(2,3) by (simp add: signature_contract_def)
  moreover have "signature_blob (ck_origin c) (SIG_PREFIX @ ck_origin c @ [CHR 0x20] @ b64 ?blob) = Some ?blob"
    using assms(4) by (intro signature_blob_line) (simp add: plain_name_def)
  ultimately have "has_valid_signature C (butlast (checkpoint_body c)) (signature_line (ck_origin c) ?blob @ tail)
      (ck_origin c) (ed_public C key)"
    using str_lines_signature [of "ck_origin c" ?blob tail] assms(4)
    unfolding has_valid_signature_def plain_name_def by (simp add: checkpoint_body_snoc)
  then show ?thesis
    using assms(4,5,6) r
    by (intro checkpoint_verify_complete [OF _ split_blank_sign]) (simp_all add: str_lines_checkpoint_body)
qed


section \<open>Quorums\<close>

lemma newest_Max: "newest ts = (if ts = [] then None else Some (Max (set ts)))"
  by (cases ts) (simp_all add: newest_def Max.set_eq_fold [symmetric] del: set_simps(2) List.list.set(2))

lemma newest_Some: "newest ts = Some t \<Longrightarrow> t \<in> set ts"
  by (auto simp: newest_Max split: if_splits)

lemma newest_ge: "x \<in> set ts \<Longrightarrow> \<exists>t. newest ts = Some t \<and> x \<le> t"
  by (auto simp: newest_Max)

lemma duplicate_witness_distinct:
  "\<not> duplicate_witness prior ws \<Longrightarrow> distinct ws \<and> set prior \<inter> set ws = {}"
proof (induction ws arbitrary: prior)
  case (Cons w ws)
  then show ?case using Cons.IH [of "prior @ [w]"] by (auto simp: list_ex_iff)
qed simp

text \<open>
  A note carries a witness's cosignature at a time: one of its lines verifies under the witness's name and
  key over the note's own body and that time.
\<close>

definition cosigned :: "crypto \<Rightarrow> string \<Rightarrow> witness_key \<Rightarrow> u64 \<Rightarrow> bool" where
  "cosigned C txt w timestamp \<longleftrightarrow>
     (case split_blank txt of None \<Rightarrow> False
      | Some (body, signatures) \<Rightarrow>
          list_ex (\<lambda>line. valid_cosignature C body (wk_name w) (wk_key w) None line = Some timestamp) (str_lines signatures))"

definition in_window :: "(u64 \<times> u64 \<times> u64) option \<Rightarrow> u64 \<Rightarrow> bool" where
  "in_window freshness timestamp \<longleftrightarrow>
     (case freshness of None \<Rightarrow> True
      | Some (now, max_age, future_skew) \<Rightarrow>
          unat now - unat max_age \<le> unat timestamp \<and> unat timestamp \<le> unat now + unat future_skew)"

lemma valid_cosignature_Some:
  assumes "valid_cosignature C body name key freshness line = Some t"
  shows "in_window freshness t" "valid_cosignature C body name key None line = Some t"
proof -
  have fresh: "\<not> (case freshness of None \<Rightarrow> False
      | Some (now, max_age, future_skew) \<Rightarrow> t > saturating_add now future_skew \<or> t < saturating_sub now max_age)"
    and "valid_cosignature C body name key None line = Some t"
    using assms by (auto simp: valid_cosignature_def Let_def bind_eq_Some_conv split: if_splits)
  then show "valid_cosignature C body name key None line = Some t" by blast
  show "in_window freshness t"
  proof (cases freshness)
    case (Some f)
    obtain now age skew where f: "f = (now, age, skew)" by (cases f)
    have "\<not> t > saturating_add now skew" "\<not> t < saturating_sub now age" using fresh Some f by auto
    then have "unat t \<le> min (unat now + unat skew) (2 ^ 64 - 1)" "unat now - unat age \<le> unat t"
      by (simp_all add: word_less_nat_alt word_le_nat_alt not_less unat_saturating_add unat_saturating_sub)
    then show ?thesis by (simp add: Some f in_window_def)
  qed (simp add: in_window_def)
qed

lemma newest_valid_cosignature_Some:
  assumes "newest_valid_cosignature C body signatures (wk_name w) (wk_key w) freshness = Some t"
    and "split_blank txt = Some (body, signatures)"
  shows "cosigned C txt w t" "in_window freshness t"
proof -
  obtain line where l: "line \<in> set (str_lines signatures)"
      "valid_cosignature C body (wk_name w) (wk_key w) freshness line = Some t"
    using newest_Some [OF assms(1) [unfolded newest_valid_cosignature_def]]
    by (auto simp: List.map_filter_def)
  show "in_window freshness t" using valid_cosignature_Some(1) [OF l(2)] .
  show "cosigned C txt w t" using valid_cosignature_Some(2) [OF l(2)] l(1) assms(2)
    by (auto simp: cosigned_def list_ex_iff)
qed

lemma verify_witness_policy_Ok:
  assumes "verify_witness_policy C txt rk ws t freshness = Ok v" "t \<noteq> 0"
  obtains body signatures where
    "checkpoint_verify C txt rk = Ok (vc_checkpoint v)" "split_blank txt = Some (body, signatures)"
    "t \<le> length ws" "length ws < 2 * t" "distinct ws"
    "t \<le> length (List.map_filter (\<lambda>w. newest_valid_cosignature C body signatures (wk_name w) (wk_key w) freshness) ws)"
    "witnessed_at v = Some (rev (sort (List.map_filter
       (\<lambda>w. newest_valid_cosignature C body signatures (wk_name w) (wk_key w) freshness) ws)) ! (t - 1))"
proof -
  have q: "witness_quorum_intersects t (length ws)" and d: "\<not> duplicate_witness [] ws"
    and r: "and_then (checkpoint_verify C txt rk) (\<lambda>c.
        and_then (ok_or (split_blank txt) (MalformedCheckpoint ''missing signature block'')) (\<lambda>(body, signatures).
        let verified = List.map_filter (\<lambda>w. newest_valid_cosignature C body signatures (wk_name w) (wk_key w) freshness) ws
        in if length verified < t
           then Err (MalformedCheckpoint ''fresh witness cosignature threshold not met'')
           else Ok \<lparr>vc_checkpoint = c, witnessed_at = Some (rev (sort verified) ! (t - 1))\<rparr>)) = Ok v"
    using assms by (simp_all add: verify_witness_policy_def split: if_splits)
  have "distinct ws" using duplicate_witness_distinct [OF d] by simp
  moreover have "t \<le> length ws" "length ws < 2 * t" using q by (auto simp: witness_quorum_intersects_def)
  ultimately show ?thesis
    using r that by (auto simp: and_then_eq_Ok Let_def split: if_splits)
qed

lemma map_filter_count: "length (List.map_filter f xs) = length (filter (\<lambda>x. f x \<noteq> None) xs)"
  by (induction xs) (auto simp: List.map_filter_def)

text \<open>The members of the roster whose cosignature counted.\<close>

lemma quorum_members:
  assumes "verify_witness_policy C txt rk ws t freshness = Ok v" "t \<noteq> 0"
  shows "\<exists>Q \<subseteq> set ws. t \<le> card Q \<and> (\<forall>w \<in> Q. \<exists>s. cosigned C txt w s \<and> in_window freshness s)"
proof -
  obtain body signatures where p: "split_blank txt = Some (body, signatures)" "distinct ws"
    "t \<le> length (List.map_filter (\<lambda>w. newest_valid_cosignature C body signatures (wk_name w) (wk_key w) freshness) ws)"
    by (rule verify_witness_policy_Ok [OF assms], rule that; assumption)
  let ?f = "\<lambda>w. newest_valid_cosignature C body signatures (wk_name w) (wk_key w) freshness"
  let ?Q = "set (filter (\<lambda>w. ?f w \<noteq> None) ws)"
  have "t \<le> card ?Q" using p(2,3) by (simp only: map_filter_count distinct_card distinct_filter)
  moreover have "\<exists>s. cosigned C txt w s \<and> in_window freshness s" if "w \<in> ?Q" for w
    using that newest_valid_cosignature_Some [OF _ p(1)] by fastforce
  ultimately show ?thesis by (intro exI [of _ ?Q]) auto
qed

text \<open>Two majorities of one roster share more members than the roster has faulty ones.\<close>

lemma quorums_meet:
  assumes "finite R" "Q1 \<subseteq> R" "Q2 \<subseteq> R" "t \<le> card Q1" "t \<le> card Q2" "F \<subseteq> R" "card R + card F < 2 * t"
  shows "\<exists>w. w \<in> Q1 \<and> w \<in> Q2 \<and> w \<in> R - F"
proof (rule ccontr)
  assume "\<nexists>w. w \<in> Q1 \<and> w \<in> Q2 \<and> w \<in> R - F"
  then have "Q1 \<inter> Q2 \<subseteq> F" using assms(2) by blast
  moreover have fin: "finite Q1" "finite Q2" "finite F" using assms finite_subset by blast+
  ultimately have "card (Q1 \<inter> Q2) \<le> card F" by (simp add: card_mono)
  moreover have "card (Q1 \<union> Q2) \<le> card R" using assms by (simp add: card_mono)
  moreover have "card Q1 + card Q2 = card (Q1 \<union> Q2) + card (Q1 \<inter> Q2)" by (rule card_Un_Int [OF fin(1,2)])
  ultimately show False using assms(4,5,7) by linarith
qed


section \<open>A quorum of cosignatures is accepted\<close>

lemma witness_key_new_Ok:
  "witness_key_new C name key = Ok w \<Longrightarrow> plain_name name \<and> w = \<lparr>wk_name = name, wk_key = key\<rparr>"
  by (auto simp: witness_key_new_def plain_name_def list_ex_iff is_ascii_whitespace_def split: if_splits)

lemma cosignature_line_Ok:
  assumes "cosignature_line C c name sk ts = Ok line"
  shows "plain_name name" "ts \<le> I64_MAX"
    "line = signature_line name (cosignature_key_hash C name (ed_public C sk) @ u64_be ts
       @ ed_sign C sk (cosignature_message ts (checkpoint_body c)))"
  using assms by (auto simp: cosignature_line_def and_then_eq_Ok Let_def dest: witness_key_new_Ok split: if_splits)

lemma valid_cosignature_line:
  assumes "hash_contract C" "signature_contract C" "length sk = 32"
    and "cosignature_line C c name sk ts = Ok line" "in_window freshness ts"
  shows "line \<noteq> []" "NL \<notin> set (butlast line)" "line = butlast line @ [NL]" "strip_cr (butlast line) = butlast line"
    "valid_cosignature C (butlast (checkpoint_body c)) name (ed_public C sk) freshness (butlast line) = Some ts"
proof -
  note l = cosignature_line_Ok [OF assms(4)]
  let ?blob = "cosignature_key_hash C name (ed_public C sk) @ u64_be ts
    @ ed_sign C sk (cosignature_message ts (checkpoint_body c))"
  have b: "butlast line = SIG_PREFIX @ name @ [CHR 0x20] @ b64 ?blob" and s: "line = butlast line @ [NL]"
    by (simp_all add: l(3) signature_line_def butlast_append)
  show "line \<noteq> []" "line = butlast line @ [NL]" using s by auto
  show "NL \<notin> set (butlast line)" using l(1) unfolding b by (simp add: SIG_PREFIX_def plain_name_def)
  show "strip_cr (butlast line) = butlast line" unfolding b by (rule strip_cr_signature)
  have blob: "signature_blob name (butlast line) = Some ?blob"
    using l(1) unfolding b by (intro signature_blob_line) (simp add: plain_name_def)
  have len: "length ?blob = 76" "take 4 ?blob = cosignature_key_hash C name (ed_public C sk)"
      "take 8 (drop 4 ?blob) = u64_be ts" "drop 12 ?blob = ed_sign C sk (cosignature_message ts (checkpoint_body c))"
    using assms(1,2,3) by (simp_all add: cosignature_key_hash_def hash_contract_def signature_contract_def)
  have v: "ed_verify_strict C (ed_public C sk) m (ed_sign C sk m)" for m
    using assms(2,3) by (simp add: signature_contract_def)
  have fresh: "\<not> (case freshness of None \<Rightarrow> False
      | Some (now, age, skew) \<Rightarrow> ts > saturating_add now skew \<or> ts < saturating_sub now age)"
    using assms(5) unat_lt2p [of ts]
    by (auto simp: in_window_def word_less_nat_alt unat_saturating_add unat_saturating_sub split: option.splits)
  show "valid_cosignature C (butlast (checkpoint_body c)) name (ed_public C sk) freshness (butlast line) = Some ts"
    unfolding valid_cosignature_def blob using len v l(2) fresh by (simp add: checkpoint_body_snoc not_less)
qed

text \<open>Who cosigned, with which key and when, and the lines they returned.\<close>

definition cosigned_by :: "crypto \<Rightarrow> checkpoint \<Rightarrow> (string \<times> bytes \<times> u64) list \<Rightarrow> string list \<Rightarrow> bool" where
  "cosigned_by C c signers lines \<longleftrightarrow>
     list_all2 (\<lambda>(name, sk, ts) line. length sk = 32 \<and> cosignature_line C c name sk ts = Ok line) signers lines"

definition covered :: "crypto \<Rightarrow> (string \<times> bytes \<times> u64) list \<Rightarrow> (u64 \<times> u64 \<times> u64) option \<Rightarrow> witness_key \<Rightarrow> bool" where
  "covered C signers freshness w \<longleftrightarrow>
     list_ex (\<lambda>(name, sk, ts). wk_name w = name \<and> wk_key w = ed_public C sk \<and> in_window freshness ts) signers"

lemma cosigned_lines:
  assumes "hash_contract C" "signature_contract C" "cosigned_by C c signers lines"
  shows "str_lines (concat lines) = map butlast lines"
proof -
  have "list_all (\<lambda>l. NL \<notin> set (butlast l) \<and> l = butlast l @ [NL] \<and> strip_cr (butlast l) = butlast l) lines"
    using assms(3) valid_cosignature_line(2,3,4) [OF assms(1,2), where freshness = None]
    unfolding cosigned_by_def by (induction rule: list_all2_induct) (auto simp: in_window_def)
  then have "concat lines = concat (map (\<lambda>l. l @ [NL]) (map butlast lines))"
    and "list_all (\<lambda>l. NL \<notin> set l) (map butlast lines)" "map strip_cr (map butlast lines) = map butlast lines"
    by (induction lines) auto
  then show ?thesis by (metis str_lines_concat)
qed

lemma covered_newest:
  assumes "hash_contract C" "signature_contract C" "cosigned_by C c signers lines" "covered C signers freshness w"
    and "str_lines signatures = l # map butlast lines"
  shows "newest_valid_cosignature C (butlast (checkpoint_body c)) signatures (wk_name w) (wk_key w) freshness \<noteq> None"
proof -
  obtain sk ts where s: "(wk_name w, sk, ts) \<in> set signers" "wk_key w = ed_public C sk" "in_window freshness ts"
    using assms(4) by (auto simp: covered_def list_ex_iff)
  then obtain line where "line \<in> set lines" "length sk = 32" "cosignature_line C c (wk_name w) sk ts = Ok line"
    using assms(3) unfolding cosigned_by_def by (fastforce simp: list_all2_conv_all_nth in_set_conv_nth)
  moreover from this have "valid_cosignature C (butlast (checkpoint_body c)) (wk_name w) (wk_key w) freshness (butlast line) = Some ts"
    using valid_cosignature_line(5) [OF assms(1,2) _ _ s(3)] s(2) by simp
  ultimately have "ts \<in> set (List.map_filter (valid_cosignature C (butlast (checkpoint_body c)) (wk_name w) (wk_key w) freshness)
      (str_lines signatures))"
    unfolding assms(5) List.map_filter_def by force
  then show ?thesis using newest_ge unfolding newest_valid_cosignature_def by fastforce
qed

lemma length_filter_mono: "(\<And>x. P x \<Longrightarrow> Q x) \<Longrightarrow> length (filter P xs) \<le> length (filter Q xs)"
  by (induction xs) (auto intro: le_SucI)

lemma quorum_note_verifies:
  assumes "hash_contract C" "signature_contract C" "length key = 32"
    and "plain_name (ck_origin c)" "length (ck_root c) = 32"
    and "\<not> duplicate_witness [] ws" "witness_quorum_intersects t (length ws)"
    and "cosigned_by C c signers lines" "t \<le> length (filter (covered C signers freshness) ws)"
    and "length (checkpoint_sign C c key @ concat lines) \<le> 64 * 1024"
  shows "\<exists>v. verify_witness_policy C (checkpoint_sign C c key @ concat lines) (ed_public C key) ws t freshness = Ok v
    \<and> vc_checkpoint v = c"
proof -
  let ?txt = "checkpoint_sign C c key @ concat lines"
  let ?body = "butlast (checkpoint_body c)"
  let ?sigs = "signature_line (ck_origin c) (key_hash C (ck_origin c) (ed_public C key)
    @ ed_sign C key (as_bytes (checkpoint_body c))) @ concat lines"
  let ?f = "\<lambda>w. newest_valid_cosignature C ?body ?sigs (wk_name w) (wk_key w) freshness"
  have s: "split_blank ?txt = Some (?body, ?sigs)"
    by (rule split_blank_sign [OF assms(4)]) (use assms(5) in auto)
  have ls: "\<exists>l. str_lines ?sigs = l # map butlast lines"
    using str_lines_signature [of "ck_origin c"] cosigned_lines [OF assms(1,2,8)] assms(4) by (simp add: plain_name_def)
  then have "?f w \<noteq> None" if "covered C signers freshness w" for w
    using covered_newest [OF assms(1,2,8) that] by blast
  then have "length (filter (covered C signers freshness) ws) \<le> length (filter (\<lambda>w. ?f w \<noteq> None) ws)"
    by (rule length_filter_mono)
  then have "\<not> length (List.map_filter ?f ws) < t" using assms(9) by (simp add: map_filter_count)
  then show ?thesis
    using assms(6,7) s verify_sign [OF assms(1-5,10)]
    by (simp add: verify_witness_policy_def witness_quorum_intersects_def Let_def)
qed


section \<open>Properties\<close>

lemma nth_rev_sort_count:
  assumes "0 < t" "t \<le> length xs"
  shows "t \<le> length (filter (\<lambda>x. rev (sort xs) ! (t - 1) \<le> x) xs)" "rev (sort xs) ! (t - 1) \<in> set (xs :: u64 list)"
proof -
  let ?D = "rev (sort xs)"
  have "?D ! (t - 1) \<le> ?D ! i" if "i < t" for i
    using that assms by (intro sorted_rev_nth_mono) auto
  then have "filter (\<lambda>x. ?D ! (t - 1) \<le> x) (take t ?D) = take t ?D"
    by (auto simp: filter_id_conv in_set_conv_nth)
  then have "t \<le> length (filter (\<lambda>x. ?D ! (t - 1) \<le> x) (take t ?D @ drop t ?D))"
    using assms by (simp only: filter_append length_append) simp
  then show "t \<le> length (filter (\<lambda>x. ?D ! (t - 1) \<le> x) xs)"
    by (simp add: filter_sort flip: rev_filter)
  show "?D ! (t - 1) \<in> set xs" using assms nth_mem [of "t - 1" ?D] by simp
qed

lemma map_filter_filter_count:
  "length (filter P (List.map_filter f xs)) = length (filter (\<lambda>x. \<exists>y. f x = Some y \<and> P y) xs)"
  by (induction xs) (auto simp: List.map_filter_def)

definition example_checkpoint :: checkpoint where
  "example_checkpoint = \<lparr>ck_origin = ''log.example'', ck_size = 3, ck_root = replicate 32 5\<rparr>"

definition example_roster :: "witness_key list" where
  "example_roster = map (\<lambda>(n, k). \<lparr>wk_name = n, wk_key = replicate 32 k\<rparr>) [(''ann'', 2), (''bob'', 3), (''cat'', 4)]"

definition example_cosigners :: "(string \<times> bytes \<times> u64) list" where
  "example_cosigners = [(''ann'', replicate 32 2, 100), (''cat'', replicate 32 4, 104)]"

definition example_line :: "checkpoint \<Rightarrow> string \<times> bytes \<times> u64 \<Rightarrow> string" where
  "example_line c s = (case s of (n, k, t) \<Rightarrow>
     signature_line n (cosignature_key_hash toy n k @ u64_be t @ ed_sign toy k (cosignature_message t (checkpoint_body c))))"

definition example_note :: string where
  "example_note = checkpoint_sign toy example_checkpoint (replicate 32 1)
     @ concat (map (example_line example_checkpoint) example_cosigners)"

lemma length_signature_line [simp]: "length (signature_line n b) = length n + 4 * ((length b + 2) div 3) + 6"
  by (simp add: signature_line_def SIG_PREFIX_def length_b64)

lemma toy_ed [simp]: "ed_public toy k = k" "length (ed_sign toy k m) = length k + 32" "ed_is_weak toy k = False"
  "length (key_hash toy n k) = 4" "length (cosignature_key_hash toy n k) = 4"
  by (simp_all add: toy_def key_hash_def cosignature_key_hash_def)

lemma example_cosigned: "cosigned_by toy example_checkpoint example_cosigners (map (example_line example_checkpoint) example_cosigners)"
  by (simp add: cosigned_by_def example_cosigners_def example_line_def cosignature_line_def witness_key_new_def Let_def
      I64_MAX_def is_ascii_control_def is_ascii_whitespace_def)

lemma example_note_facts:
  "length example_note \<le> 64 * 1024" "plain_name (ck_origin example_checkpoint)" "length (ck_root example_checkpoint) = 32"
  "\<not> duplicate_witness [] example_roster" "length example_roster = 3" "witness_quorum_intersects 2 (length example_roster)"
  "freshness = None \<or> freshness = Some (110, 60, 5) \<Longrightarrow>
    length (filter (covered toy example_cosigners freshness) example_roster) = 2"
proof -
  show "length example_note \<le> 64 * 1024"
    by (simp add: example_note_def checkpoint_sign_def Let_def checkpoint_body_def example_checkpoint_def length_b64
        decimal.simps [of 3] example_cosigners_def example_line_def)
  show "plain_name (ck_origin example_checkpoint)" "length (ck_root example_checkpoint) = 32"
    by (simp_all add: example_checkpoint_def plain_name_def)
  show "\<not> duplicate_witness [] example_roster" by (simp add: example_roster_def)
  show "length example_roster = 3" "witness_quorum_intersects 2 (length example_roster)"
    by (simp_all add: example_roster_def witness_quorum_intersects_def)
  show "freshness = None \<or> freshness = Some (110, 60, 5) \<Longrightarrow>
    length (filter (covered toy example_cosigners freshness) example_roster) = 2"
    by (auto simp: covered_def example_cosigners_def example_roster_def in_window_def)
qed


text \<open>C21. A note that the log signed and a quorum of the roster cosigned inside the freshness window is accepted, both
  with and without the freshness check, and yields the checkpoint that was signed.\<close>

theorem quorum_note_accepted:
  assumes "hash_contract C" "signature_contract C" "length key = 32"
    and "plain_name (ck_origin c)" "length (ck_root c) = 32"
    and "\<not> duplicate_witness [] ws" "witness_quorum_intersects t (length ws)"
    and "now \<le> I64_MAX" "age \<noteq> 0" "skew \<le> age"
    and "cosigned_by C c signers lines" "t \<le> length (filter (covered C signers (Some (now, age, skew))) ws)"
    and "length (checkpoint_sign C c key @ concat lines) \<le> 64 * 1024"
  shows "(\<exists>v. verify_with_fresh_witnesses C (checkpoint_sign C c key @ concat lines) (ed_public C key) ws t now age skew = Ok v
      \<and> vc_checkpoint v = c)
    \<and> verify_with_witnesses C (checkpoint_sign C c key @ concat lines) (ed_public C key) ws t = Ok c"
proof -
  have "length (filter (covered C signers (Some (now, age, skew))) ws) \<le> length (filter (covered C signers None) ws)"
    by (rule length_filter_mono) (auto simp: covered_def list_ex_iff in_window_def)
  with assms(12) have "t \<le> length (filter (covered C signers None) ws)" by simp
  then have "verify_with_witnesses C (checkpoint_sign C c key @ concat lines) (ed_public C key) ws t = Ok c"
    using quorum_note_verifies [OF assms(1-7,11) _ assms(13), of None] by (auto simp: verify_with_witnesses_def)
  then show ?thesis
    using quorum_note_verifies [OF assms(1-7,11,12,13)] assms(8-10)
    by (simp add: verify_with_fresh_witnesses_def not_less)
qed

theorem quorum_note_accepted_witness:
  "(\<exists>v. verify_with_fresh_witnesses toy example_note (replicate 32 1) example_roster 2 110 60 5 = Ok v
      \<and> vc_checkpoint v = example_checkpoint)
    \<and> verify_with_witnesses toy example_note (replicate 32 1) example_roster 2 = Ok example_checkpoint"
  using quorum_note_accepted [of toy "replicate 32 1" example_checkpoint example_roster 2 110 60 5 example_cosigners
      "map (example_line example_checkpoint) example_cosigners"] example_cosigned example_note_facts
  by (simp add: I64_MAX_def flip: example_note_def)

text \<open>C17. Freshness: an accepted note has a time of witnessing inside the window, and at least the threshold of
  roster members cosigned that very note at that time or later, one of them at exactly that time. A
  replayed old note, whose cosignatures all lie before the window, is never accepted.\<close>

theorem fresh_quorum_in_window:
  assumes "verify_with_fresh_witnesses C txt rk ws t now age skew = Ok v" "t \<noteq> 0"
  shows "\<exists>at Q. witnessed_at v = Some at \<and> in_window (Some (now, age, skew)) at
    \<and> Q \<subseteq> set ws \<and> t \<le> card Q
    \<and> (\<forall>w \<in> Q. \<exists>s. at \<le> s \<and> in_window (Some (now, age, skew)) s \<and> cosigned C txt w s)
    \<and> (\<exists>w \<in> Q. cosigned C txt w at)"
proof -
  let ?fr = "Some (now, age, skew)"
  have ok: "verify_witness_policy C txt rk ws t ?fr = Ok v"
    using assms(1) by (simp add: verify_with_fresh_witnesses_def split: if_splits)
  obtain body signatures where p: "split_blank txt = Some (body, signatures)" "distinct ws"
      "t \<le> length (List.map_filter (\<lambda>w. newest_valid_cosignature C body signatures (wk_name w) (wk_key w) ?fr) ws)"
      "witnessed_at v = Some (rev (sort (List.map_filter
         (\<lambda>w. newest_valid_cosignature C body signatures (wk_name w) (wk_key w) ?fr) ws)) ! (t - 1))"
    by (rule verify_witness_policy_Ok [OF ok assms(2)], rule that; assumption)
  define f where "f = (\<lambda>w :: witness_key. newest_valid_cosignature C body signatures (wk_name w) (wk_key w) ?fr)"
  define at where "at = rev (sort (List.map_filter f ws)) ! (t - 1)"
  let ?Q = "set (filter (\<lambda>w. \<exists>s. f w = Some s \<and> at \<le> s) ws)"
  have n: "t \<le> length (filter (\<lambda>s. at \<le> s) (List.map_filter f ws))" "at \<in> set (List.map_filter f ws)"
    using nth_rev_sort_count [of t "List.map_filter f ws"] p(3) assms(2) unfolding at_def f_def by auto
  have f: "cosigned C txt w s \<and> in_window ?fr s" if "f w = Some s" for w s
    using newest_valid_cosignature_Some [OF that [unfolded f_def] p(1)] by simp
  have "t \<le> card ?Q" using n(1) p(2) by (simp only: map_filter_filter_count distinct_card distinct_filter)
  moreover obtain w where w: "w \<in> set ws" "f w = Some at" using n(2) by (auto simp: List.map_filter_def)
  moreover have "\<forall>w \<in> ?Q. \<exists>s. at \<le> s \<and> in_window ?fr s \<and> cosigned C txt w s" using f by auto
  ultimately show ?thesis
    using p(4) f [OF w(2)] unfolding f_def [symmetric] at_def [symmetric]
    by (intro exI [of _ at] exI [of _ ?Q]) auto
qed

theorem fresh_quorum_in_window_witness:
  "\<exists>v at Q. verify_with_fresh_witnesses toy example_note (replicate 32 1) example_roster 2 110 60 5 = Ok v
    \<and> witnessed_at v = Some at \<and> in_window (Some (110, 60, 5)) at \<and> Q \<subseteq> set example_roster \<and> 2 \<le> card Q
    \<and> (\<exists>w \<in> Q. cosigned toy example_note w at)"
proof -
  have "\<exists>v. verify_witness_policy toy example_note (replicate 32 1) example_roster 2 (Some (110, 60, 5)) = Ok v"
    using quorum_note_verifies [of toy "replicate 32 1" example_checkpoint example_roster 2 example_cosigners
        "map (example_line example_checkpoint) example_cosigners" "Some (110, 60, 5)"] example_cosigned example_note_facts
    by (auto simp flip: example_note_def)
  then obtain v where v: "verify_with_fresh_witnesses toy example_note (replicate 32 1) example_roster 2 110 60 5 = Ok v"
    by (auto simp: verify_with_fresh_witnesses_def I64_MAX_def)
  show ?thesis
    using fresh_quorum_in_window [OF v] v by (simp, elim exE conjE) (intro exI conjI; assumption)
qed

end
