(* ===== verification/Log_Witness.thy ===== *)
theory Log_Witness
  imports Checkpoint Hex
begin

text \<open>
  The witness service, \<^verbatim>\<open>pigeonpost-witness/src/main.rs\<close>: it keeps the last checkpoint it accepted and cosigns
  a new one only when the new tree extends that one. The clock and whether the state file could be
  written are arguments; the JSON of the state file is a codec given by its two functions.
\<close>

definition MAX_REQUEST_BYTES :: nat where "MAX_REQUEST_BYTES = 64 * 1024"
definition MAX_PROOF_HASHES :: nat where "MAX_PROOF_HASHES = 63"

record stored =
  st_size :: u64
  st_root :: bytes
  st_note :: string

record log_witness =
  sv_name :: string
  sv_signing_key :: bytes
  sv_log_origin :: string
  sv_log_key :: bytes

record stored_codec =
  to_json :: "stored \<Rightarrow> bytes"
  of_json :: "bytes \<Rightarrow> stored option"

definition stored_codec_contract :: "stored_codec \<Rightarrow> bool" where
  "stored_codec_contract D \<longleftrightarrow> (\<forall>s. of_json D (to_json D s) = Some s)"

section \<open>Submissions\<close>

text \<open>\<^verbatim>\<open>std::str::from_utf8\<close>: the byte sequences of the Unicode standard.\<close>

abbreviation utf8_tail :: "nat \<Rightarrow> bool" where
  "utf8_tail b \<equiv> 0x80 \<le> b \<and> b \<le> 0xBF"

fun valid_utf8 :: "nat list \<Rightarrow> bool" where
  "valid_utf8 [] \<longleftrightarrow> True"
| "valid_utf8 (a # bs) \<longleftrightarrow>
     (if a < 0x80 then valid_utf8 bs
      else if 0xC2 \<le> a \<and> a \<le> 0xDF then (case bs of b # r \<Rightarrow> utf8_tail b \<and> valid_utf8 r | _ \<Rightarrow> False)
      else if 0xE0 \<le> a \<and> a \<le> 0xEF then
        (case bs of b # c # r \<Rightarrow>
           utf8_tail b \<and> (a = 0xE0 \<longrightarrow> 0xA0 \<le> b) \<and> (a = 0xED \<longrightarrow> b \<le> 0x9F) \<and> utf8_tail c \<and> valid_utf8 r
         | _ \<Rightarrow> False)
      else if 0xF0 \<le> a \<and> a \<le> 0xF4 then
        (case bs of b # c # d # r \<Rightarrow>
           utf8_tail b \<and> (a = 0xF0 \<longrightarrow> 0x90 \<le> b) \<and> (a = 0xF4 \<longrightarrow> b \<le> 0x8F) \<and> utf8_tail c \<and> utf8_tail d \<and> valid_utf8 r
         | _ \<Rightarrow> False)
      else False)"

definition from_utf8 :: "bytes \<Rightarrow> string option" where
  "from_utf8 bs = (if valid_utf8 (map unat bs) then Some (map (\<lambda>b. char_of (unat b)) bs) else None)"

definition b64_decode :: "string \<Rightarrow> bytes option" where
  "b64_decode input = unb64_loop 0 0 input"

record submission =
  old_size :: u64
  sub_proof :: "bytes list"
  sub_note :: string

fun parse_proof :: "bytes list \<Rightarrow> string list \<Rightarrow> bytes list option" where
  "parse_proof proof [] = Some proof"
| "parse_proof proof (line # lines) =
     (if line = [] then parse_proof proof lines
      else if MAX_PROOF_HASHES \<le> length proof then None
      else case b64_decode line of
          None \<Rightarrow> None
        | Some hash \<Rightarrow> if length hash = 32 then parse_proof (proof @ [hash]) lines else None)"

definition parse_submission :: "string \<Rightarrow> submission option" where
  "parse_submission body =
     Option.bind (split_blank body) (\<lambda>(head, note).
     case split_on NL head of
       [] \<Rightarrow> None
     | first # lines \<Rightarrow>
         Option.bind (Option.bind (strip_prefix ''old '' first) (parse_unsigned (2 ^ 64))) (\<lambda>old.
         Option.bind (parse_proof [] lines) (\<lambda>proof.
         if old = 0 \<and> proof \<noteq> [] then None
         else Some \<lparr>old_size = word_of_nat old, sub_proof = proof, sub_note = note\<rparr>)))"

section \<open>Replies\<close>

record reply =
  rp_status :: nat
  rp_type :: string
  rp_body :: string

definition text_reply :: "nat \<Rightarrow> string \<Rightarrow> reply" where
  "text_reply status body = \<lparr>rp_status = status, rp_type = ''text/plain; charset=utf-8'', rp_body = body\<rparr>"

definition conflict :: "u64 \<Rightarrow> reply" where
  "conflict held = \<lparr>rp_status = 409, rp_type = ''text/x.tlog.size'', rp_body = decimal (unat held) @ [NL]\<rparr>"

section \<open>Adding a checkpoint\<close>

text \<open>The checks on the submitted note alone, before the state is looked at.\<close>

definition read_submission :: "crypto \<Rightarrow> log_witness \<Rightarrow> bytes \<Rightarrow> reply + submission \<times> checkpoint" where
  "read_submission C w body =
     (if MAX_REQUEST_BYTES < length body then Err (text_reply 413 (''submission too large'' @ [NL]))
      else and_then (ok_or (from_utf8 body) (text_reply 400 (''submission is not UTF-8'' @ [NL]))) (\<lambda>txt.
      and_then (ok_or (parse_submission txt) (text_reply 400 (''malformed submission'' @ [NL]))) (\<lambda>sub.
      and_then (map_err (checkpoint_verify C (sub_note sub) (sv_log_key w))
                  (text_reply 403 (''checkpoint signature did not verify'' @ [NL]))) (\<lambda>c.
      if ck_origin c \<noteq> sv_log_origin w then Err (text_reply 403 (''checkpoint is for another log'' @ [NL]))
      else if ck_size c = 0 \<and> ck_root c \<noteq> empty_root C
      then Err (text_reply 422 (''empty checkpoint has an invalid root'' @ [NL]))
      else Ok (sub, c)))))"

text \<open>The match on the stored checkpoint: whether the new tree extends the one this witness holds.\<close>

definition extends_stored :: "crypto \<Rightarrow> stored option \<Rightarrow> submission \<Rightarrow> checkpoint \<Rightarrow> reply + unit" where
  "extends_stored C state sub c =
     (case state of
        None \<Rightarrow> if old_size sub \<noteq> 0 then Err (conflict 0) else Ok ()
      | Some st \<Rightarrow>
          if old_size sub \<noteq> st_size st then Err (conflict (st_size st))
          else if ck_size c = st_size st then
            (if ck_root c \<noteq> st_root st
             then Err (text_reply 403 (''tree size unchanged but root differs '' @ [CHR 0xE2, CHR 0x80, CHR 0x94]
                    @ '' the log was rewritten'' @ [NL]))
             else Ok ())
          else if st_size st = 0 then
            (if st_root st \<noteq> empty_root C then Err (text_reply 403 (''stored empty root is invalid'' @ [NL])) else Ok ())
          else if \<not> verify_consistency C (st_size st) (st_root st) (ck_size c) (ck_root c) (sub_proof sub)
          then Err (text_reply 403 (''consistency proof did not verify'' @ [NL]))
          else Ok ())"

record witness_state =
  ws_state :: "stored option"
  ws_file :: "bytes option"

text \<open>
  A new file replaces the old one by a rename after it was written completely, so a failed save leaves the
  old file.
\<close>

definition save_state :: "stored_codec \<Rightarrow> stored \<Rightarrow> bool \<Rightarrow> bytes option \<Rightarrow> bytes option" where
  "save_state D st written file = (if written then Some (to_json D st) else file)"

definition load_state :: "stored_codec \<Rightarrow> bytes option \<Rightarrow> stored option" where
  "load_state D file = Option.bind file (of_json D)"

definition add_checkpoint ::
  "crypto \<Rightarrow> log_witness \<Rightarrow> stored_codec \<Rightarrow> u64 \<Rightarrow> bool \<Rightarrow> bytes \<Rightarrow> witness_state \<Rightarrow> reply \<times> witness_state" where
  "add_checkpoint C w D now written body s =
     (case and_then (read_submission C w body) (\<lambda>(sub, c).
        and_then (extends_stored C (ws_state s) sub c) (\<lambda>_.
        and_then (map_err (cosignature_line C c (sv_name w) (sv_signing_key w) now)
                    (text_reply 500 (''could not cosign'' @ [NL]))) (\<lambda>line. Ok (sub, c, line))))
      of Inl r \<Rightarrow> (r, s)
       | Inr (sub, c, line) \<Rightarrow>
           (let next = \<lparr>st_size = ck_size c, st_root = ck_root c, st_note = sub_note sub\<rparr> in
            if \<not> written then (text_reply 500 (''could not persist'' @ [NL]), s)
            else (text_reply 200 line, \<lparr>ws_state = Some next, ws_file = save_state D next written (ws_file s)\<rparr>)))"

definition monitoring :: "crypto \<Rightarrow> log_witness \<Rightarrow> string \<Rightarrow> witness_state \<Rightarrow> reply" where
  "monitoring C w origin_hash s =
     (if origin_hash \<noteq> to_hex (sha256 C (as_bytes (sv_log_origin w)))
      then text_reply 404 (''unknown log'' @ [NL])
      else case ws_state s of
          Some st \<Rightarrow> text_reply 200 (st_note st)
        | None \<Rightarrow> text_reply 404 (''nothing observed yet'' @ [NL]))"

section \<open>Starting\<close>

text \<open>The key file is given by its trimmed text. Any refusal, with whatever message, ends the program.\<close>

definition read_signing_key :: "string \<Rightarrow> bytes option" where
  "read_signing_key hex = (if length hex \<noteq> 64 then None else from_hex_pairs hex)"

definition read_verifying_key :: "crypto \<Rightarrow> string \<Rightarrow> bytes option" where
  "read_verifying_key C hex =
     (if length hex \<noteq> 64 then None
      else Option.bind (from_hex_pairs hex) (\<lambda>k. if ed_decodes C k then Some k else None))"

text \<open>The start of the service: a witness may not bear the name of the log it observes.\<close>

definition start ::
  "crypto \<Rightarrow> stored_codec \<Rightarrow> string \<Rightarrow> string \<Rightarrow> string \<Rightarrow> string \<Rightarrow> bytes option \<Rightarrow> (log_witness \<times> witness_state) option" where
  "start C D name log_origin log_key_hex key_file file =
     (if name = log_origin then None
      else Option.bind (read_verifying_key C log_key_hex) (\<lambda>log_key.
      Option.bind (read_signing_key key_file) (\<lambda>signing_key.
      Some (\<lparr>sv_name = name, sv_signing_key = signing_key, sv_log_origin = log_origin, sv_log_key = log_key\<rparr>,
            \<lparr>ws_state = load_state D file, ws_file = file\<rparr>))))"


section \<open>Runs\<close>

datatype witness_event = Submit u64 bool bytes | Restart

text \<open>What the service hands out with a cosignature: the checkpoint, the time, and what it was checked against.\<close>

record release =
  rl_checkpoint :: checkpoint
  rl_time :: u64
  rl_prior :: "stored option"
  rl_proof :: "bytes list"

definition step_release ::
  "crypto \<Rightarrow> log_witness \<Rightarrow> stored_codec \<Rightarrow> u64 \<Rightarrow> bool \<Rightarrow> bytes \<Rightarrow> witness_state \<Rightarrow> release list" where
  "step_release C w D now written body s =
     (if rp_status (fst (add_checkpoint C w D now written body s)) \<noteq> 200 then []
      else case read_submission C w body of
          Inl _ \<Rightarrow> []
        | Inr (sub, c) \<Rightarrow> [\<lparr>rl_checkpoint = c, rl_time = now, rl_prior = ws_state s, rl_proof = sub_proof sub\<rparr>])"

definition witness_step ::
  "crypto \<Rightarrow> log_witness \<Rightarrow> stored_codec \<Rightarrow> witness_event \<Rightarrow> witness_state \<Rightarrow> release list \<times> witness_state" where
  "witness_step C w D e s =
     (case e of
        Submit now written body \<Rightarrow>
          (step_release C w D now written body s, snd (add_checkpoint C w D now written body s))
      | Restart \<Rightarrow> ([], \<lparr>ws_state = load_state D (ws_file s), ws_file = ws_file s\<rparr>))"

fun witness_run ::
  "crypto \<Rightarrow> log_witness \<Rightarrow> stored_codec \<Rightarrow> witness_event list \<Rightarrow> witness_state \<Rightarrow> release list \<times> witness_state" where
  "witness_run C w D [] s = ([], s)"
| "witness_run C w D (e # es) s =
     (let (rs, s') = witness_step C w D e s; (rs', s'') = witness_run C w D es s' in (rs @ rs', s''))"

definition fresh_witness :: witness_state where
  "fresh_witness = \<lparr>ws_state = None, ws_file = None\<rparr>"

section \<open>One submission\<close>

lemma parse_submission_Some:
  assumes "parse_submission body = Some sub"
  shows "hashes (sub_proof sub)" "old_size sub = 0 \<Longrightarrow> sub_proof sub = []"
proof -
  obtain head nt where h: "split_blank body = Some (head, nt)"
    using assms by (auto simp: parse_submission_def bind_eq_Some_conv)
  obtain first lines where l: "split_on NL head = first # lines" by (cases "split_on NL head") auto
  obtain y old pf where q: "parse_unsigned (2 ^ 64) y = Some old" "parse_proof [] lines = Some pf"
      "old = 0 \<Longrightarrow> pf = []" "sub = \<lparr>old_size = word_of_nat old, sub_proof = pf, sub_note = nt\<rparr>"
    using assms h l by (auto simp: parse_submission_def bind_eq_Some_conv split: if_splits)
  have "hashes ps \<Longrightarrow> parse_proof ps ls = Some qs \<Longrightarrow> hashes qs" for ps ls qs
    by (induction ps ls rule: parse_proof.induct) (auto split: if_splits option.splits)
  from this [OF _ q(2)] show "hashes (sub_proof sub)" by (simp add: q(4))
  have "old < 2 ^ 64" using q(1) by (auto simp: parse_unsigned_def Let_def split: if_splits)
  then have "unat (word_of_nat old :: u64) = old" by (simp add: unat_of_nat take_bit_eq_mod)
  then show "old_size sub = 0 \<Longrightarrow> sub_proof sub = []" using q(3,4) by (metis submission.select_convs(1,2) unat_0)
qed

lemma read_submission_Ok:
  assumes "read_submission C w body = Ok (sub, c)"
  shows "checkpoint_verify C (sub_note sub) (sv_log_key w) = Ok c" "ck_origin c = sv_log_origin w"
    "ck_size c = 0 \<Longrightarrow> ck_root c = empty_root C" "hashes (sub_proof sub)" "length (ck_root c) = 32"
    "old_size sub = 0 \<Longrightarrow> sub_proof sub = []"
proof -
  obtain t where p: "parse_submission t = Some sub"
    using assms by (auto simp: read_submission_def and_then_eq_Ok split: if_splits)
  show v: "checkpoint_verify C (sub_note sub) (sv_log_key w) = Ok c" "ck_origin c = sv_log_origin w"
    "ck_size c = 0 \<Longrightarrow> ck_root c = empty_root C"
    using assms by (auto simp: read_submission_def and_then_eq_Ok split: if_splits)
  show "length (ck_root c) = 32" by (rule checkpoint_verify_Ok [OF v(1)])
  show "hashes (sub_proof sub)" "old_size sub = 0 \<Longrightarrow> sub_proof sub = []"
    using parse_submission_Some [OF p] by blast+
qed

text \<open>Every reply but a cosignature leaves the state alone and is not a success.\<close>

lemma reply_status [simp]: "rp_status (text_reply n b) = n" "rp_status (conflict n') = 409"
  by (simp_all add: text_reply_def conflict_def)

lemma read_submission_Err: "read_submission C w body = Err r \<Longrightarrow> rp_status r \<noteq> 200"
  by (auto simp: read_submission_def and_then_eq_Err ok_or_def map_err_def split: if_splits option.splits sum.splits)

lemma extends_stored_Err: "extends_stored C st sub c = Err r \<Longrightarrow> rp_status r \<noteq> 200"
  by (auto simp: extends_stored_def split: if_splits option.splits)

lemma add_checkpoint_cases:
  obtains (refused) r where "add_checkpoint C w D now written body s = (r, s)" "rp_status r \<noteq> 200"
  | (cosigned) sub c line where "read_submission C w body = Ok (sub, c)" "extends_stored C (ws_state s) sub c = Ok ()"
      "cosignature_line C c (sv_name w) (sv_signing_key w) now = Ok line" "written"
      "add_checkpoint C w D now written body s = (text_reply 200 line,
         let next = \<lparr>st_size = ck_size c, st_root = ck_root c, st_note = sub_note sub\<rparr>
         in \<lparr>ws_state = Some next, ws_file = Some (to_json D next)\<rparr>)"
proof (cases "read_submission C w body")
  case (Inl r)
  then show ?thesis using refused read_submission_Err [OF Inl] by (simp add: add_checkpoint_def)
next
  case (Inr x)
  obtain sub c where x: "x = (sub, c)" by (cases x)
  show ?thesis
  proof (cases "extends_stored C (ws_state s) sub c")
    case (Inl r)
    then show ?thesis using refused Inr x extends_stored_Err [OF Inl] by (simp add: add_checkpoint_def)
  next
    case e: (Inr u)
    show ?thesis
    proof (cases "cosignature_line C c (sv_name w) (sv_signing_key w) now")
      case (Inl r)
      then show ?thesis using refused Inr e x by (simp add: add_checkpoint_def)
    next
      case l: (Inr line)
      show ?thesis
      proof (cases written)
        case True
        then show ?thesis using cosigned [of sub c line] Inr e x l by (simp add: add_checkpoint_def Let_def save_state_def)
      next
        case False
        then show ?thesis using refused Inr e x l by (simp add: add_checkpoint_def)
      qed
    qed
  qed
qed


section \<open>The history a witness cosigns\<close>

definition tree_head :: "stored \<Rightarrow> u64 \<times> bytes" where
  "tree_head st = (st_size st, st_root st)"

definition justified :: "crypto \<Rightarrow> release \<Rightarrow> bool" where
  "justified C r \<longleftrightarrow>
     hashes (rl_proof r) \<and> length (ck_root (rl_checkpoint r)) = 32 \<and> NL \<notin> set (ck_origin (rl_checkpoint r))
     \<and> (case rl_prior r of None \<Rightarrow> True
        | Some st \<Rightarrow>
            (ck_size (rl_checkpoint r) = st_size st \<and> ck_root (rl_checkpoint r) = st_root st)
            \<or> (st_size st = 0 \<and> st_root st = empty_root C)
            \<or> verify_consistency C (st_size st) (st_root st) (ck_size (rl_checkpoint r)) (ck_root (rl_checkpoint r)) (rl_proof r))"

fun chained :: "crypto \<Rightarrow> (u64 \<times> bytes) option \<Rightarrow> release list \<Rightarrow> bool" where
  "chained C m [] \<longleftrightarrow> True"
| "chained C m (r # rs) \<longleftrightarrow>
     map_option tree_head (rl_prior r) = m \<and> justified C r
     \<and> chained C (Some (ck_size (rl_checkpoint r), ck_root (rl_checkpoint r))) rs"

lemma extends_stored_justified:
  assumes "read_submission C w body = Ok (sub, c)" "extends_stored C st sub c = Ok ()"
  shows "justified C \<lparr>rl_checkpoint = c, rl_time = now, rl_prior = st, rl_proof = sub_proof sub\<rparr>"
  using read_submission_Ok [OF assms(1)] assms(2)
    checkpoint_verify_origin [OF read_submission_Ok(1) [OF assms(1)]]
  by (auto simp: justified_def extends_stored_def split: option.splits if_splits)

lemma witness_run_chained:
  assumes "stored_codec_contract D"
  shows "load_state D (ws_file s) = ws_state s \<Longrightarrow> chained C (map_option tree_head (ws_state s)) (fst (witness_run C w D es s))"
proof (induction es arbitrary: s)
  case (Cons e es)
  show ?case
  proof (cases e)
    case Restart
    have "witness_step C w D Restart s = ([], s)" using Cons.prems by (simp add: witness_step_def)
    with Restart show ?thesis using Cons.prems Cons.IH [of s] by (simp add: case_prod_beta)
  next
    case (Submit now written body)
    show ?thesis
    proof (cases rule: add_checkpoint_cases [of C w D now written body s])
      case (refused r)
      then show ?thesis using Submit Cons by (simp add: witness_step_def step_release_def case_prod_beta)
    next
      case (cosigned sub c line)
      let ?n = "\<lparr>st_size = ck_size c, st_root = ck_root c, st_note = sub_note sub\<rparr>"
      have "chained C (Some (ck_size c, ck_root c))
          (fst (witness_run C w D es \<lparr>ws_state = Some ?n, ws_file = Some (to_json D ?n)\<rparr>))"
        using Cons.IH [of "\<lparr>ws_state = Some ?n, ws_file = Some (to_json D ?n)\<rparr>"] assms
        by (simp add: tree_head_def load_state_def stored_codec_contract_def)
      then show ?thesis
        using Submit cosigned extends_stored_justified [OF cosigned(1,2)]
        by (simp add: witness_step_def step_release_def case_prod_beta Let_def)
    qed
  qed
qed simp

text \<open>A log whose size and root are those of a checkpoint, and the inputs SHA-256 must not confuse.\<close>

definition log_of :: "crypto \<Rightarrow> checkpoint \<Rightarrow> merkle_log \<Rightarrow> bool" where
  "log_of C c log \<longleftrightarrow> hashes (leaves log) \<and> length (leaves log) = unat (ck_size c) \<and> log_root C log = ck_root c"

definition release_inputs :: "crypto \<Rightarrow> release \<Rightarrow> bytes set" where
  "release_inputs C r =
     (case rl_prior r of None \<Rightarrow> {}
      | Some st \<Rightarrow>
          (let p = full_proof (st_size st) (st_root st) (rl_proof r)
           in climb_inputs C (hd p) (zip (cdirs (unat (st_size st)) (unat (ck_size (rl_checkpoint r)))) (tl p))))"

definition log_inputs :: "crypto \<Rightarrow> merkle_log \<Rightarrow> bytes set" where
  "log_inputs C log = (\<Union>k \<le> length (leaves log). tree_inputs C (take k (leaves log)))"

lemma step_back:
  assumes "hash_contract C" "justified C r" "rl_prior r = Some st" "length (st_root st) = 32"
    and "hashes (leaves log)" "unat (ck_size (rl_checkpoint r)) \<le> length (leaves log)"
    and "root_of C log (unat (ck_size (rl_checkpoint r))) = ck_root (rl_checkpoint r)"
    and "inj_on (sha256 C) (release_inputs C r \<union> log_inputs C log)"
  shows "unat (st_size st) \<le> unat (ck_size (rl_checkpoint r)) \<and> root_of C log (unat (st_size st)) = st_root st"
proof -
  let ?n = "unat (ck_size (rl_checkpoint r))"
  let ?new = "\<lparr>leaves = take ?n (leaves log)\<rparr>"
  consider "ck_size (rl_checkpoint r) = st_size st" "ck_root (rl_checkpoint r) = st_root st"
    | "st_size st = 0" "st_root st = empty_root C"
    | "verify_consistency C (st_size st) (st_root st) (ck_size (rl_checkpoint r)) (ck_root (rl_checkpoint r)) (rl_proof r)"
    using assms(2,3) by (auto simp: justified_def)
  then show ?thesis
  proof cases
    case 3
    have root: "log_root C ?new = ck_root (rl_checkpoint r)"
      using assms(7) by (simp add: log_root_eq root_of_def root_range.simps [of C "[]"] split: if_splits)
    have sub: "tree_inputs C (take ?n (leaves log)) \<subseteq> log_inputs C log" using assms(6) by (auto simp: log_inputs_def)
    have inj: "inj_on (sha256 C) (climb_inputs C (hd (full_proof (st_size st) (st_root st) (rl_proof r)))
        (zip (cdirs (unat (st_size st)) ?n) (tl (full_proof (st_size st) (st_root st) (rl_proof r))))
      \<union> tree_inputs C (leaves ?new))"
      using assms(8) by (rule inj_on_subset) (use sub in \<open>auto simp: release_inputs_def assms(3) Let_def\<close>)
    have h: "hashes (leaves ?new)" "hashes (rl_proof r)" "length (leaves ?new) = ?n"
      using assms(2,5,6) by (simp_all add: justified_def)
    have "unat (st_size st) \<le> ?n" "st_root st = root_of C ?new (unat (st_size st))"
      using consistency_root_prefix [OF assms(1) h 3 [folded root] assms(4) inj] by blast+
    then show ?thesis by (simp add: root_of_def min_absorb1)
  qed (use assms(7) in \<open>simp_all add: root_of_def\<close>)
qed


lemma chained_back:
  assumes "hash_contract C" "hashes (leaves log)"
  shows "chained C (Some (n, root)) rs \<Longrightarrow> length root = 32 \<Longrightarrow> j < length rs \<Longrightarrow>
    unat (ck_size (rl_checkpoint (rs ! j))) \<le> length (leaves log) \<Longrightarrow>
    root_of C log (unat (ck_size (rl_checkpoint (rs ! j)))) = ck_root (rl_checkpoint (rs ! j)) \<Longrightarrow>
    inj_on (sha256 C) (\<Union> (release_inputs C ` set rs) \<union> log_inputs C log) \<Longrightarrow>
    unat n \<le> unat (ck_size (rl_checkpoint (rs ! j))) \<and> root_of C log (unat n) = root"
proof (induction rs arbitrary: n root j)
  case (Cons r rs)
  obtain st where st: "rl_prior r = Some st" "n = st_size st" "root = st_root st"
    using Cons.prems(1) by (auto simp: tree_head_def)
  have inj: "inj_on (sha256 C) (release_inputs C r \<union> log_inputs C log)"
    using Cons.prems(6) by (rule inj_on_subset) auto
  have j: "justified C r" "length (ck_root (rl_checkpoint r)) = 32" using Cons.prems(1) by (simp_all add: justified_def)
  have "unat (ck_size (rl_checkpoint r)) \<le> unat (ck_size (rl_checkpoint ((r # rs) ! j)))
      \<and> root_of C log (unat (ck_size (rl_checkpoint r))) = ck_root (rl_checkpoint r)"
  proof (cases j)
    case (Suc i)
    have "inj_on (sha256 C) (\<Union> (release_inputs C ` set rs) \<union> log_inputs C log)"
      using Cons.prems(6) by (rule inj_on_subset) auto
    then show ?thesis using Cons.IH [of "ck_size (rl_checkpoint r)" "ck_root (rl_checkpoint r)" i] Cons.prems Suc j by simp
  qed (use Cons.prems in simp)
  moreover from this have "unat (ck_size (rl_checkpoint r)) \<le> length (leaves log)" using Cons.prems(4) by simp
  ultimately show ?case
    using step_back [OF assms(1) j(1) st(1) _ assms(2) _ _ inj] Cons.prems(2) st by auto
qed simp

lemma chained_drop:
  "chained C m rs \<Longrightarrow> i < length rs \<Longrightarrow>
    chained C (Some (ck_size (rl_checkpoint (rs ! i)), ck_root (rl_checkpoint (rs ! i)))) (drop (Suc i) rs)
    \<and> length (ck_root (rl_checkpoint (rs ! i))) = 32"
proof (induction rs arbitrary: m i)
  case (Cons r rs)
  then show ?case by (cases i) (auto simp: justified_def)
qed simp

lemma chained_prefix:
  assumes "hash_contract C" "chained C m rs" "i \<le> j" "j < length rs" "log_of C (rl_checkpoint (rs ! j)) log"
    and "inj_on (sha256 C) (\<Union> (release_inputs C ` set rs) \<union> log_inputs C log)"
  shows "unat (ck_size (rl_checkpoint (rs ! i))) \<le> unat (ck_size (rl_checkpoint (rs ! j)))
    \<and> ck_root (rl_checkpoint (rs ! i)) = root_of C log (unat (ck_size (rl_checkpoint (rs ! i))))"
proof -
  have log: "hashes (leaves log)" "length (leaves log) = unat (ck_size (rl_checkpoint (rs ! j)))"
      "root_of C log (unat (ck_size (rl_checkpoint (rs ! j)))) = ck_root (rl_checkpoint (rs ! j))"
    using assms(5) by (auto simp: log_of_def log_root_def)
  show ?thesis
  proof (cases "i = j")
    case True
    with log(3) show ?thesis by simp
  next
    case False
    let ?ds = "drop (Suc i) rs"
    have d: "?ds ! (j - Suc i) = rs ! j" "j - Suc i < length ?ds" "i < length rs" using False assms(3,4) by auto
    have inj: "inj_on (sha256 C) (\<Union> (release_inputs C ` set ?ds) \<union> log_inputs C log)"
      using assms(6) by (rule inj_on_subset) (use set_drop_subset [of "Suc i" rs] in auto)
    note c = chained_drop [OF assms(2) d(3)]
    have "unat (ck_size (rl_checkpoint (?ds ! (j - Suc i)))) \<le> length (leaves log)" using log(2) d(1) by simp
    from chained_back [OF assms(1) log(1) conjunct1 [OF c] conjunct2 [OF c] d(2) this _ inj] log(3) d(1)
    show ?thesis by simp
  qed
qed

text \<open>The tree that was cosigned earlier is a prefix of the one cosigned later.\<close>

lemma chained_logs_prefix:
  assumes "hash_contract C" "chained C m rs" "i \<le> j" "j < length rs"
    and "log_of C (rl_checkpoint (rs ! i)) older" "log_of C (rl_checkpoint (rs ! j)) newer"
    and "inj_on (sha256 C) (\<Union> (release_inputs C ` set rs) \<union> log_inputs C older \<union> log_inputs C newer)"
  shows "prefix (leaves older) (leaves newer)"
proof -
  let ?n = "unat (ck_size (rl_checkpoint (rs ! i)))"
  have "inj_on (sha256 C) (\<Union> (release_inputs C ` set rs) \<union> log_inputs C newer)"
    using assms(7) by (rule inj_on_subset) auto
  then have p: "?n \<le> length (leaves newer)" "ck_root (rl_checkpoint (rs ! i)) = root_of C newer ?n"
    using chained_prefix [OF assms(1-4,6)] assms(6) by (auto simp: log_of_def)
  have older: "hashes (leaves older)" "length (leaves older) = ?n" "log_root C older = root_of C newer ?n"
    using assms(5) p(2) by (auto simp: log_of_def)
  have "leaves older = take ?n (leaves newer)"
  proof (rule root_range_inject [OF assms(1)])
    show "root_range C (leaves older) = root_range C (take ?n (leaves newer))"
      using older(2,3) by (simp add: log_root_eq root_of_def root_range.simps [of C "[]"] split: if_splits)
    have "tree_inputs C (leaves older) \<subseteq> log_inputs C older"
      unfolding log_inputs_def by (rule subsetI, rule UN_I [of "length (leaves older)"]) simp_all
    moreover have "tree_inputs C (take ?n (leaves newer)) \<subseteq> log_inputs C newer"
      using p(1) by (auto simp: log_inputs_def)
    ultimately show "inj_on (sha256 C) (tree_inputs C (leaves older) \<union> tree_inputs C (take ?n (leaves newer)))"
      by (intro inj_on_subset [OF assms(7)]) blast
  qed (use older p(1) assms(6) in \<open>auto simp: log_of_def\<close>)
  then show ?thesis by (metis take_is_prefix)
qed


section \<open>No split view\<close>

text \<open>
  Ed25519 is unforgeable: a cosignature line that verifies under a witness's key is over a message that witness
  signed when it released a checkpoint.
\<close>

definition unforged :: "crypto \<Rightarrow> string \<Rightarrow> witness_key \<Rightarrow> release list \<Rightarrow> bool" where
  "unforged C t w rels \<longleftrightarrow>
     (\<forall>ts body signatures. split_blank t = Some (body, signatures) \<longrightarrow> cosigned C t w ts \<longrightarrow>
        (\<exists>r \<in> set rels. cosignature_message ts (body @ [NL])
           = cosignature_message (rl_time r) (checkpoint_body (rl_checkpoint r))))"

lemma note_matches_release:
  assumes "checkpoint_verify C t rk = Ok c" "split_blank t = Some (body, signatures)"
    and "checkpoint_body c' = body @ [NL]" "NL \<notin> set (ck_origin c')" "length (ck_root c') = 32"
  shows "ck_size c = ck_size c' \<and> ck_root c = ck_root c'"
proof -
  have b: "body = ck_origin c' @ NL # decimal (unat (ck_size c')) @ NL # b64 (ck_root c')"
    using assms(3) by (simp add: checkpoint_body_def)
  have "ck_root c' \<noteq> []" using assms(5) by auto
  then have l: "str_lines body = [strip_cr (ck_origin c'), decimal (unat (ck_size c')), b64 (ck_root c')]"
    unfolding b by (rule str_lines_body [OF assms(4)])
  obtain size_text where "[ck_origin c, size_text, b64 (ck_root c)] = str_lines body"
      "parse_unsigned (2 ^ 64) size_text = Some (unat (ck_size c))"
    using assms(2) by (auto intro: checkpoint_verify_Ok [OF assms(1)])
  moreover have "unat (ck_size c') < 2 ^ 64" using unat_lt2p [of "ck_size c'"] by simp
  ultimately show ?thesis using l by (auto simp: parse_decimal word_unat_eq_iff)
qed

lemma chained_justified: "chained C m rs \<Longrightarrow> r \<in> set rs \<Longrightarrow> justified C r"
  by (induction rs arbitrary: m) auto

lemma cosigned_release:
  assumes "checkpoint_verify C t rk = Ok c" "cosigned C t w ts" "unforged C t w rels" "chained C m rels"
  shows "\<exists>i < length rels. \<forall>l. log_of C c l \<longrightarrow> log_of C (rl_checkpoint (rels ! i)) l"
proof -
  obtain body signatures where s: "split_blank t = Some (body, signatures)"
    using assms(2) by (auto simp: cosigned_def split: option.splits)
  then obtain r where r: "r \<in> set rels" "checkpoint_body (rl_checkpoint r) = body @ [NL]"
    using assms(2,3) unfolding unforged_def by (metis cosignature_message_inject)
  have "justified C r" using chained_justified [OF assms(4) r(1)] .
  then have "ck_size c = ck_size (rl_checkpoint r) \<and> ck_root c = ck_root (rl_checkpoint r)"
    by (intro note_matches_release [OF assms(1) s r(2)]) (simp_all add: justified_def)
  then have "\<forall>l. log_of C c l \<longrightarrow> log_of C (rl_checkpoint r) l" by (simp add: log_of_def)
  then show ?thesis using r(1) by (auto simp: in_set_conv_nth)
qed

text \<open>Two notes that one honest witness cosigned describe two logs of which one is a prefix of the other.\<close>

lemma cosigned_logs_agree:
  assumes "hash_contract C" "chained C m rels"
    and "checkpoint_verify C t1 rk1 = Ok c1" "cosigned C t1 w s1" "unforged C t1 w rels"
    and "checkpoint_verify C t2 rk2 = Ok c2" "cosigned C t2 w s2" "unforged C t2 w rels"
    and "log_of C c1 l1" "log_of C c2 l2"
    and "inj_on (sha256 C) (\<Union> (release_inputs C ` set rels) \<union> log_inputs C l1 \<union> log_inputs C l2)"
  shows "prefix (leaves l1) (leaves l2) \<or> prefix (leaves l2) (leaves l1)"
proof -
  obtain i where i: "i < length rels" "log_of C (rl_checkpoint (rels ! i)) l1"
    using cosigned_release [OF assms(3,4,5,2)] assms(9) by blast
  obtain j where j: "j < length rels" "log_of C (rl_checkpoint (rels ! j)) l2"
    using cosigned_release [OF assms(6,7,8,2)] assms(10) by blast
  have "inj_on (sha256 C) (\<Union> (release_inputs C ` set rels) \<union> log_inputs C l2 \<union> log_inputs C l1)"
    using assms(11) by (rule inj_on_subset) blast
  then show ?thesis
    using chained_logs_prefix [OF assms(1,2) _ j(1) i(2) j(2) assms(11)]
      chained_logs_prefix [OF assms(1,2) _ i(1) j(2) i(2)] by (meson nle_le)
qed


section \<open>Well-formed submissions are read back\<close>

text \<open>The text the protocol prescribes: the old size, the proof, a blank line and the note.\<close>

definition submission_text :: "u64 \<Rightarrow> bytes list \<Rightarrow> string \<Rightarrow> string" where
  "submission_text old pf nt =
     ''old '' @ decimal (unat old) @ [NL] @ concat (map (\<lambda>h. b64 h @ [NL]) pf) @ [NL] @ nt"

lemma split_blank_proof:
  assumes "NL \<notin> set l" "list_all (\<lambda>h. h \<noteq> []) pf"
  shows "split_blank (l @ [NL] @ concat (map (\<lambda>h. b64 h @ [NL]) pf) @ [NL] @ r)
    = Some (l @ concat (map (\<lambda>h. NL # b64 h) pf), r)"
  using assms
proof (induction pf arbitrary: l)
  case (Cons h pf)
  have h: "b64 h \<noteq> []" using Cons.prems(2) by (simp add: b64_Nil_iff)
  then have "hd (b64 h @ s) \<noteq> NL" for s
    using b64_no_breaks(1) [of h] hd_in_set [OF h] by (metis hd_append2)
  then show ?case using Cons.IH [of "b64 h"] Cons.prems h by (simp add: split_blank_line)
qed simp

lemma split_on_proof:
  "NL \<notin> set l \<Longrightarrow> split_on NL (l @ concat (map (\<lambda>h. NL # b64 h) pf)) = l # map b64 pf"
proof (induction pf arbitrary: l)
  case (Cons h pf)
  then show ?case using Cons.IH [of "b64 h"] by (simp add: split_on_append)
qed (simp add: split_on_not_in)

lemma parse_proof_map:
  "list_all (\<lambda>h. length h = 32) pf \<Longrightarrow> length acc + length pf \<le> 63 \<Longrightarrow>
    parse_proof acc (map b64 pf) = Some (acc @ pf)"
proof (induction pf arbitrary: acc)
  case (Cons h pf)
  then have "b64 h \<noteq> []" by (auto simp: b64_Nil_iff)
  then show ?case using Cons by (simp add: b64_decode_def unb64_loop_b64 MAX_PROOF_HASHES_def)
qed simp

lemma parse_submission_text:
  assumes "hashes pf" "length pf \<le> 63" "old = 0 \<Longrightarrow> pf = []"
  shows "parse_submission (submission_text old pf nt) = Some \<lparr>old_size = old, sub_proof = pf, sub_note = nt\<rparr>"
proof -
  let ?l = "''old '' @ decimal (unat old)"
  have h: "list_all (\<lambda>h. length h = 32) pf" "list_all (\<lambda>h. h \<noteq> []) pf"
    using assms(1) by (auto simp: hashes_def list_all_iff)
  have l: "NL \<notin> set ?l" by simp
  have s: "split_blank (submission_text old pf nt) = Some (?l @ concat (map (\<lambda>h. NL # b64 h) pf), nt)"
    using split_blank_proof [OF l h(2), of nt] by (simp add: submission_text_def)
  have d: "split_on NL (''old '' @ decimal (unat old) @ concat (map (\<lambda>h. NL # b64 h) pf)) = ?l # map b64 pf"
    using split_on_proof [OF l] by (simp only: append_assoc)
  have u: "unat old < 2 ^ 64" using unat_lt2p [of old] by simp
  have "unat old = 0 \<longleftrightarrow> old = 0" by (simp add: unat_eq_0)
  then show ?thesis
    using parse_proof_map [OF h(1), of "[]"] parse_decimal [OF u] assms(2,3)
    unfolding parse_submission_def s by (simp add: d del: append.simps append_Cons split_on.simps)
qed

lemma from_utf8_as_bytes: "valid_utf8 (map of_char t) \<Longrightarrow> from_utf8 (as_bytes t) = Some t"
  by (simp add: from_utf8_def as_bytes_def comp_def unat_of_char_u8)

lemma valid_utf8_ascii: "list_all is_ascii s \<Longrightarrow> valid_utf8 (map of_char s @ r) = valid_utf8 r"
  by (induction s) (simp_all add: is_ascii_def)

lemma valid_utf8_dash:
  "list_all is_ascii h \<Longrightarrow> list_all is_ascii t \<Longrightarrow> valid_utf8 (map of_char (h @ [CHR 0xE2, CHR 0x80, CHR 0x94] @ t))"
  using valid_utf8_ascii [of t "[]"] by (simp add: valid_utf8_ascii)

lemma ascii_parts [simp]: "list_all is_ascii (b64 x)" "list_all is_ascii (decimal n)"
  using b64_chars [of x] decimal_digits [of n]
  by (auto simp: list_all_iff ascii_defs)

lemma valid_utf8_sign:
  assumes "list_all is_ascii (ck_origin c)"
  shows "valid_utf8 (map of_char (submission_text old pf (checkpoint_sign C c key)))"
proof -
  let ?head = "''old '' @ decimal (unat old) @ [NL] @ concat (map (\<lambda>h. b64 h @ [NL]) pf) @ [NL] @ checkpoint_body c @ [NL]"
  let ?tail = "CHR 0x20 # ck_origin c @ [CHR 0x20] @ b64 (key_hash C (ck_origin c) (ed_public C key)
    @ ed_sign C key (as_bytes (checkpoint_body c))) @ [NL]"
  have "submission_text old pf (checkpoint_sign C c key) = ?head @ [CHR 0xE2, CHR 0x80, CHR 0x94] @ ?tail"
    by (simp add: submission_text_def checkpoint_sign_def signature_line_def SIG_PREFIX_def Let_def)
  moreover have "list_all is_ascii ?head"
    using assms by (auto simp: checkpoint_body_def is_ascii_def list_all_iff ascii_parts [unfolded list_all_iff is_ascii_def])
  moreover have "list_all is_ascii ?tail" using assms by (simp add: is_ascii_def)
  ultimately show ?thesis by (simp only: valid_utf8_dash)
qed


section \<open>An honest log is cosigned\<close>

definition signed_submission :: "crypto \<Rightarrow> u64 \<Rightarrow> bytes list \<Rightarrow> checkpoint \<Rightarrow> bytes \<Rightarrow> bytes" where
  "signed_submission C old pf c key = as_bytes (submission_text old pf (checkpoint_sign C c key))"

definition observes :: "crypto \<Rightarrow> log_witness \<Rightarrow> bytes \<Rightarrow> checkpoint \<Rightarrow> bool" where
  "observes C w key c \<longleftrightarrow>
     length key = 32 \<and> sv_log_key w = ed_public C key \<and> ck_origin c = sv_log_origin w
     \<and> plain_name (ck_origin c) \<and> list_all is_ascii (ck_origin c)
     \<and> length (ck_root c) = 32 \<and> (ck_size c = 0 \<longrightarrow> ck_root c = empty_root C)"

lemma read_signed_submission:
  assumes "hash_contract C" "signature_contract C" "observes C w key c"
    and "hashes pf" "length pf \<le> 63" "old = 0 \<Longrightarrow> pf = []"
    and "length (signed_submission C old pf c key) \<le> 64 * 1024"
  shows "read_submission C w (signed_submission C old pf c key)
    = Ok (\<lparr>old_size = old, sub_proof = pf, sub_note = checkpoint_sign C c key\<rparr>, c)"
proof -
  have "from_utf8 (signed_submission C old pf c key) = Some (submission_text old pf (checkpoint_sign C c key))"
    using assms(3) valid_utf8_sign [of c old pf C key] unfolding signed_submission_def observes_def
    by (intro from_utf8_as_bytes) blast
  moreover have "length (checkpoint_sign C c key) \<le> 64 * 1024"
    using assms(7) by (simp add: signed_submission_def submission_text_def)
  then have "checkpoint_verify C (checkpoint_sign C c key) (ed_public C key) = Ok c"
    using verify_sign [OF assms(1,2), of key c "[]"] assms(3) by (auto simp: observes_def)
  ultimately show ?thesis
    using assms(3,7) parse_submission_text [OF assms(4,5,6)]
    by (simp add: read_submission_def MAX_REQUEST_BYTES_def observes_def)
qed

lemma add_checkpoint_cosigns:
  assumes "hash_contract C" "signature_contract C" "observes C w key c"
    and "hashes pf" "length pf \<le> 63" "old = 0 \<Longrightarrow> pf = []"
    and "length (signed_submission C old pf c key) \<le> 64 * 1024"
    and "cosignature_line C c (sv_name w) (sv_signing_key w) now = Ok line"
    and "extends_stored C (ws_state s) \<lparr>old_size = old, sub_proof = pf, sub_note = checkpoint_sign C c key\<rparr> c = Ok ()"
  defines "next \<equiv> \<lparr>st_size = ck_size c, st_root = ck_root c, st_note = checkpoint_sign C c key\<rparr>"
  shows "add_checkpoint C w D now True (signed_submission C old pf c key) s
      = (text_reply 200 line, \<lparr>ws_state = Some next, ws_file = Some (to_json D next)\<rparr>)"
    and "step_release C w D now True (signed_submission C old pf c key) s
      = [\<lparr>rl_checkpoint = c, rl_time = now, rl_prior = ws_state s, rl_proof = pf\<rparr>]"
  using read_signed_submission [OF assms(1-7)] assms(8,9)
  by (simp_all add: add_checkpoint_def step_release_def save_state_def next_def Let_def)

text \<open>What a step of growth needs from the log: its own root at either size and its own consistency proof.\<close>

lemma extends_stored_growth:
  assumes "ck_root c = root_of C log (unat (ck_size c))" "unat (ck_size c) \<le> length (leaves log)"
    and "st_root st = root_of C log (unat (st_size st))" "st_size st \<le> ck_size c"
    and "if st_size st = 0 then pf = [] else consistency_proof C log (st_size st) (ck_size c) = Some pf"
  shows "extends_stored C (Some st) \<lparr>old_size = st_size st, sub_proof = pf, sub_note = n\<rparr> c = Ok ()"
proof (cases "st_size st = 0")
  case False
  then have "0 < st_size st" by (simp add: word_neq_0_conv)
  with consistency_proof_accepted [of "st_size st" "ck_size c" log C] assms False show ?thesis
    by (auto simp: extends_stored_def)
qed (use assms in \<open>simp add: extends_stored_def root_of_def\<close>)


text \<open>A note assembled from the log's signature and the lines of its cosigners carries no other cosignature.\<close>

lemma signature_blob_other:
  assumes "CHR 0x20 \<notin> set name" "name \<noteq> name'"
  shows "signature_blob name' (SIG_PREFIX @ name @ [CHR 0x20] @ b64 blob) = None"
  using assms split_once_first [of "CHR 0x20" name "b64 blob"] by (simp add: signature_blob_def)

lemma valid_cosignature_blob:
  assumes "valid_cosignature C body name key freshness l = Some ts"
  shows "\<exists>blob. signature_blob name l = Some blob \<and> length blob = 76 \<and> ts = u64_from_be (take 8 (drop 4 blob))"
  using assms by (auto simp: valid_cosignature_def Let_def bind_eq_Some_conv split: if_splits)

lemma cosigned_by_line:
  assumes "cosigned_by C c signers lines" "line \<in> set lines"
  shows "\<exists>n sk ts. (n, sk, ts) \<in> set signers \<and> length sk = 32 \<and> cosignature_line C c n sk ts = Ok line"
  using assms unfolding cosigned_by_def by (induction rule: list_all2_induct) auto

lemma cosigned_note_signers:
  assumes "hash_contract C" "signature_contract C" "plain_name (ck_origin c)" "ck_root c \<noteq> []" "length key = 32"
    and "cosigned_by C c signers lines" "cosigned C (checkpoint_sign C c key @ concat lines) w ts"
  shows "\<exists>sk. (wk_name w, sk, ts) \<in> set signers"
proof -
  let ?op = "key_hash C (ck_origin c) (ed_public C key) @ ed_sign C key (as_bytes (checkpoint_body c))"
  let ?opline = "SIG_PREFIX @ ck_origin c @ [CHR 0x20] @ b64 ?op"
  have ls: "str_lines (signature_line (ck_origin c) ?op @ concat lines) = ?opline # map butlast lines"
    using str_lines_signature [of "ck_origin c"] cosigned_lines [OF assms(1,2,6)] assms(3) by (simp add: plain_name_def)
  obtain l where l: "l \<in> set (?opline # map butlast lines)"
      "valid_cosignature C (butlast (checkpoint_body c)) (wk_name w) (wk_key w) None l = Some ts"
    using assms(7) unfolding cosigned_def split_blank_sign [OF assms(3,4)] option.case prod.case ls list_ex_iff
    by blast
  obtain blob where blob: "signature_blob (wk_name w) l = Some blob" "length blob = 76" "ts = u64_from_be (take 8 (drop 4 blob))"
    using valid_cosignature_blob [OF l(2)] by blast
  have sp: "CHR 0x20 \<notin> set (ck_origin c)" using assms(3) by (simp add: plain_name_def)
  have "length ?op = 68" using assms(1,2,5) by (simp add: key_hash_def hash_contract_def signature_contract_def)
  then have "signature_blob (wk_name w) ?opline \<noteq> Some blob"
    using blob(2) signature_blob_other [OF sp, of "wk_name w" ?op] signature_blob_line [OF sp, of ?op]
    by (cases "ck_origin c = wk_name w") (simp_all, force)
  then have "l \<noteq> ?opline" using blob(1) by blast
  with l(1) obtain line where line: "line \<in> set lines" "l = butlast line" by auto
  then obtain n sk ts' where s: "(n, sk, ts') \<in> set signers" "length sk = 32" "cosignature_line C c n sk ts' = Ok line"
    using cosigned_by_line [OF assms(6)] by blast
  note k = cosignature_line_Ok [OF s(3)]
  let ?blob = "cosignature_key_hash C n (ed_public C sk) @ u64_be ts' @ ed_sign C sk (cosignature_message ts' (checkpoint_body c))"
  have b: "l = SIG_PREFIX @ n @ [CHR 0x20] @ b64 ?blob"
    by (simp add: line(2) k(3) signature_line_def butlast_append)
  have nsp: "CHR 0x20 \<notin> set n" using k(1) by (simp add: plain_name_def)
  have n: "n = wk_name w" using blob(1) signature_blob_other [OF nsp] unfolding b by (metis option.distinct(1))
  then have "blob = ?blob" using blob(1) signature_blob_line [OF nsp] unfolding b by simp
  moreover have "take 8 (drop 4 ?blob) = u64_be ts'"
    using assms(1) by (simp add: cosignature_key_hash_def hash_contract_def)
  ultimately have "ts = ts'" using blob(3) by simp
  then show ?thesis using s(1) n by blast
qed

section \<open>A concrete log and its witnesses\<close>

text \<open>A codec that can be evaluated: every byte of the root is marked, the size and the note follow.\<close>

fun toy_of_json :: "bytes \<Rightarrow> bytes \<Rightarrow> stored option" where
  "toy_of_json root [] = None"
| "toy_of_json root (m # rest) =
     (if m = 0 then
        (if 8 \<le> length rest
         then Some \<lparr>st_size = u64_from_be (take 8 rest), st_root = root, st_note = map (\<lambda>b. char_of (unat b)) (drop 8 rest)\<rparr>
         else None)
      else case rest of [] \<Rightarrow> None | b # rest' \<Rightarrow> toy_of_json (root @ [b]) rest')"

definition toy_codec :: stored_codec where
  "toy_codec = \<lparr>to_json = (\<lambda>s. concat (map (\<lambda>b. [1, b]) (st_root s)) @ [0] @ u64_be (st_size s) @ as_bytes (st_note s)),
     of_json = toy_of_json []\<rparr>"

lemma toy_of_json_root:
  "toy_of_json acc (concat (map (\<lambda>b. [1, b]) root) @ 0 # rest) = toy_of_json (acc @ root) (0 # rest)"
  by (induction root arbitrary: acc) simp_all

lemma toy_codec_contract [simp]: "stored_codec_contract toy_codec"
  by (simp add: stored_codec_contract_def toy_codec_def toy_of_json_root as_bytes_def comp_def unat_of_char_u8)

definition example_old :: checkpoint where
  "example_old = \<lparr>ck_origin = ''log.example'', ck_size = 2, ck_root = log_root toy small_prefix\<rparr>"

definition example_new :: checkpoint where
  "example_new = \<lparr>ck_origin = ''log.example'', ck_size = 3, ck_root = log_root toy small_log\<rparr>"

definition example_service :: "string \<Rightarrow> u8 \<Rightarrow> log_witness" where
  "example_service name k = \<lparr>sv_name = name, sv_signing_key = replicate 32 k, sv_log_origin = ''log.example'',
     sv_log_key = replicate 32 1\<rparr>"

definition example_events :: "witness_event list" where
  "example_events =
     [Submit 100 True (signed_submission toy 0 [] example_old (replicate 32 1)), Restart,
      Submit 104 True (signed_submission toy 2 [replicate 32 3] example_new (replicate 32 1))]"

definition example_releases :: "release list" where
  "example_releases =
     [\<lparr>rl_checkpoint = example_old, rl_time = 100, rl_prior = None, rl_proof = []\<rparr>,
      \<lparr>rl_checkpoint = example_new, rl_time = 104,
        rl_prior = Some \<lparr>st_size = 2, st_root = log_root toy small_prefix, st_note = checkpoint_sign toy example_old (replicate 32 1)\<rparr>,
        rl_proof = [replicate 32 3]\<rparr>]"


lemma example_roots [simp]: "length (log_root toy small_prefix) = 32" "length (log_root toy small_log) = 32"
  by (simp_all add: log_root_eq root_range_length hashes_def small_prefix_def small_log_def)

lemma example_consistent:
  "verify_consistency toy 2 (log_root toy small_prefix) 3 (log_root toy small_log) [replicate 32 3]"
  by code_simp

lemma example_observes:
  "observes toy (example_service name k) (replicate 32 1) example_old"
  "observes toy (example_service name k) (replicate 32 1) example_new"
  by (simp_all add: observes_def example_service_def example_old_def example_new_def plain_name_def is_ascii_def)

lemma example_submission_length:
  "length (signed_submission toy 0 [] example_old (replicate 32 1)) \<le> 64 * 1024"
  "length (signed_submission toy 2 [replicate 32 3] example_new (replicate 32 1)) \<le> 64 * 1024"
  by (simp_all add: signed_submission_def submission_text_def checkpoint_sign_def Let_def checkpoint_body_def length_b64
      example_old_def example_new_def decimal.simps [of 0] decimal.simps [of 2] decimal.simps [of 3])

lemma example_line_Ok:
  "name \<in> {''ann'', ''bob''} \<Longrightarrow> ts \<le> 104 \<Longrightarrow> length sk = 32 \<Longrightarrow>
    cosignature_line toy c name sk ts = Ok (example_line c (name, sk, ts))"
proof -
  assume a: "name \<in> {''ann'', ''bob''}" "ts \<le> 104"
  have "ts \<le> I64_MAX" by (rule order_trans [OF a(2)]) (simp add: I64_MAX_def)
  then show ?thesis using a(1)
    by (auto simp: cosignature_line_def example_line_def witness_key_new_def Let_def not_less
        is_ascii_control_def is_ascii_whitespace_def)
qed

lemma example_run:
  assumes "name \<in> {''ann'', ''bob''}"
  shows "fst (witness_run toy (example_service name k) toy_codec example_events fresh_witness) = example_releases"
proof -
  let ?w = "example_service name k" let ?key = "replicate 32 1 :: bytes"
  let ?next = "\<lambda>c. \<lparr>st_size = ck_size c, st_root = ck_root c, st_note = checkpoint_sign toy c ?key\<rparr>"
  let ?held = "\<lambda>c. \<lparr>ws_state = Some (?next c), ws_file = Some (to_json toy_codec (?next c))\<rparr>"
  have l: "cosignature_line toy c (sv_name ?w) (sv_signing_key ?w) ts = Ok (example_line c (name, replicate 32 k, ts))"
    if "ts \<le> 104" for c ts using example_line_Ok [OF assms that] by (simp add: example_service_def)
  have e1: "extends_stored toy (ws_state fresh_witness) \<lparr>old_size = 0, sub_proof = [], sub_note = n\<rparr> c = Ok ()" for c n
    by (simp add: extends_stored_def fresh_witness_def)
  have e2: "extends_stored toy (ws_state (?held example_old))
      \<lparr>old_size = 2, sub_proof = [replicate 32 3], sub_note = n\<rparr> example_new = Ok ()" for n
    using example_consistent by (simp add: extends_stored_def example_old_def example_new_def)
  have s1: "witness_step toy ?w toy_codec (Submit 100 True (signed_submission toy 0 [] example_old ?key)) fresh_witness
      = ([\<lparr>rl_checkpoint = example_old, rl_time = 100, rl_prior = None, rl_proof = []\<rparr>], ?held example_old)"
    using add_checkpoint_cosigns [OF toy_contracts(1,2) example_observes(1) _ _ _ example_submission_length(1) l e1, of 100]
    by (simp add: witness_step_def fresh_witness_def)
  have s2: "witness_step toy ?w toy_codec Restart (?held example_old) = ([], ?held example_old)"
    using toy_codec_contract by (simp add: witness_step_def load_state_def stored_codec_contract_def)
  have s3: "fst (witness_step toy ?w toy_codec (Submit 104 True (signed_submission toy 2 [replicate 32 3] example_new ?key)) (?held example_old))
      = [\<lparr>rl_checkpoint = example_new, rl_time = 104, rl_prior = Some (?next example_old), rl_proof = [replicate 32 3]\<rparr>]"
    using add_checkpoint_cosigns(2) [OF toy_contracts(1,2) example_observes(2) _ _ _ example_submission_length(2) l e2, of 104]
    by (simp add: witness_step_def hashes_def)
  show ?thesis
    unfolding example_events_def example_releases_def
    by (simp add: s1 s2 s3 case_prod_beta) (simp add: example_old_def)
qed



lemma example_collision_free:
  "inj_on (sha256 toy) (\<Union> (release_inputs toy ` set example_releases) \<union> log_inputs toy small_prefix \<union> log_inputs toy small_log)"
proof -
  let ?p = "full_proof 2 (log_root toy small_prefix) [replicate 32 3]"
  have r: "\<Union> (release_inputs toy ` set example_releases) = climb_inputs toy (hd ?p) (zip (cdirs 2 3) (tl ?p))"
    by (simp add: example_releases_def release_inputs_def Let_def) (simp add: example_new_def)
  have a: "{..length (leaves small_prefix)} = set [0, 1, 2]" "{..length (leaves small_log)} = set [0, 1, 2, 3]"
    by (auto simp: small_prefix_def small_log_def)
  have l: "log_inputs toy small_prefix = (\<Union>k \<in> set [0, 1, 2]. tree_inputs toy (take k (leaves small_prefix)))"
      "log_inputs toy small_log = (\<Union>k \<in> set [0, 1, 2, 3]. tree_inputs toy (take k (leaves small_log)))"
    by (simp_all only: log_inputs_def a)
  show ?thesis unfolding r l by code_simp
qed

section \<open>Properties\<close>

text \<open>C5. A witness never cosigns a fork: over any sequence of submissions, failed saves and restarts, of two
  checkpoints it cosigned the tree of the earlier one is a prefix of the tree of the later one, provided
  SHA-256 has no collision among the inputs that were hashed.\<close>

theorem witness_cosigns_one_history:
  assumes "hash_contract C" "stored_codec_contract D"
    and "i \<le> j" "j < length (fst (witness_run C w D es fresh_witness))"
    and "log_of C (rl_checkpoint (fst (witness_run C w D es fresh_witness) ! i)) older"
    and "log_of C (rl_checkpoint (fst (witness_run C w D es fresh_witness) ! j)) newer"
    and "inj_on (sha256 C) (\<Union> (release_inputs C ` set (fst (witness_run C w D es fresh_witness)))
           \<union> log_inputs C older \<union> log_inputs C newer)"
  shows "prefix (leaves older) (leaves newer)"
proof -
  have "chained C None (fst (witness_run C w D es fresh_witness))"
    using witness_run_chained [OF assms(2), of fresh_witness C w es] by (simp add: fresh_witness_def load_state_def)
  from chained_logs_prefix [OF assms(1) this assms(3-7)] show ?thesis .
qed

theorem witness_cosigns_one_history_witness:
  "fst (witness_run toy (example_service ''ann'' 2) toy_codec example_events fresh_witness) = example_releases
    \<and> prefix (leaves small_prefix) (leaves small_log)"
proof -
  have r: "fst (witness_run toy (example_service ''ann'' 2) toy_codec example_events fresh_witness) = example_releases"
    by (rule example_run) simp
  have "log_of toy example_old small_prefix" "log_of toy example_new small_log"
    by (simp_all add: log_of_def example_old_def example_new_def hashes_def small_prefix_def small_log_def)
  then show ?thesis
    using witness_cosigns_one_history [of toy toy_codec 0 1 "example_service ''ann'' 2" example_events small_prefix small_log]
      example_collision_free
    by (simp add: r) (simp add: example_releases_def)
qed

lemma verify_policy_checkpoint:
  "verify_witness_policy C t rk ws n f = Ok v \<Longrightarrow> n \<noteq> 0 \<Longrightarrow> checkpoint_verify C t rk = Ok (vc_checkpoint v)"
  by (erule (1) verify_witness_policy_Ok)


text \<open>C1. No split view: if the notes of two clients were each accepted under the same roster and threshold, and so few
  members are faulty that every two quorums share an honest one, then the log of one client is a prefix of
  the log of the other. An honest member is one whose key verifies only what some run of the witness
  service released.\<close>

theorem no_split_view:
  assumes "hash_contract C" "stored_codec_contract D" "n \<noteq> 0"
    and "verify_witness_policy C t1 rk ws n f1 = Ok v1" "verify_witness_policy C t2 rk ws n f2 = Ok v2"
    and "F \<subseteq> set ws" "length ws + card F < 2 * n"
    and "\<forall>w \<in> set ws - F. unforged C t1 w (fst (witness_run C (sv w) D (es w) fresh_witness))
           \<and> unforged C t2 w (fst (witness_run C (sv w) D (es w) fresh_witness))"
    and "log_of C (vc_checkpoint v1) l1" "log_of C (vc_checkpoint v2) l2"
    and "inj_on (sha256 C) ((\<Union>w \<in> set ws - F. \<Union> (release_inputs C ` set (fst (witness_run C (sv w) D (es w) fresh_witness))))
           \<union> log_inputs C l1 \<union> log_inputs C l2)"
  shows "prefix (leaves l1) (leaves l2) \<or> prefix (leaves l2) (leaves l1)"
proof -
  let ?rels = "\<lambda>w. fst (witness_run C (sv w) D (es w) fresh_witness)"
  obtain Q1 where q1: "Q1 \<subseteq> set ws" "n \<le> card Q1" "\<forall>w \<in> Q1. \<exists>s. cosigned C t1 w s \<and> in_window f1 s"
    using quorum_members [OF assms(4,3)] by (elim exE conjE)
  obtain Q2 where q2: "Q2 \<subseteq> set ws" "n \<le> card Q2" "\<forall>w \<in> Q2. \<exists>s. cosigned C t2 w s \<and> in_window f2 s"
    using quorum_members [OF assms(5,3)] by (elim exE conjE)
  have k: "card (set ws) + card F < 2 * n" using assms(7) card_length [of ws] by linarith
  obtain w where w: "w \<in> Q1" "w \<in> Q2" "w \<in> set ws - F"
    using quorums_meet [OF finite_set q1(1) q2(1) q1(2) q2(2) assms(6) k] by (elim exE conjE)
  obtain s1 where s1: "cosigned C t1 w s1" using bspec [OF q1(3) w(1)] by (elim exE conjE)
  obtain s2 where s2: "cosigned C t2 w s2" using bspec [OF q2(3) w(2)] by (elim exE conjE)
  note v = verify_policy_checkpoint [OF assms(4,3)] verify_policy_checkpoint [OF assms(5,3)]
  have c: "chained C None (?rels w)"
    using witness_run_chained [OF assms(2), of fresh_witness C "sv w" "es w"] by (simp add: fresh_witness_def load_state_def)
  have u: "unforged C t1 w (?rels w)" "unforged C t2 w (?rels w)" using assms(8) w(3) by blast+
  have "inj_on (sha256 C) (\<Union> (release_inputs C ` set (?rels w)) \<union> log_inputs C l1 \<union> log_inputs C l2)"
    using assms(11) by (rule inj_on_subset) (use w(3) in blast)
  from cosigned_logs_agree [OF assms(1) c v(1) s1 u(1) v(2) s2 u(2) assms(9,10) this] show ?thesis .
qed


definition example_pair :: "u64 \<Rightarrow> (string \<times> bytes \<times> u64) list" where
  "example_pair ts = [(''ann'', replicate 32 2, ts), (''bob'', replicate 32 3, ts)]"

definition example_witnessed :: "checkpoint \<Rightarrow> u64 \<Rightarrow> string" where
  "example_witnessed c ts = checkpoint_sign toy c (replicate 32 1) @ concat (map (example_line c) (example_pair ts))"

lemma example_pair_cosigned: "ts \<le> 104 \<Longrightarrow> cosigned_by toy c (example_pair ts) (map (example_line c) (example_pair ts))"
  using example_line_Ok [of _ ts] by (simp add: cosigned_by_def example_pair_def)

lemma example_checkpoints:
  assumes "c = example_old \<or> c = example_new"
  shows "plain_name (ck_origin c)" "length (ck_root c) = 32" "ck_root c \<noteq> []"
    "length (example_witnessed c ts) \<le> 64 * 1024"
proof -
  show "plain_name (ck_origin c)" and l: "length (ck_root c) = 32"
    using assms by (auto simp: example_old_def example_new_def plain_name_def)
  then show "ck_root c \<noteq> []" by auto
  show "length (example_witnessed c ts) \<le> 64 * 1024"
    using assms by (auto simp: example_witnessed_def checkpoint_sign_def Let_def checkpoint_body_def length_b64
        example_old_def example_new_def decimal.simps [of 2] decimal.simps [of 3] example_pair_def example_line_def)
qed

lemma example_witnessed_accepted:
  assumes "c = example_old \<or> c = example_new" "ts \<le> 104"
  shows "\<exists>v. verify_witness_policy toy (example_witnessed c ts) (replicate 32 1) example_roster 2 None = Ok v \<and> vc_checkpoint v = c"
proof -
  have "length (filter (covered toy (example_pair ts) None) example_roster) = 2"
    by (simp add: covered_def example_pair_def example_roster_def in_window_def)
  then show ?thesis
    using quorum_note_verifies [of toy "replicate 32 1" c example_roster 2 "example_pair ts" "map (example_line c) (example_pair ts)" None]
      example_checkpoints [OF assms(1)] example_pair_cosigned [OF assms(2)] example_note_facts(4,6)
    by (simp add: example_witnessed_def)
qed

lemma example_unforged:
  assumes "(c, ts) = (example_old, 100) \<or> (c, ts) = (example_new, 104)"
  shows "unforged toy (example_witnessed c ts) w example_releases"
proof -
  have c: "c = example_old \<or> c = example_new" and ts: "ts \<le> 104" using assms by auto
  note e = example_checkpoints [OF c]
  show ?thesis
    unfolding unforged_def
  proof (intro allI impI)
    fix s body signatures
    assume b: "split_blank (example_witnessed c ts) = Some (body, signatures)" and s: "cosigned toy (example_witnessed c ts) w s"
    have "\<exists>sk. (wk_name w, sk, s) \<in> set (example_pair ts)"
      using cosigned_note_signers [OF toy_contracts(1,2) e(1,3) _ example_pair_cosigned [OF ts], of "replicate 32 1" w s] s
      by (simp add: example_witnessed_def)
    then have "s = ts" by (auto simp: example_pair_def)
    moreover have "body @ [NL] = checkpoint_body c"
      using b by (auto simp: example_witnessed_def split_blank_sign [OF e(1,3)] checkpoint_body_snoc)
    ultimately show "\<exists>r \<in> set example_releases. cosignature_message s (body @ [NL])
        = cosignature_message (rl_time r) (checkpoint_body (rl_checkpoint r))"
      using assms by (auto simp: example_releases_def)
  qed
qed

lemma example_unforged_other:
  assumes "c = example_old \<or> c = example_new" "ts \<le> 104" "wk_name w = ''cat''"
  shows "unforged toy (example_witnessed c ts) w []"
proof -
  note e = example_checkpoints [OF assms(1)]
  have "\<not> cosigned toy (example_witnessed c ts) w s" for s
    using cosigned_note_signers [OF toy_contracts(1,2) e(1,3) _ example_pair_cosigned [OF assms(2)], of "replicate 32 1" w s] assms(3)
    by (auto simp: example_witnessed_def example_pair_def)
  then show ?thesis by (simp add: unforged_def)
qed

definition example_member_events :: "witness_key \<Rightarrow> witness_event list" where
  "example_member_events w = (if wk_name w = ''cat'' then [] else example_events)"

lemma example_member_run:
  assumes "w \<in> set example_roster"
  shows "fst (witness_run toy (example_service (wk_name w) k) toy_codec (example_member_events w) fresh_witness)
    = (if wk_name w = ''cat'' then [] else example_releases)"
  using assms by (auto simp: example_member_events_def example_roster_def example_run)

theorem no_split_view_witness:
  "\<exists>v1 v2. verify_witness_policy toy (example_witnessed example_old 100) (replicate 32 1) example_roster 2 None = Ok v1
    \<and> verify_witness_policy toy (example_witnessed example_new 104) (replicate 32 1) example_roster 2 None = Ok v2
    \<and> (prefix (leaves small_prefix) (leaves small_log) \<or> prefix (leaves small_log) (leaves small_prefix))"
proof -
  let ?sv = "\<lambda>w :: witness_key. example_service (wk_name w) (hd (wk_key w))"
  let ?rels = "\<lambda>w. fst (witness_run toy (?sv w) toy_codec (example_member_events w) fresh_witness)"
  obtain v1 v2 where v: "verify_witness_policy toy (example_witnessed example_old 100) (replicate 32 1) example_roster 2 None = Ok v1"
      "vc_checkpoint v1 = example_old"
      "verify_witness_policy toy (example_witnessed example_new 104) (replicate 32 1) example_roster 2 None = Ok v2"
      "vc_checkpoint v2 = example_new"
    using example_witnessed_accepted [of example_old 100] example_witnessed_accepted [of example_new 104] by auto
  have u: "\<forall>w \<in> set example_roster - {}. unforged toy (example_witnessed example_old 100) w (?rels w)
      \<and> unforged toy (example_witnessed example_new 104) w (?rels w)"
    by (auto simp: example_member_run example_unforged example_unforged_other)
  have l: "log_of toy (vc_checkpoint v1) small_prefix" "log_of toy (vc_checkpoint v2) small_log"
    by (simp_all add: v log_of_def) (simp_all add: example_old_def example_new_def hashes_def small_prefix_def small_log_def)
  have i: "inj_on (sha256 toy) ((\<Union>w \<in> set example_roster - {}. \<Union> (release_inputs toy ` set (?rels w)))
      \<union> log_inputs toy small_prefix \<union> log_inputs toy small_log)"
    using example_collision_free by (rule inj_on_subset) (auto simp: example_member_run split: if_splits)
  from no_split_view [OF toy_contracts(1) toy_codec_contract _ v(1,3) empty_subsetI _ u l i] v(1,3)
  show ?thesis by (simp add: example_note_facts(5))
qed


lemma consistency_hashes: "hash_contract C \<Longrightarrow> hashes ls \<Longrightarrow> hashes (consistency C ls m b)"
proof (induction C ls m b rule: consistency.induct)
  case (1 C ls m b)
  then show ?case
    by (subst consistency.simps) (auto simp: Let_def root_range_length)
qed

text \<open>C10. Liveness: when the log has grown from the tree a witness holds, the submission of the new checkpoint with the
  log's own consistency proof is answered by a cosignature; the witness then holds the new tree, and the
  answer appended to the note is a cosignature of that witness at that time.\<close>

theorem witness_cosigns_growth:
  assumes "hash_contract C" "signature_contract C" "observes C w key c" "length (sv_signing_key w) = 32"
    and "cosignature_line C c (sv_name w) (sv_signing_key w) now = Ok line"
    and "hashes (leaves log)" "unat (ck_size c) \<le> length (leaves log)" "ck_root c = root_of C log (unat (ck_size c))"
    and "ws_state s = Some st" "st_root st = root_of C log (unat (st_size st))" "st_size st \<le> ck_size c"
    and "if st_size st = 0 then pf = [] else consistency_proof C log (st_size st) (ck_size c) = Some pf"
    and "length pf \<le> 63" "length (signed_submission C (st_size st) pf c key) \<le> 64 * 1024"
  shows "\<exists>st'. add_checkpoint C w D now True (signed_submission C (st_size st) pf c key) s
        = (text_reply 200 line, \<lparr>ws_state = Some st', ws_file = Some (to_json D st')\<rparr>)
      \<and> st_size st' = ck_size c \<and> st_root st' = ck_root c
      \<and> cosigned C (checkpoint_sign C c key @ line) \<lparr>wk_name = sv_name w, wk_key = ed_public C (sv_signing_key w)\<rparr> now"
proof -
  have pf: "hashes pf" "st_size st = 0 \<Longrightarrow> pf = []"
    using assms(1,6,12) consistency_hashes by (auto simp: consistency_proof_def split: if_splits)
  have e: "extends_stored C (ws_state s) \<lparr>old_size = st_size st, sub_proof = pf, sub_note = checkpoint_sign C c key\<rparr> c = Ok ()"
    unfolding assms(9) by (rule extends_stored_growth [OF assms(8,7,10,11,12)])
  note v = valid_cosignature_line [OF assms(1,2,4,5), of None]
  have o: "plain_name (ck_origin c)" "ck_root c \<noteq> []" using assms(3) by (auto simp: observes_def)
  have "str_lines (signature_line (ck_origin c) blob @ line) = (SIG_PREFIX @ ck_origin c @ [CHR 0x20] @ b64 blob) # [butlast line]" for blob
    using str_lines_signature [of "ck_origin c" blob line] str_lines_concat [of "[butlast line]"] v o(1)
    by (simp add: plain_name_def in_window_def)
  then have "cosigned C (checkpoint_sign C c key @ line) \<lparr>wk_name = sv_name w, wk_key = ed_public C (sv_signing_key w)\<rparr> now"
    unfolding cosigned_def split_blank_sign [OF o] using v(5) by (simp add: in_window_def)
  then show ?thesis
    using add_checkpoint_cosigns(1) [OF assms(1-3) pf(1) assms(13) pf(2) assms(14,5) e] by auto
qed


theorem witness_cosigns_growth_witness:
  "\<exists>st'. add_checkpoint toy (example_service ''ann'' 2) toy_codec 104 True
        (signed_submission toy 2 [replicate 32 3] example_new (replicate 32 1))
        \<lparr>ws_state = Some \<lparr>st_size = 2, st_root = log_root toy small_prefix, st_note = []\<rparr>, ws_file = None\<rparr>
        = (text_reply 200 (example_line example_new (''ann'', replicate 32 2, 104)), \<lparr>ws_state = Some st', ws_file = Some (to_json toy_codec st')\<rparr>)
      \<and> st_size st' = 3 \<and> st_root st' = log_root toy small_log"
proof -
  have l: "leaves small_prefix = take 2 (leaves small_log)" "length (leaves small_log) = 3" "hashes (leaves small_log)"
    by (simp_all add: small_prefix_def small_log_def hashes_def)
  have r: "log_root toy small_prefix = root_of toy small_log (unat (2 :: u64))" "log_root toy small_log = root_of toy small_log (unat (3 :: u64))"
    using l by (simp_all add: log_root_eq root_of_def)
  have p: "consistency_proof toy small_log 2 3 = Some [replicate 32 3]" by code_simp
  have s: "sv_name (example_service ''ann'' 2) = ''ann''" "sv_signing_key (example_service ''ann'' 2) = replicate 32 2"
      "ck_size example_new = 3" "ck_root example_new = log_root toy small_log"
    by (simp_all add: example_service_def example_new_def)
  have line: "cosignature_line toy example_new (sv_name (example_service ''ann'' 2)) (sv_signing_key (example_service ''ann'' 2)) 104
      = Ok (example_line example_new (''ann'', replicate 32 2, 104))"
    unfolding s by (rule example_line_Ok) simp_all
  show ?thesis
    using witness_cosigns_growth [OF toy_contracts(1,2) example_observes(2) _ line l(3), of
        "\<lparr>ws_state = Some \<lparr>st_size = 2, st_root = log_root toy small_prefix, st_note = []\<rparr>, ws_file = None\<rparr>"
        "\<lparr>st_size = 2, st_root = log_root toy small_prefix, st_note = []\<rparr>" "[replicate 32 3]" toy_codec]
      example_submission_length(2) l(2) p r
    by (simp add: s) blast
qed


text \<open>
  A state file that does not read back is taken for no state at all: the service restarts as one that has
  observed nothing, and the next checkpoint becomes its baseline whatever it held before.
\<close>

lemma unreadable_state_forgotten:
  assumes "of_json D b = None"
  shows "snd (witness_step C w D Restart \<lparr>ws_state = held, ws_file = Some b\<rparr>) = \<lparr>ws_state = None, ws_file = Some b\<rparr>"
    and "extends_stored C None \<lparr>old_size = 0, sub_proof = pf, sub_note = n\<rparr> c = Ok ()"
  using assms by (simp_all add: witness_step_def load_state_def extends_stored_def)

end
