(* ===== verification/Spec2Isabelle.thy ===== *)
theory Spec2Isabelle
  imports Base32 Keys Hex Network Merkle_Log Compliance_Format Untrusted Fetch_Auth Token Address Policy Agent_Record
    Envelope Loft_Error Loft_Runs Limiter Loft_Server Log_Witness
begin

text \<open>
  A verification library for Pigeonpost, asynchronous end-to-end encrypted messaging between agents. An agent is
  an Ed25519 key; its address is a short commitment to that key. A sender seals a message for a recipient's
  key and publishes it to a \<^emph>\<open>loft\<close>, an untrusted store-and-forward server, from which the recipient fetches
  it with a signed request. Recipients publish policies that say what a loft may accept for them, and agents
  publish records and rotation records that carry their key over to a committed successor. A registry keeps an
  append-only Merkle log of handles; \<^emph>\<open>witnesses\<close> cosign its signed tree heads so that clients with one
  roster cannot be shown different histories.

  \<^bold>\<open>Conventions.\<close> \<^verbatim>\<open>Prelude\<close> fixes them: a Rust \<^verbatim>\<open>Result\<close> is a sum, machine integers are words of their width with
  the checked and saturating operations written out, byte slices are lists of 8-bit words, strings are their
  UTF-8 bytes. Cryptographic primitives are the argument \<^verbatim>\<open>C\<close> of type \<^typ>\<open>crypto\<close> (\<^verbatim>\<open>Keys\<close>), JSON text the argument \<^verbatim>\<open>J\<close>
  (\<^verbatim>\<open>Json\<close>), URL parsing the argument \<^verbatim>\<open>parse\<close>, the witness's state file a pair of functions. What the code relies
  on of them is stated by named contracts, and each contract is met by an executable instance on which the
  theorems are evaluated. Clocks, random bytes, the outcome of a blocking task and the database met by each
  transaction are explicit arguments. Collision resistance is stated only for the inputs that were
  actually hashed.

  \<^bold>\<open>Core\<close> (\<^verbatim>\<open>crates/pigeonpost-core\<close>).
  \<^item> \<^verbatim>\<open>Base32\<close> (\<^verbatim>\<open>b32.rs\<close>), \<^verbatim>\<open>Hex\<close>, \<^verbatim>\<open>Decimal\<close>, \<^verbatim>\<open>Codec\<close>: text and byte codecs; the locales \<^verbatim>\<open>prefix_code\<close>, \<^verbatim>\<open>fixed_code\<close> and \<^verbatim>\<open>codec\<close> carry the
    cancellation and strictness arguments of every signed preimage.
  \<^item> \<^verbatim>\<open>Keys\<close> (\<^verbatim>\<open>keys.rs\<close>), \<^verbatim>\<open>Core_Error\<close> (\<^verbatim>\<open>error.rs\<close>), \<^verbatim>\<open>Network\<close> (\<^verbatim>\<open>network.rs\<close>: the address classifier agrees with the special-purpose
    blocks), \<^verbatim>\<open>Untrusted\<close> (\<^verbatim>\<open>untrusted.rs\<close>: a sender cannot close the fence around its own text), \<^verbatim>\<open>Token\<close> (\<^verbatim>\<open>token.rs\<close>, \<^verbatim>\<open>pow.rs\<close>),
    \<^verbatim>\<open>Fetch_Auth\<close> (\<^verbatim>\<open>fetch_auth.rs\<close>: a credential is bound to loft, origin, minute and cursor).
  \<^item> \<^verbatim>\<open>Address\<close> (\<^verbatim>\<open>address.rs\<close>): key addresses, handles and destinations, with the round trip of canonical text.
  \<^item> \<^verbatim>\<open>Policy\<close> (\<^verbatim>\<open>policy.rs\<close>), \<^verbatim>\<open>Agent_Record\<close> (\<^verbatim>\<open>record.rs\<close>), \<^verbatim>\<open>Record_Json\<close>: signed records bind every field; two chains of rotations
    from one pinned agent agree, or hold two contradictory rotations signed by the same two keys.
  \<^item> \<^verbatim>\<open>Json\<close>, \<^verbatim>\<open>Envelope_Wire\<close>, \<^verbatim>\<open>Envelope\<close> (\<^verbatim>\<open>envelope.rs\<close>): sealing, wrapping, opening and attribution. Every message within the size
    limit is delivered to whoever holds the recipient's key, its reported sender signed it, and the storage
    form reads back.
  \<^item> \<^verbatim>\<open>Compliance_Format\<close> (\<^verbatim>\<open>crates/pigeonpost-compliance-format\<close>): strict codecs and calendar epochs.

  \<^bold>\<open>Loft\<close> (\<^verbatim>\<open>crates/pigeonpost-loft\<close>).
  \<^item> \<^verbatim>\<open>Loft_Store\<close> (\<^verbatim>\<open>store.rs\<close>): each SQLite transaction is a function on a record of tables that returns the new tables or
    the error that rolls it back.
  \<^item> \<^verbatim>\<open>Loft_Invariants\<close> and \<^verbatim>\<open>Loft_Runs\<close> (\<^verbatim>\<open>store.rs\<close>, \<^verbatim>\<open>retention.rs\<close>): the step relation of a store under any sequence of requests and sweeps.
    Every reachable store passes the checks made on opening and stays within capacity; sequence numbers only
    grow and cursors are never reused; a published rotation is final and never lacks room; a sweep ends and removes exactly what expired.
  \<^item> \<^verbatim>\<open>Trace_Admission\<close> (\<^verbatim>\<open>store.rs\<close>), \<^verbatim>\<open>Limiter\<close> (\<^verbatim>\<open>limiter.rs\<close>), \<^verbatim>\<open>Loft_Config\<close> (\<^verbatim>\<open>config.rs\<close>): rate bounds; the locale \<^verbatim>\<open>window_budget\<close> is
    interpreted on the requests and the bytes of the controller built from a configuration.
  \<^item> \<^verbatim>\<open>Peer_Source\<close>, \<^verbatim>\<open>Loft_Server\<close>, \<^verbatim>\<open>Loft_Error\<close> (\<^verbatim>\<open>server.rs\<close>, \<^verbatim>\<open>attribution.rs\<close>, \<^verbatim>\<open>wire.rs\<close>, \<^verbatim>\<open>trace.rs\<close>, \<^verbatim>\<open>error.rs\<close>): the request handlers. The policy checked
    before a write may differ from the one met by the write, so an attempt carries both databases; a message is
    stored only if the policy in force at the write admits it and its bytes were charged to the recipient. A fetch serves the
    owner's stored rows in order, and a refused one is answered alike whichever check failed.

  \<^bold>\<open>Registry log and witnesses\<close> (\<^verbatim>\<open>crates/pigeonpost-registry\<close>, \<^verbatim>\<open>crates/pigeonpost-witness\<close>).
  \<^item> \<^verbatim>\<open>Merkle_Log\<close> (\<^verbatim>\<open>log.rs\<close>): the log, its proofs and their verifiers, sound and complete, and the compact frontier, which
    refines the log through the locale \<^verbatim>\<open>append_log\<close> and appends all or nothing.
  \<^item> \<^verbatim>\<open>Base64\<close>, \<^verbatim>\<open>Checkpoint\<close>, \<^verbatim>\<open>Registry_Error\<close> (\<^verbatim>\<open>checkpoint.rs\<close>, \<^verbatim>\<open>error.rs\<close>): signed tree heads, cosignatures and quorum policies.
  \<^item> \<^verbatim>\<open>Log_Witness\<close> (\<^verbatim>\<open>pigeonpost-witness/src/main.rs\<close>): the witness service over submissions, failed saves and restarts. It cosigns
    one history; with the quorum intersection this excludes a split view.

  \<^bold>\<open>Termination.\<close> No definition that models the code needs fuel; only the example JSON decoder of \<^verbatim>\<open>Json\<close> has some, bounded by the depth of the
  document. Loops are structural or have a measure: a size that halves, the remaining
  proof or text, the expired rows left to sweep. The retries of publishing are the bounded list of
  attempts the code makes.

  \<^bold>\<open>Not modelled.\<close> Debug output, zeroization and random generation; schema migrations and trace segment
  files of the store; timers, sockets and connection loops; the registry's own database, claims and
  HTTP surface and its side of the witness protocol; the client, command line, postbox, directory, compliance
  operator, group cryptography and custody crates; applications, sites and deployment. These are
  databases, network and operating system calls around the parts above, or call protocols whose
  implementation is not in the repository.
\<close>

section \<open>Properties that span components\<close>

text \<open>C2. Mail reaches its recipient. A message within the size limit, sealed for a recipient who has published no policy and
  under an event identifier that is not stored yet, is admitted by any reachable loft with room for it; the recipient's next
  fetch from the last cursor returns exactly that envelope, and opening it yields the sender and the body.\<close>

theorem mail_reaches_recipient:
  assumes "reachable C parse J cap db" "loft_contract C J cap"
    and "signature_contract C" "agreement_contract C" "aead_contract C" "json_contract J"
      "length (seed sender) = 32" "length (seed R) = 32" "entropy_wf E" "length body \<le> MAX_PLAINTEXT"
    and "case counters db of (e, c, r) \<Rightarrow> e + c + r + 2100256 \<le> uint cap" "db_last_cursor db < 2 ^ 63 - 1"
    and "map_of (db_policies db) (verifying_key C R) = None"
      "\<And>w. wrap_message C J E sender (verifying_key C R) body now = Ok w \<Longrightarrow> wrap_id C w \<notin> set (map ev_id (db_events db))"
    and "uint stored_at < 2 ^ 63" "uint expires_at < 2 ^ 63" "0 < limit" "limit < 2 ^ 63"
  shows "\<exists>w db'. wrap_message C J E sender (verifying_key C R) body now = Ok w
    \<and> admit C J db w (wrap_id C w) stored_at expires_at cap None = Ok (db', True)
    \<and> fetch J db' (verifying_key C R) (word_of_int (db_last_cursor db)) limit =
        Ok [\<lparr>se_cursor = word_of_int (db_last_cursor db + 1), se_wrap = w\<rparr>]
    \<and> open_wrap C J R w = Ok (verifying_key C sender, body)"
proof -
  note inv = reachable_inv [OF assms(1,2)]
  obtain w row where w: "wrap_message C J E sender (verifying_key C R) body now = Ok w" "wrap_wf w"
    and adm: "admit C J db w (wrap_id C w) stored_at expires_at cap None = Ok (add_event db row, True)"
    and row: "ev_cursor row = db_last_cursor db + 1" "ev_recipient row = verifying_key C R"
      "Option.bind (from_slice J (ev_blob row)) wrap_from_json = Some w"
    and op: "open_wrap C J R w = Ok (verifying_key C sender, body)"
    using delivered_by_loft [OF inv assms(2-16)] by blast
  have inv': "loft_inv C parse J cap (add_event db row)"
    by (rule step_inv [OF step_admit [OF w(2) adm] assms(2) inv])
  have ev: "0 \<le> db_last_cursor db" "\<forall>e \<in> set (db_events db). ev_cursor e \<le> db_last_cursor db"
    using inv by (auto simp: loft_inv_def events_ok_def)
  then have u: "uint (word_of_int (db_last_cursor db) :: u64) = db_last_cursor db" using assms(12) by (intro uint_u64) simp_all
  have "mail_after (add_event db row) (verifying_key C R) (word_of_int (db_last_cursor db)) = [row]"
    using ev(2) row(1,2) by (auto simp: mail_after_def u filter_empty_conv)
  then have "fetch J (add_event db row) (verifying_key C R) (word_of_int (db_last_cursor db)) limit = Ok [row_mail J row]"
    using fetch_spec [OF inv', of "word_of_int (db_last_cursor db)" limit] assms(12,17,18) u by (simp add: take_Cons')
  then show ?thesis using w(1) adm op row by (intro exI [of _ w] exI [of _ "add_event db row"]) (simp add: row_mail_def)
qed

theorem mail_reaches_recipient_witness:
  "\<exists>w db'. admit toy toy_json empty_db w (wrap_id toy w) 100 200 example_capacity None = Ok (db', True)
    \<and> fetch toy_json db' (verifying_key toy example_recipient) 0 10 = Ok [\<lparr>se_cursor = 1, se_wrap = w\<rparr>]
    \<and> open_wrap toy toy_json example_recipient w = Ok (verifying_key toy example_sender, ''hello'')"
proof -
  have "\<exists>w db'. wrap_message toy toy_json example_entropy example_sender (verifying_key toy example_recipient) ''hello'' 1700000000 = Ok w
    \<and> admit toy toy_json empty_db w (wrap_id toy w) 100 200 example_capacity None = Ok (db', True)
    \<and> fetch toy_json db' (verifying_key toy example_recipient) (word_of_int (db_last_cursor empty_db)) 10 =
        Ok [\<lparr>se_cursor = word_of_int (db_last_cursor empty_db + 1), se_wrap = w\<rparr>]
    \<and> open_wrap toy toy_json example_recipient w = Ok (verifying_key toy example_sender, ''hello'')"
    by (rule mail_reaches_recipient [OF reachable_empty example_loft_contract example_contracts])
      (simp_all add: envelope_consts empty_db_def example_capacity_def)
  then show ?thesis by (auto simp: empty_db_def)
qed

end
